(* ===== verification/Prelude.thy ===== *)
theory Prelude
  imports Main "HOL-Library.Word" "HOL-Library.AList"
begin

text \<open>
  Shared vocabulary of the development: the machine integer types of the C++ code, its
  exceptions as values, the list search that \<open>std::ranges::find_if\<close> performs, updates of
  \<open>std::unordered_map\<close> objects, and the lemmas on words and lists the component theories
  use. The collection \<open>zdb_simps\<close> gathers the equations that unfold these helpers.
\<close>

named_theorems zdb_simps

section \<open>Machine integers and exceptions\<close>

type_synonym u8 = "8 word"
type_synonym u64 = "64 word"

text \<open>
  What a C++ function of this code can do other than return: throw one of the standard
  exceptions, or run into undefined behaviour. A function that can is given the result type
  \<open>cxx_exn + 'a\<close>.
\<close>

datatype cxx_exn =
    InvalidArgument string
  | RuntimeError string
  | LogicError string
  | OutOfRange
  | BadOptionalAccess
  | BadVariantAccess
  | NullPointer
  | UndefinedShift
  | BufferOverrun
  | UseAfterFree
  | Unreachable

type_synonym 'a outcome = "cxx_exn + 'a"

fun bind_outcome :: "'a outcome \<Rightarrow> ('a \<Rightarrow> 'b outcome) \<Rightarrow> 'b outcome" where
  "bind_outcome (Inl e) f = Inl e"
| "bind_outcome (Inr x) f = f x"

lemma bind_outcome_Inr: "bind_outcome m f = Inr y \<longleftrightarrow> (\<exists>x. m = Inr x \<and> f x = Inr y)"
  by (cases m) auto

text \<open>A loop that maps a function over a vector and stops at the first exception.\<close>

fun map_outcome :: "('a \<Rightarrow> 'b outcome) \<Rightarrow> 'a list \<Rightarrow> 'b list outcome" where
  "map_outcome f [] = Inr []"
| "map_outcome f (x # xs) = bind_outcome (f x) (\<lambda>y. bind_outcome (map_outcome f xs) (\<lambda>ys. Inr (y # ys)))"

lemma map_outcome_ok: "(\<And>x. x \<in> set xs \<Longrightarrow> f x = Inr (g x)) \<Longrightarrow> map_outcome f xs = Inr (map g xs)"
  by (induction xs) auto

lemma map_outcome_InrD: "map_outcome f xs = Inr ys \<Longrightarrow> list_all2 (\<lambda>x y. f x = Inr y) xs ys"
  by (induction xs arbitrary: ys) (auto simp: bind_outcome_Inr)

section \<open>Strings\<close>

text \<open>\<open>std::to_string\<close> of an unsigned value: its decimal digits.\<close>

fun to_string_nat :: "nat \<Rightarrow> string" where
  "to_string_nat n = (if n < 10 then [char_of (48 + n)] else to_string_nat (n div 10) @ [char_of (48 + n mod 10)])"

declare to_string_nat.simps [simp del]

definition to_string :: "u64 \<Rightarrow> string" where
  "to_string w = to_string_nat (unat w)"

section \<open>Searching a vector\<close>

text \<open>
  \<open>std::find_if\<close> returns an iterator; its model is the position of the first hit, \<open>None\<close>
  for the end iterator.
\<close>

fun first_pos :: "('a \<Rightarrow> bool) \<Rightarrow> 'a list \<Rightarrow> nat option" where
  "first_pos P [] = None"
| "first_pos P (x # xs) = (if P x then Some 0 else map_option Suc (first_pos P xs))"

lemma first_pos_None: "first_pos P xs = None \<longleftrightarrow> (\<forall>x \<in> set xs. \<not> P x)"
  by (induction xs) auto

lemma first_pos_SomeD:
  "first_pos P xs = Some p \<Longrightarrow> p < length xs \<and> P (xs ! p) \<and> (\<forall>q < p. \<not> P (xs ! q))"
proof (induction xs arbitrary: p)
  case Nil
  then show ?case by simp
next
  case (Cons x xs)
  show ?case
  proof (cases "P x")
    case True
    with Cons.prems show ?thesis by simp
  next
    case False
    with Cons.prems obtain q where q: "first_pos P xs = Some q" "p = Suc q" by auto
    from Cons.IH [OF q(1)] False q(2) show ?thesis
      by (auto simp: nth_Cons split: nat.splits)
  qed
qed

lemma first_pos_SomeI:
  assumes "p < length xs" and "P (xs ! p)" and "\<And>q. q < p \<Longrightarrow> \<not> P (xs ! q)"
  shows "first_pos P xs = Some p"
proof (cases "first_pos P xs")
  case None
  with assms(1,2) show ?thesis by (auto simp: first_pos_None)
next
  case (Some r)
  from first_pos_SomeD [OF Some] have "P (xs ! r)" "\<forall>q < r. \<not> P (xs ! q)" by auto
  with assms have "r = p" by (metis linorder_neqE_nat)
  with Some show ?thesis by simp
qed

lemma find_first_pos: "find P xs = map_option ((!) xs) (first_pos P xs)"
  by (induction xs) (auto simp: option.map_comp comp_def)

section \<open>Hash maps\<close>

text \<open>
  A \<open>std::unordered_map\<close> is an association list; the order of the list is the (unspecified)
  iteration order. \<open>m[k] = v\<close> is \<^const>\<open>AList.update\<close>, \<open>m.at(k)\<close> throws
  \<open>std::out_of_range\<close> on a missing key, and a loop \<open>for (auto& x : m | values) x = v\<close>
  is \<open>set_values\<close>.
\<close>

type_synonym ('k, 'v) umap = "('k \<times> 'v) list"

definition map_at :: "('k, 'v) umap \<Rightarrow> 'k \<Rightarrow> 'v outcome" where
  "map_at m k = (case map_of m k of None \<Rightarrow> Inl OutOfRange | Some v \<Rightarrow> Inr v)"

definition set_values :: "'v \<Rightarrow> ('k, 'v) umap \<Rightarrow> ('k, 'v) umap" where
  "set_values v m = map (\<lambda>(k, _). (k, v)) m"

definition const_map :: "'k list \<Rightarrow> 'v \<Rightarrow> ('k, 'v) umap" where
  "const_map ks v = fold (\<lambda>k m. AList.update k v m) ks []"

lemma map_of_update [simp]: "map_of (AList.update k v m) = (map_of m)(k \<mapsto> v)"
  by (rule ext) (simp add: update_conv')

lemma map_of_set_values [simp]:
  "map_of (set_values v m) k = (if k \<in> fst ` set m then Some v else None)"
  unfolding set_values_def by (induction m) auto

lemma keys_set_values [simp]: "map fst (set_values v m) = map fst m"
  by (induction m) (auto simp: set_values_def)

lemma map_of_fold_const:
  "map_of (fold (\<lambda>k m. AList.update k v m) ks m) k =
     (if k \<in> set ks then Some v else map_of m k)"
  by (induction ks arbitrary: m) auto

lemma map_of_const_map [simp]:
  "map_of (const_map ks v) k = (if k \<in> set ks then Some v else None)"
  by (simp add: const_map_def map_of_fold_const)

lemma distinct_fold_update:
  "distinct (map fst m) \<Longrightarrow> distinct (map fst (fold (\<lambda>k m. AList.update k v m) ks m))"
  by (induction ks arbitrary: m) (auto simp: distinct_update)

lemma distinct_const_map [simp]: "distinct (map fst (const_map ks v))"
  by (simp add: const_map_def distinct_fold_update)

section \<open>Words\<close>

lemma unat_less_max: "x < y \<Longrightarrow> Suc (unat x) < 2 ^ LENGTH('a)" for x y :: "'a::len word"
  by (metis Suc_leI le_less_trans unsigned_less word_less_nat_alt)

lemma unat_plus1: "Suc (unat x) < 2 ^ LENGTH('a) \<Longrightarrow> unat (x + 1) = Suc (unat x)"
  for x :: "'a::len word"
  by (simp add: unat_word_ariths)

lemma unat_plus1_less: "x < y \<Longrightarrow> unat (x + 1) = Suc (unat x)" for x y :: "'a::len word"
  by (simp add: unat_plus1 unat_less_max)

lemma unat_minus1: "x \<noteq> 0 \<Longrightarrow> unat (x - 1) = unat x - 1" for x :: "'a::len word"
  by (simp add: unat_minus_one)

lemma unat_not_max: "x \<noteq> - 1 \<Longrightarrow> Suc (unat x) < 2 ^ LENGTH('a)" for x :: "'a::len word"
  using unat_less_max [of x "- 1"] word_order.extremum_strict [of x] by (simp add: word_order.not_eq_extremum)

lemma less_plus1: "x \<noteq> - 1 \<Longrightarrow> x < x + 1" for x :: "'a::len word"
  by (simp add: unat_not_max unat_plus1 word_less_nat_alt)

lemma nth_list_update_at: "j < length xs \<Longrightarrow> xs[i := x] ! j = (if i = j then x else xs ! j)"
  by (cases "i = j") auto

end
