(* ===== verification/Codec.thy ===== *)
theory Codec
  imports Prelude
begin

text \<open>
  Concrete byte codecs. Protocol buffer serialisation is not code of this repository, so the
  component theories take encoders and decoders as arguments and name the law they rely on
  (\<open>decode (encode x) = Some x\<close>). The codecs built here satisfy that law; they instantiate
  those arguments in the witnesses. A decoder returns the value and the rest of the input,
  so that decoders compose.
\<close>

definition codec :: "('a \<Rightarrow> string) \<Rightarrow> (string \<Rightarrow> ('a \<times> string) option) \<Rightarrow> bool" where
  "codec e d \<longleftrightarrow> (\<forall>x r. d (e x @ r) = Some (x, r))"

text \<open>Decoding a whole string.\<close>

definition whole :: "(string \<Rightarrow> ('a \<times> string) option) \<Rightarrow> string \<Rightarrow> 'a option" where
  "whole d s = (case d s of Some (x, []) \<Rightarrow> Some x | _ \<Rightarrow> None)"

lemma codecD [simp]: "codec e d \<Longrightarrow> d (e x @ r) = Some (x, r)"
  by (simp add: codec_def)

lemma whole_roundtrip: "codec e d \<Longrightarrow> whole d (e x) = Some x"
  using codecD [of e d x "[]"] by (simp add: whole_def)

section \<open>Numbers\<close>

fun enc_nat :: "nat \<Rightarrow> string" where
  "enc_nat 0 = [CHR ''0'']"
| "enc_nat (Suc n) = CHR ''1'' # enc_nat n"

fun dec_nat :: "string \<Rightarrow> (nat \<times> string) option" where
  "dec_nat [] = None"
| "dec_nat (c # cs) =
     (if c = CHR ''0'' then Some (0, cs) else map_option (\<lambda>(n, r). (Suc n, r)) (dec_nat cs))"

lemma codec_nat: "codec enc_nat dec_nat"
proof -
  have "dec_nat (enc_nat n @ r) = Some (n, r)" for n r
    by (induction n) auto
  then show ?thesis by (simp add: codec_def)
qed

section \<open>Combinators\<close>

definition enc_via :: "('a \<Rightarrow> 'b) \<Rightarrow> ('b \<Rightarrow> string) \<Rightarrow> 'a \<Rightarrow> string" where
  "enc_via f e x = e (f x)"

definition dec_via :: "('b \<Rightarrow> 'a) \<Rightarrow> (string \<Rightarrow> ('b \<times> string) option) \<Rightarrow> string \<Rightarrow> ('a \<times> string) option" where
  "dec_via g d s = map_option (\<lambda>(y, r). (g y, r)) (d s)"

lemma codec_via: "codec e d \<Longrightarrow> (\<And>x. g (f x) = x) \<Longrightarrow> codec (enc_via f e) (dec_via g d)"
  by (simp add: codec_def enc_via_def dec_via_def)

definition enc_pair :: "('a \<Rightarrow> string) \<Rightarrow> ('b \<Rightarrow> string) \<Rightarrow> 'a \<times> 'b \<Rightarrow> string" where
  "enc_pair e1 e2 p = e1 (fst p) @ e2 (snd p)"

definition dec_pair :: "(string \<Rightarrow> ('a \<times> string) option) \<Rightarrow> (string \<Rightarrow> ('b \<times> string) option)
    \<Rightarrow> string \<Rightarrow> (('a \<times> 'b) \<times> string) option" where
  "dec_pair d1 d2 s = (case d1 s of None \<Rightarrow> None | Some (x, r) \<Rightarrow>
     (case d2 r of None \<Rightarrow> None | Some (y, r') \<Rightarrow> Some ((x, y), r')))"

lemma codec_pair: "codec e1 d1 \<Longrightarrow> codec e2 d2 \<Longrightarrow> codec (enc_pair e1 e2) (dec_pair d1 d2)"
  by (simp add: codec_def enc_pair_def dec_pair_def)

fun enc_items :: "('a \<Rightarrow> string) \<Rightarrow> 'a list \<Rightarrow> string" where
  "enc_items e [] = []"
| "enc_items e (x # xs) = e x @ enc_items e xs"

fun dec_items :: "(string \<Rightarrow> ('a \<times> string) option) \<Rightarrow> nat \<Rightarrow> string \<Rightarrow> ('a list \<times> string) option" where
  "dec_items d 0 s = Some ([], s)"
| "dec_items d (Suc n) s = (case d s of None \<Rightarrow> None | Some (x, r) \<Rightarrow>
     map_option (\<lambda>(xs, r'). (x # xs, r')) (dec_items d n r))"

definition enc_list :: "('a \<Rightarrow> string) \<Rightarrow> 'a list \<Rightarrow> string" where
  "enc_list e xs = enc_nat (length xs) @ enc_items e xs"

definition dec_list :: "(string \<Rightarrow> ('a \<times> string) option) \<Rightarrow> string \<Rightarrow> ('a list \<times> string) option" where
  "dec_list d s = (case dec_nat s of None \<Rightarrow> None | Some (n, r) \<Rightarrow> dec_items d n r)"

lemma dec_items_enc: "codec e d \<Longrightarrow> dec_items d (length xs) (enc_items e xs @ r) = Some (xs, r)"
  by (induction xs) auto

lemma codec_list: "codec e d \<Longrightarrow> codec (enc_list e) (dec_list d)"
  using codec_nat by (simp add: codec_def enc_list_def dec_list_def dec_items_enc)

section \<open>The codecs of the field types\<close>

definition enc_char :: "char \<Rightarrow> string" where
  "enc_char c = [c]"

fun dec_char :: "string \<Rightarrow> (char \<times> string) option" where
  "dec_char [] = None"
| "dec_char (c # cs) = Some (c, cs)"

lemma codec_char: "codec enc_char dec_char"
  by (simp add: codec_def enc_char_def)

abbreviation enc_string :: "string \<Rightarrow> string" where
  "enc_string \<equiv> enc_list enc_char"

abbreviation dec_string :: "string \<Rightarrow> (string \<times> string) option" where
  "dec_string \<equiv> dec_list dec_char"

lemmas codec_string = codec_list [OF codec_char]

definition enc_u64 :: "u64 \<Rightarrow> string" where
  "enc_u64 = enc_via unat enc_nat"

definition dec_u64 :: "string \<Rightarrow> (u64 \<times> string) option" where
  "dec_u64 = dec_via of_nat dec_nat"

lemma codec_u64: "codec enc_u64 dec_u64"
  unfolding enc_u64_def dec_u64_def by (rule codec_via [OF codec_nat]) simp

definition enc_int :: "int \<Rightarrow> string" where
  "enc_int = enc_via (\<lambda>i. (nat i, nat (- i))) (enc_pair enc_nat enc_nat)"

definition dec_int :: "string \<Rightarrow> (int \<times> string) option" where
  "dec_int = dec_via (\<lambda>(a, b). int a - int b) (dec_pair dec_nat dec_nat)"

lemma codec_int: "codec enc_int dec_int"
  unfolding enc_int_def dec_int_def
  by (rule codec_via [OF codec_pair [OF codec_nat codec_nat]]) simp

definition enc_option :: "('a \<Rightarrow> string) \<Rightarrow> 'a option \<Rightarrow> string" where
  "enc_option e = enc_via (\<lambda>x. case x of None \<Rightarrow> [] | Some y \<Rightarrow> [y]) (enc_list e)"

definition dec_option :: "(string \<Rightarrow> ('a \<times> string) option) \<Rightarrow> string \<Rightarrow> ('a option \<times> string) option" where
  "dec_option d = dec_via (\<lambda>xs. case xs of [] \<Rightarrow> None | y # _ \<Rightarrow> Some y) (dec_list d)"

lemma codec_option: "codec e d \<Longrightarrow> codec (enc_option e) (dec_option d)"
  unfolding enc_option_def dec_option_def
  by (rule codec_via [OF codec_list]) (auto split: option.splits)

lemmas codecs = codec_nat codec_string codec_u64 codec_int codec_pair codec_list codec_option

end
