(* ===== verification/Errors.thy ===== *)
theory Errors
  imports Codec
begin

text \<open>
  \<open>src/common/Error.cpp\<close> and \<open>src/common/ErrorConverter.cpp\<close>: the error codes of the
  system, which of them an operation may be retried on, and the conversion of errors to gRPC
  statuses and back. The serialisation of \<open>google::protobuf::Any\<close> is not code of this
  repository: \<open>pack\<close> stands for \<open>PackFrom\<close> followed by \<open>SerializeAsString\<close>, \<open>unpack\<close>
  for \<open>ParseFromString\<close> followed by \<open>UnpackTo\<close> (\<open>None\<close> when either fails).
\<close>

section \<open>Error codes\<close>

text \<open>
  The enumerators of \<open>ErrorCode\<close>. The enumeration has a fixed underlying type, so
  \<open>static_cast\<close> can produce a value that is none of them: \<open>Unlisted\<close>.
\<close>

datatype ErrorCode =
    OK
  | InvalidArg
  | ServiceTemporarilyUnavailable
  | AllServicesUnavailable
  | VersionMismatch
  | Maybe
  | KeyNotFound
  | Timeout
  | NotLeader
  | Internal
  | Cancelled
  | Unknown
  | Unlisted int

fun code_number :: "ErrorCode \<Rightarrow> int" where
  "code_number OK = 0"
| "code_number InvalidArg = 1"
| "code_number ServiceTemporarilyUnavailable = 2"
| "code_number AllServicesUnavailable = 3"
| "code_number VersionMismatch = 4"
| "code_number Maybe = 5"
| "code_number KeyNotFound = 6"
| "code_number Timeout = 7"
| "code_number NotLeader = 8"
| "code_number Internal = 9"
| "code_number Cancelled = 10"
| "code_number Unknown = 128"
| "code_number (Unlisted n) = n"

text \<open>\<open>static_cast<ErrorCode>(n)\<close>.\<close>

definition listed_codes :: "ErrorCode list" where
  "listed_codes = [OK, InvalidArg, ServiceTemporarilyUnavailable, AllServicesUnavailable,
     VersionMismatch, Maybe, KeyNotFound, Timeout, NotLeader, Internal, Cancelled, Unknown]"

definition code_of_number :: "int \<Rightarrow> ErrorCode" where
  "code_of_number n =
     (case find (\<lambda>c. code_number c = n) listed_codes of Some c \<Rightarrow> c | None \<Rightarrow> Unlisted n)"

fun toString :: "ErrorCode \<Rightarrow> string outcome" where
  "toString OK = Inr ''OK''"
| "toString Timeout = Inr ''Timeout''"
| "toString Unknown = Inr ''Unknown''"
| "toString InvalidArg = Inr ''InvalidArgument''"
| "toString ServiceTemporarilyUnavailable = Inr ''ServiceTemporarilyUnavailable''"
| "toString AllServicesUnavailable = Inr ''AllServicesUnavailable''"
| "toString VersionMismatch = Inr ''VersionMismatch''"
| "toString Maybe = Inr ''Maybe''"
| "toString KeyNotFound = Inr ''KeyNotFound''"
| "toString NotLeader = Inr ''NotLeader''"
| "toString Internal = Inr ''Internal''"
| "toString Cancelled = Inr ''Cancelled''"
| "toString (Unlisted n) = Inl Unreachable"

definition retriableErrorCodes :: "(string, ErrorCode list) umap" where
  "retriableErrorCodes =
     [(''erase'', [ServiceTemporarilyUnavailable, AllServicesUnavailable]),
      (''requestVote'', [Timeout]),
      (''appendEntries'', [Timeout]),
      (''default'', [Unknown, ServiceTemporarilyUnavailable, AllServicesUnavailable, Timeout])]"

definition isRetriable :: "string \<Rightarrow> ErrorCode \<Rightarrow> bool" where
  "isRetriable op code =
     (case map_of retriableErrorCodes op of
        Some codes \<Rightarrow> code \<in> set codes
      | None \<Rightarrow> (case map_of retriableErrorCodes ''default'' of
            Some codes \<Rightarrow> code \<in> set codes
          | None \<Rightarrow> False))"

section \<open>Errors\<close>

record Error =
  err_code :: ErrorCode
  err_what :: string
  err_key :: string
  err_value :: string
  err_version :: u64

definition mk_Error :: "ErrorCode \<Rightarrow> string \<Rightarrow> Error" where
  "mk_Error c w = \<lparr>err_code = c, err_what = w, err_key = '''', err_value = '''', err_version = 0\<rparr>"

definition Error_of_code :: "ErrorCode \<Rightarrow> Error outcome" where
  "Error_of_code c = bind_outcome (toString c) (\<lambda>w. Inr (mk_Error c w))"

text \<open>The message \<open>proto::ErrorDetails\<close>; its enum field is open, so it holds any integer.\<close>

record ErrorDetails =
  ed_code :: int
  ed_what :: string
  ed_key :: string
  ed_value :: string
  ed_version :: u64

definition Error_of_details :: "ErrorDetails \<Rightarrow> Error" where
  "Error_of_details d = \<lparr>err_code = code_of_number (ed_code d), err_what = ed_what d,
     err_key = ed_key d, err_value = ed_value d, err_version = ed_version d\<rparr>"

definition details_of_Error :: "Error \<Rightarrow> ErrorDetails" where
  "details_of_Error e = \<lparr>ed_code = code_number (err_code e), ed_what = err_what e,
     ed_key = err_key e, ed_value = err_value e, ed_version = err_version e\<rparr>"

section \<open>gRPC statuses\<close>

text \<open>The status codes the source names; the others of gRPC are \<open>OTHER_STATUS\<close>.\<close>

datatype StatusCode =
    STATUS_OK
  | CANCELLED
  | UNKNOWN
  | INVALID_ARGUMENT
  | DEADLINE_EXCEEDED
  | NOT_FOUND
  | FAILED_PRECONDITION
  | UNAVAILABLE
  | OTHER_STATUS nat

record Status =
  error_code :: StatusCode
  error_message :: string
  error_details :: string

definition Status_OK :: Status where
  "Status_OK = \<lparr>error_code = STATUS_OK, error_message = '''', error_details = ''''\<rparr>"

definition mk_Status :: "StatusCode \<Rightarrow> string \<Rightarrow> Status" where
  "mk_Status c m = \<lparr>error_code = c, error_message = m, error_details = ''''\<rparr>"

definition status_ok :: "Status \<Rightarrow> bool" where
  "status_ok s \<longleftrightarrow> error_code s = STATUS_OK"

fun toGrpcStatusCode :: "ErrorCode \<Rightarrow> StatusCode" where
  "toGrpcStatusCode KeyNotFound = NOT_FOUND"
| "toGrpcStatusCode InvalidArg = INVALID_ARGUMENT"
| "toGrpcStatusCode VersionMismatch = INVALID_ARGUMENT"
| "toGrpcStatusCode ServiceTemporarilyUnavailable = UNAVAILABLE"
| "toGrpcStatusCode AllServicesUnavailable = UNAVAILABLE"
| "toGrpcStatusCode Timeout = DEADLINE_EXCEEDED"
| "toGrpcStatusCode NotLeader = FAILED_PRECONDITION"
| "toGrpcStatusCode Cancelled = CANCELLED"
| "toGrpcStatusCode _ = UNKNOWN"

definition toGrpcStatus :: "(ErrorDetails \<Rightarrow> string) \<Rightarrow> Error \<Rightarrow> Status outcome" where
  "toGrpcStatus pack e =
     bind_outcome (toString (err_code e)) (\<lambda>m.
       Inr \<lparr>error_code = toGrpcStatusCode (err_code e), error_message = m,
            error_details = pack (details_of_Error e)\<rparr>)"

definition toGrpcStatus_expected :: "(ErrorDetails \<Rightarrow> string) \<Rightarrow> Error + 'a \<Rightarrow> Status outcome" where
  "toGrpcStatus_expected pack v =
     (case v of Inr _ \<Rightarrow> Inr Status_OK | Inl e \<Rightarrow> toGrpcStatus pack e)"

fun fallback_code :: "StatusCode \<Rightarrow> ErrorCode" where
  "fallback_code NOT_FOUND = KeyNotFound"
| "fallback_code INVALID_ARGUMENT = InvalidArg"
| "fallback_code UNAVAILABLE = ServiceTemporarilyUnavailable"
| "fallback_code DEADLINE_EXCEEDED = Timeout"
| "fallback_code FAILED_PRECONDITION = NotLeader"
| "fallback_code CANCELLED = Cancelled"
| "fallback_code _ = Unknown"

definition toError :: "(string \<Rightarrow> ErrorDetails option) \<Rightarrow> Status \<Rightarrow> Error outcome" where
  "toError unpack s =
     (if error_code s = STATUS_OK then Inl (LogicError ''Cannot convert OK status to error'')
      else case unpack (error_details s) of
          Some d \<Rightarrow> Inr (Error_of_details d)
        | None \<Rightarrow> Inr (mk_Error (fallback_code (error_code s)) (error_message s)))"

definition toExpected :: "(string \<Rightarrow> ErrorDetails option) \<Rightarrow> Status \<Rightarrow> 'a \<Rightarrow> (Error + 'a) outcome" where
  "toExpected unpack s v =
     (if status_ok s then Inr (Inr v) else bind_outcome (toError unpack s) (\<lambda>e. Inr (Inl e)))"

definition errorCode_of_result :: "Error + 'a \<Rightarrow> ErrorCode outcome" where
  "errorCode_of_result r =
     (case r of Inr _ \<Rightarrow> Inl (LogicError ''Expected error but got value'') | Inl e \<Rightarrow> Inr (err_code e))"

section \<open>Facts\<close>

lemma code_of_number_listed: "c \<in> set listed_codes \<Longrightarrow> code_of_number (code_number c) = c"
  by (auto simp: listed_codes_def code_of_number_def)

lemma listed_iff: "c \<in> set listed_codes \<longleftrightarrow> (\<forall>n. c \<noteq> Unlisted n)"
  by (cases c) (auto simp: listed_codes_def)

lemma toString_listed: "c \<in> set listed_codes \<Longrightarrow> \<exists>w. toString c = Inr w"
  by (cases c) (auto simp: listed_codes_def)

lemma toGrpcStatusCode_not_ok: "toGrpcStatusCode c \<noteq> STATUS_OK"
  by (cases c) auto

lemma isRetriable_cases:
  "isRetriable op c \<longleftrightarrow>
     (if op = ''erase'' then c \<in> {ServiceTemporarilyUnavailable, AllServicesUnavailable}
      else if op \<in> {''requestVote'', ''appendEntries''} then c = Timeout
      else c \<in> {Unknown, ServiceTemporarilyUnavailable, AllServicesUnavailable, Timeout})"
  by (auto simp: isRetriable_def retriableErrorCodes_def)

lemma toError_ok_iff: "(\<exists>x. toError unpack s = Inl x) \<longleftrightarrow> status_ok s"
  by (auto simp: toError_def status_ok_def split: option.splits)

text \<open>A codec for the details, for the witnesses.\<close>

definition enc_details :: "ErrorDetails \<Rightarrow> string" where
  "enc_details = enc_via (\<lambda>d. (ed_code d, ed_what d, ed_key d, ed_value d, ed_version d))
     (enc_pair enc_int (enc_pair enc_string (enc_pair enc_string (enc_pair enc_string enc_u64))))"

definition dec_details :: "string \<Rightarrow> (ErrorDetails \<times> string) option" where
  "dec_details = dec_via (\<lambda>(c, w, k, v, n). \<lparr>ed_code = c, ed_what = w, ed_key = k, ed_value = v, ed_version = n\<rparr>)
     (dec_pair dec_int (dec_pair dec_string (dec_pair dec_string (dec_pair dec_string dec_u64))))"

lemma codec_details: "codec enc_details dec_details"
  unfolding enc_details_def dec_details_def by (rule codec_via) (simp_all add: codecs)

text \<open>
  An error with an enumerated code survives the trip through a gRPC status: the receiver
  reads back the same code, message, key, value and version, whatever the status code is
  coarsened to, given that the \<open>Any\<close> codec returns the message that was packed.
\<close>

theorem error_status_roundtrip:
  assumes codec: "\<And>d. unpack (pack d) = Some d"
    and listed: "err_code e \<in> set listed_codes"
  shows "\<exists>s. toGrpcStatus pack e = Inr s \<and> \<not> status_ok s \<and> toError unpack s = Inr e"
proof -
  from toString_listed [OF listed] obtain w where "toString (err_code e) = Inr w" by blast
  then show ?thesis
    by (simp add: toGrpcStatus_def toError_def status_ok_def toGrpcStatusCode_not_ok codec
          Error_of_details_def details_of_Error_def code_of_number_listed [OF listed])
qed

theorem error_status_roundtrip_witness:
  "\<exists>s. toGrpcStatus enc_details (mk_Error VersionMismatch ''stale'') = Inr s \<and> \<not> status_ok s \<and>
     toError (whole dec_details) s = Inr (mk_Error VersionMismatch ''stale'')"
  by (rule error_status_roundtrip)
    (simp_all add: whole_roundtrip codec_details mk_Error_def listed_codes_def)

text \<open>
  A status without details keeps the retry decision of the sender for every code that
  has a status code of its own: the coarser code read back is retriable exactly when the
  original was.
\<close>

theorem fallback_keeps_retriability:
  assumes "c \<in> set listed_codes - {OK, Maybe, Internal}"
  shows "isRetriable op (fallback_code (toGrpcStatusCode c)) = isRetriable op c"
  using assms by (cases c) (auto simp: isRetriable_cases listed_codes_def)

theorem fallback_keeps_retriability_witness:
  "isRetriable ''erase'' (fallback_code (toGrpcStatusCode AllServicesUnavailable)) \<and>
   isRetriable ''erase'' AllServicesUnavailable"
  using fallback_keeps_retriability [of AllServicesUnavailable "''erase''"]
  by (simp add: isRetriable_cases listed_codes_def)

end
