(* ===== verification/Uuid.thy ===== *)
theory Uuid
  imports Prelude
begin

text \<open>
  \<open>src/common/Util.cpp\<close>: request identifiers (UUID version 7) and random alphanumeric
  strings. The clock reading and the draws of the random distribution are arguments: the
  \<open>n\<close>-th draw is \<open>rnd n\<close>. A \<open>std::array<uint8_t, 16>\<close> is a list of 16 bytes.
\<close>

unbundle bit_operations_syntax

type_synonym uuid = "u8 list"

section \<open>Definitions\<close>

definition zero_uuid :: uuid where
  "zero_uuid = replicate 16 0"

definition timestamp_byte :: "u64 \<Rightarrow> nat \<Rightarrow> u8" where
  "timestamp_byte ts k = ucast (drop_bit k ts AND 0xFF)"

definition generate_uuid_v7 :: "u64 \<Rightarrow> (nat \<Rightarrow> u8) \<Rightarrow> uuid" where
  "generate_uuid_v7 timestamp rnd =
     (let u0 = map (timestamp_byte timestamp) [40, 32, 24, 16, 8, 0] @ map rnd [6..<16];
          u1 = u0[6 := ((u0 ! 6) AND 0x0F) OR 0x70]
      in u1[8 := ((u1 ! 8) AND 0x3F) OR 0x80])"

definition uuid_v7_to_string :: "uuid \<Rightarrow> string" where
  "uuid_v7_to_string u = map (\<lambda>b. char_of (unat b)) u"

definition string_to_uuid_v7 :: "string \<Rightarrow> uuid" where
  "string_to_uuid_v7 s = (if length s = 16 then map (\<lambda>c. of_char c) s else zero_uuid)"

definition alnum_chars :: string where
  "alnum_chars = ''0123456789ABCDEFGHIJKLMNOPQRSTUVWXYZabcdefghijklmnopqrstuvwxyz''"

text \<open>The draws come from \<open>uniform_int_distribution{0, strlen(chars) - 1}\<close>.\<close>

definition zdb_generate_random_alphanumeric_string :: "nat \<Rightarrow> (nat \<Rightarrow> nat) \<Rightarrow> string" where
  "zdb_generate_random_alphanumeric_string len dist = map (\<lambda>i. alnum_chars ! dist i) [0..<len]"

text \<open>The number a big-endian byte string denotes.\<close>

definition be_value :: "u8 list \<Rightarrow> nat" where
  "be_value bs = foldl (\<lambda>a b. a * 256 + unat b) 0 bs"

section \<open>Layout of a generated identifier\<close>

lemma generate_uuid_v7_length [simp]: "length (generate_uuid_v7 ts rnd) = 16"
  by (simp add: generate_uuid_v7_def Let_def)

lemma unat_timestamp_byte: "unat (timestamp_byte ts k) = unat ts div 2 ^ k mod 256"
proof -
  have shift: "unat (drop_bit k ts) = unat ts div 2 ^ k"
    by (metis drop_bit_eq_div take_bit_nat_eq_self unsigned_drop_bit_eq unsigned_less)
  have "drop_bit k ts AND 0xFF = take_bit 8 (drop_bit k ts)"
    by (simp add: take_bit_eq_mask mask_eq_exp_minus_1)
  then have "unat (timestamp_byte ts k) = take_bit 8 (unat (drop_bit k ts))"
    by (simp add: timestamp_byte_def unsigned_ucast_eq unsigned_take_bit_eq)
  with shift show ?thesis
    by (simp add: take_bit_eq_mod)
qed

lemma digit_step: "(n div k mod 256) * k + n mod k = n mod (k * 256)" for n k :: nat
  by (simp add: mod_mult2_eq algebra_simps)

lemma take6_generate:
  "take 6 (generate_uuid_v7 ts rnd) = map (timestamp_byte ts) [40, 32, 24, 16, 8, 0]"
  by (simp add: generate_uuid_v7_def Let_def)

lemma generate_uuid_v7_nth:
  assumes "6 \<le> i" and "i < 16"
  shows "generate_uuid_v7 ts rnd ! i =
    (if i = 6 then (rnd 6 AND 0x0F) OR 0x70 else if i = 8 then (rnd 8 AND 0x3F) OR 0x80 else rnd i)"
proof -
  from assms have "i \<in> {6, 7, 8, 9, 10, 11, 12, 13, 14, 15}"
    unfolding insert_iff empty_iff by presburger
  then show ?thesis by (auto simp: generate_uuid_v7_def Let_def)
qed

lemma be_value_timestamp: "be_value (take 6 (generate_uuid_v7 ts rnd)) = unat ts mod 2 ^ 48"
proof -
  let ?n = "unat ts"
  have d: "?n div 2 ^ k mod 256 * 2 ^ k + ?n mod 2 ^ k = ?n mod 2 ^ (k + 8)" for k
    using digit_step [of ?n "2 ^ k"] by (simp add: power_add)
  have "be_value (take 6 (generate_uuid_v7 ts rnd)) =
      (?n div 2 ^ 40 mod 256) * 2 ^ 40 + ((?n div 2 ^ 32 mod 256) * 2 ^ 32 +
      ((?n div 2 ^ 24 mod 256) * 2 ^ 24 + ((?n div 2 ^ 16 mod 256) * 2 ^ 16 +
      ((?n div 2 ^ 8 mod 256) * 2 ^ 8 + ?n mod 2 ^ 8))))"
    by (simp add: take6_generate be_value_def unat_timestamp_byte)
  also have "\<dots> = ?n mod 2 ^ 48"
    using d [of 8] d [of 16] d [of 24] d [of 32] d [of 40] by simp
  finally show ?thesis .
qed

lemma version_bits:
  "drop_bit 4 ((x AND 0x0F) OR 0x70 :: u8) = 7" "((x AND 0x0F) OR 0x70 :: u8) AND 0x0F = x AND 0x0F"
proof -
  show "drop_bit 4 ((x AND 0x0F) OR 0x70 :: u8) = 7"
    by (rule bit_word_eqI) (auto simp: bit_simps bit_numeral_rec)
  show "((x AND 0x0F) OR 0x70 :: u8) AND 0x0F = x AND 0x0F"
    by (simp add: bit.conj_disj_distrib2 and.assoc)
qed

lemma variant_bits:
  "drop_bit 6 ((x AND 0x3F) OR 0x80 :: u8) = 2" "((x AND 0x3F) OR 0x80 :: u8) AND 0x3F = x AND 0x3F"
proof -
  show "drop_bit 6 ((x AND 0x3F) OR 0x80 :: u8) = 2"
    by (rule bit_word_eqI) (auto simp: bit_simps bit_numeral_rec)
  show "((x AND 0x3F) OR 0x80 :: u8) AND 0x3F = x AND 0x3F"
    by (simp add: bit.conj_disj_distrib2 and.assoc)
qed

lemma of_char_char_of_byte: "of_char (char_of (unat b)) = (b :: u8)"
proof -
  have "(of_char (char_of (unat b)) :: u8) = of_nat (of_char (char_of (unat b)))"
    by (simp only: of_nat_of_char)
  also have "\<dots> = of_nat (unat b mod 256)"
    by (simp only: of_char_of)
  also have "\<dots> = b"
    using unsigned_less [of b, where ?'a = nat] by simp
  finally show ?thesis .
qed

lemma uuid_string_roundtrip_aux:
  "string_to_uuid_v7 (uuid_v7_to_string u) = (if length u = 16 then u else zero_uuid)"
  by (simp add: string_to_uuid_v7_def uuid_v7_to_string_def comp_def of_char_char_of_byte)

section \<open>Properties\<close>

text \<open>
  A generated request identifier has 16 bytes. The first six are the low 48 bits of the
  millisecond clock, most significant byte first, so identifiers of different milliseconds are
  ordered by time; the version nibble is 7, the variant bits are binary 10, all other bits are
  the random ones; and the identifier survives its conversion to a string and back.
\<close>

theorem uuid_layout:
  "length (generate_uuid_v7 ts rnd) = 16
   \<and> be_value (take 6 (generate_uuid_v7 ts rnd)) = unat ts mod 2 ^ 48
   \<and> drop_bit 4 (generate_uuid_v7 ts rnd ! 6) = 7
   \<and> generate_uuid_v7 ts rnd ! 6 AND 0x0F = rnd 6 AND 0x0F
   \<and> drop_bit 6 (generate_uuid_v7 ts rnd ! 8) = 2
   \<and> generate_uuid_v7 ts rnd ! 8 AND 0x3F = rnd 8 AND 0x3F
   \<and> generate_uuid_v7 ts rnd ! 7 = rnd 7
   \<and> drop 9 (generate_uuid_v7 ts rnd) = map rnd [9..<16]
   \<and> string_to_uuid_v7 (uuid_v7_to_string (generate_uuid_v7 ts rnd)) = generate_uuid_v7 ts rnd"
proof -
  have "drop 9 (generate_uuid_v7 ts rnd) = map rnd [9..<16]"
    by (simp add: generate_uuid_v7_def Let_def)
  then show ?thesis
    by (simp add: be_value_timestamp generate_uuid_v7_nth version_bits variant_bits
        uuid_string_roundtrip_aux)
qed

end
