(* ===== verification/KvTypes.thy ===== *)
theory KvTypes
  imports Errors Uuid
begin

text \<open>
  \<open>src/include/common/Types.hpp\<close> and \<open>src/common/Types.cpp\<close>: keys, versioned values, and
  the result \<open>State\<close> a state machine returns for a command, with its conversion to the
  protocol message \<open>kvStore::State\<close> and back. \<open>parse\<close> stands for the message's
  \<open>ParseFromString\<close>.
\<close>

section \<open>Keys and values\<close>

record kv_key =
  key_data :: string

record kv_value =
  val_data :: string
  val_version :: u64

definition mk_key :: "string \<Rightarrow> kv_key" where
  "mk_key d = \<lparr>key_data = d\<rparr>"

definition mk_value :: "string \<Rightarrow> u64 \<Rightarrow> kv_value" where
  "mk_value d v = \<lparr>val_data = d, val_version = v\<rparr>"

text \<open>The messages \<open>proto::Key\<close> and \<open>proto::Value\<close>.\<close>

record pb_key =
  pk_data :: string

record pb_value =
  pv_data :: string
  pv_version :: u64

definition Key_of_proto :: "pb_key \<Rightarrow> kv_key" where
  "Key_of_proto p = \<lparr>key_data = pk_data p\<rparr>"

definition Value_of_proto :: "pb_value \<Rightarrow> kv_value" where
  "Value_of_proto p = \<lparr>val_data = pv_data p, val_version = pv_version p\<rparr>"

definition Key_eq :: "kv_key \<Rightarrow> kv_key \<Rightarrow> bool" where
  "Key_eq a b \<longleftrightarrow> key_data a = key_data b"

definition Value_eq :: "kv_value \<Rightarrow> kv_value \<Rightarrow> bool" where
  "Value_eq a b \<longleftrightarrow> val_data a = val_data b \<and> val_version a = val_version b"

lemma Key_eq_iff [simp]: "Key_eq a b \<longleftrightarrow> a = b"
  by (cases a; cases b) (simp add: Key_eq_def)

lemma Value_eq_iff [simp]: "Value_eq a b \<longleftrightarrow> a = b"
  by (cases a; cases b) (simp add: Value_eq_def)

section \<open>The result of a command\<close>

text \<open>The alternatives of the variant \<open>u\<close>.\<close>

datatype state_u =
    UError Error
  | UValue "kv_value option"
  | UMonostate
  | USize u64

record kv_state =
  st_key :: "kv_key option"
  st_u :: state_u

definition State_value :: "kv_key \<Rightarrow> Error + kv_value option \<Rightarrow> kv_state" where
  "State_value k v = \<lparr>st_key = Some k, st_u = (case v of Inr x \<Rightarrow> UValue x | Inl e \<Rightarrow> UError e)\<rparr>"

definition State_mono :: "kv_key \<Rightarrow> Error + unit \<Rightarrow> kv_state" where
  "State_mono k v = \<lparr>st_key = Some k, st_u = (case v of Inr _ \<Rightarrow> UMonostate | Inl e \<Rightarrow> UError e)\<rparr>"

definition State_size :: "u64 \<Rightarrow> kv_state" where
  "State_size n = \<lparr>st_key = None, st_u = USize n\<rparr>"

definition State_error :: "Error \<Rightarrow> kv_state" where
  "State_error e = \<lparr>st_key = None, st_u = UError e\<rparr>"

definition State_string :: "string \<Rightarrow> kv_state" where
  "State_string s = \<lparr>st_key = None, st_u = UValue (Some \<lparr>val_data = s, val_version = 0\<rparr>)\<rparr>"

text \<open>The message \<open>kvStore::State\<close>; its \<open>oneof result\<close> may be unset.\<close>

datatype pb_result =
    PbUnset
  | PbValue pb_value
  | PbSize u64
  | PbError ErrorDetails

record pb_state =
  ps_key :: "pb_key option"
  ps_result :: pb_result

definition state_toProto :: "kv_state \<Rightarrow> pb_state" where
  "state_toProto s =
     \<lparr>ps_key = map_option (\<lambda>k. \<lparr>pk_data = key_data k\<rparr>) (st_key s),
      ps_result = (case st_u s of
          UError e \<Rightarrow> PbError (details_of_Error e)
        | UValue (Some v) \<Rightarrow> PbValue \<lparr>pv_data = val_data v, pv_version = val_version v\<rparr>
        | UValue None \<Rightarrow> PbUnset
        | USize n \<Rightarrow> PbSize n
        | UMonostate \<Rightarrow> PbUnset)\<rparr>"

text \<open>\<open>None\<close> is the null pointer.\<close>

definition state_fromString :: "(string \<Rightarrow> pb_state option) \<Rightarrow> string \<Rightarrow> kv_state option" where
  "state_fromString parse s =
     (case parse s of
        None \<Rightarrow> None
      | Some p \<Rightarrow> (case ps_result p of
            PbError d \<Rightarrow> Some (State_error (Error_of_details d))
          | PbSize n \<Rightarrow> Some (State_size n)
          | PbUnset \<Rightarrow> None
          | PbValue v \<Rightarrow> Some (State_string (pv_data v))))"

section \<open>What a state keeps across the wire\<close>

lemma details_wire:
  "Error_of_details (details_of_Error e) = e\<lparr>err_code := code_of_number (code_number (err_code e))\<rparr>"
  by (cases e) (simp add: Error_of_details_def details_of_Error_def)

text \<open>
  Reading back a serialised state returns errors (with an enumerated code) and sizes as
  they were, without the key. A present value comes back with version 0 whatever its version
  was, and a state that holds no value (an absent key, or the answer to a set) comes back as
  a null pointer.
\<close>

theorem state_wire:
  assumes parsed: "parse s = Some (state_toProto st)"
  shows "state_fromString parse s =
    (case st_u st of
       UError e \<Rightarrow> Some (State_error (e\<lparr>err_code := code_of_number (code_number (err_code e))\<rparr>))
     | USize n \<Rightarrow> Some (State_size n)
     | UValue (Some v) \<Rightarrow> Some (State_string (val_data v))
     | UValue None \<Rightarrow> None
     | UMonostate \<Rightarrow> None)"
  using parsed
  by (auto simp: state_fromString_def state_toProto_def details_wire split: state_u.splits option.splits)

theorem state_wire_witness:
  "state_fromString (\<lambda>_. Some (state_toProto (State_value (mk_key ''k'') (Inr (Some (mk_value ''v'' 7))))))
     ''bytes'' = Some (State_string ''v'')"
  using state_wire [of "\<lambda>_. Some (state_toProto (State_value (mk_key ''k'') (Inr (Some (mk_value ''v'' 7)))))"
      "''bytes''" "State_value (mk_key ''k'') (Inr (Some (mk_value ''v'' 7)))"]
  by (simp add: State_value_def mk_value_def)

end
