(* ===== verification/Commands.thy ===== *)
theory Commands
  imports KvTypes
begin

text \<open>
  \<open>src/include/raft/Command.hpp\<close>, \<open>src/common/Command.cpp\<close>: the commands of the
  replicated log, their serialisation to the message \<open>proto::Command\<close>, the factory that
  reads them back, and their equality. The subclasses of \<open>raft::Command\<close> are the
  constructors of \<open>command\<close>; the fields of the base class are the record \<open>cmd_hdr\<close>.
  \<open>ser\<close> and \<open>parse\<close> stand for \<open>SerializeToString\<close> and \<open>ParseFromString\<close> of the
  generated message class; both can fail.
\<close>

section \<open>Data\<close>

record cmd_hdr =
  hdr_uuid :: uuid
  hdr_term :: u64
  hdr_index :: u64

datatype command =
    CGet cmd_hdr kv_key
  | CSet cmd_hdr kv_key kv_value
  | CErase cmd_hdr kv_key
  | CSize cmd_hdr
  | CTest cmd_hdr string
  | CRms cmd_hdr string
  | CNoOp cmd_hdr
  | CInstallSnapshot cmd_hdr u64 u64 string

fun cmd_header :: "command \<Rightarrow> cmd_hdr" where
  "cmd_header (CGet h k) = h"
| "cmd_header (CSet h k v) = h"
| "cmd_header (CErase h k) = h"
| "cmd_header (CSize h) = h"
| "cmd_header (CTest h d) = h"
| "cmd_header (CRms h d) = h"
| "cmd_header (CNoOp h) = h"
| "cmd_header (CInstallSnapshot h i t d) = h"

fun with_header :: "cmd_hdr \<Rightarrow> command \<Rightarrow> command" where
  "with_header h (CGet _ k) = CGet h k"
| "with_header h (CSet _ k v) = CSet h k v"
| "with_header h (CErase _ k) = CErase h k"
| "with_header h (CSize _) = CSize h"
| "with_header h (CTest _ d) = CTest h d"
| "with_header h (CRms _ d) = CRms h d"
| "with_header h (CNoOp _) = CNoOp h"
| "with_header h (CInstallSnapshot _ i t d) = CInstallSnapshot h i t d"

definition getUUID :: "command \<Rightarrow> uuid" where
  "getUUID c = hdr_uuid (cmd_header c)"

text \<open>A command as its constructor leaves it: term and index are still 0.\<close>

definition fresh_hdr :: "uuid \<Rightarrow> cmd_hdr" where
  "fresh_hdr u = \<lparr>hdr_uuid = u, hdr_term = 0, hdr_index = 0\<rparr>"

text \<open>The message \<open>proto::Command\<close>, its sub-messages flattened (an unset one reads as default).\<close>

record pb_command =
  pc_op :: string
  pc_key :: pb_key
  pc_value :: pb_value
  pc_uuid :: string
  pc_index :: u64

definition empty_pb_command :: pb_command where
  "empty_pb_command = \<lparr>pc_op = '''', pc_key = \<lparr>pk_data = ''''\<rparr>,
     pc_value = \<lparr>pv_data = '''', pv_version = 0\<rparr>, pc_uuid = '''', pc_index = 0\<rparr>"

text \<open>The header a message gives: the term is not part of the message.\<close>

definition hdr_of_proto :: "pb_command \<Rightarrow> cmd_hdr" where
  "hdr_of_proto m = \<lparr>hdr_uuid = string_to_uuid_v7 (pc_uuid m), hdr_term = 0, hdr_index = pc_index m\<rparr>"

section \<open>Get\<close>

definition Get_new :: "uuid \<Rightarrow> kv_key \<Rightarrow> command" where
  "Get_new u k = CGet (fresh_hdr u) k"

definition Get_of_proto :: "pb_command \<Rightarrow> command" where
  "Get_of_proto m = CGet (hdr_of_proto m) (Key_of_proto (pc_key m))"

definition Get_message :: "cmd_hdr \<Rightarrow> kv_key \<Rightarrow> pb_command" where
  "Get_message h k = empty_pb_command\<lparr>pc_op := ''g'', pc_key := \<lparr>pk_data = key_data k\<rparr>,
     pc_uuid := uuid_v7_to_string (hdr_uuid h), pc_index := hdr_index h\<rparr>"

definition Get_eq :: "kv_key \<Rightarrow> command \<Rightarrow> bool" where
  "Get_eq k c = (case c of CGet _ k' \<Rightarrow> Key_eq k k' | _ \<Rightarrow> False)"

section \<open>Set\<close>

definition Set_new :: "uuid \<Rightarrow> kv_key \<Rightarrow> kv_value \<Rightarrow> command" where
  "Set_new u k v = CSet (fresh_hdr u) k v"

definition Set_of_proto :: "pb_command \<Rightarrow> command" where
  "Set_of_proto m = CSet (hdr_of_proto m) (Key_of_proto (pc_key m)) (Value_of_proto (pc_value m))"

definition Set_message :: "cmd_hdr \<Rightarrow> kv_key \<Rightarrow> kv_value \<Rightarrow> pb_command" where
  "Set_message h k v = empty_pb_command\<lparr>pc_op := ''s'', pc_key := \<lparr>pk_data = key_data k\<rparr>,
     pc_value := \<lparr>pv_data = val_data v, pv_version = val_version v\<rparr>,
     pc_uuid := uuid_v7_to_string (hdr_uuid h), pc_index := hdr_index h\<rparr>"

definition Set_eq :: "kv_key \<Rightarrow> kv_value \<Rightarrow> command \<Rightarrow> bool" where
  "Set_eq k v c = (case c of CSet _ k' v' \<Rightarrow> Key_eq k k' \<and> Value_eq v v' | _ \<Rightarrow> False)"

section \<open>Erase\<close>

definition Erase_new :: "uuid \<Rightarrow> kv_key \<Rightarrow> command" where
  "Erase_new u k = CErase (fresh_hdr u) k"

definition Erase_of_proto :: "pb_command \<Rightarrow> command" where
  "Erase_of_proto m = CErase (hdr_of_proto m) (Key_of_proto (pc_key m))"

definition Erase_message :: "cmd_hdr \<Rightarrow> kv_key \<Rightarrow> pb_command" where
  "Erase_message h k = empty_pb_command\<lparr>pc_op := ''e'', pc_key := \<lparr>pk_data = key_data k\<rparr>,
     pc_uuid := uuid_v7_to_string (hdr_uuid h), pc_index := hdr_index h\<rparr>"

definition Erase_eq :: "kv_key \<Rightarrow> command \<Rightarrow> bool" where
  "Erase_eq k c = (case c of CErase _ k' \<Rightarrow> Key_eq k k' | _ \<Rightarrow> False)"

section \<open>Size\<close>

definition Size_new :: "uuid \<Rightarrow> command" where
  "Size_new u = CSize (fresh_hdr u)"

definition Size_of_proto :: "pb_command \<Rightarrow> command" where
  "Size_of_proto m = CSize (hdr_of_proto m)"

definition Size_message :: "cmd_hdr \<Rightarrow> pb_command" where
  "Size_message h = empty_pb_command\<lparr>pc_op := ''z'',
     pc_uuid := uuid_v7_to_string (hdr_uuid h), pc_index := hdr_index h\<rparr>"

definition Size_eq :: "command \<Rightarrow> bool" where
  "Size_eq c = (case c of CSize _ \<Rightarrow> True | _ \<Rightarrow> False)"

section \<open>TestCommand\<close>

definition TestCommand_new :: "uuid \<Rightarrow> string \<Rightarrow> command" where
  "TestCommand_new u d = CTest (fresh_hdr u) d"

definition TestCommand_of_proto :: "pb_command \<Rightarrow> command" where
  "TestCommand_of_proto m = CTest (hdr_of_proto m) (pk_data (pc_key m))"

definition TestCommand_message :: "cmd_hdr \<Rightarrow> string \<Rightarrow> pb_command" where
  "TestCommand_message h d = empty_pb_command\<lparr>pc_op := ''t'', pc_key := \<lparr>pk_data = d\<rparr>,
     pc_index := hdr_index h, pc_uuid := uuid_v7_to_string (hdr_uuid h)\<rparr>"

definition TestCommand_eq :: "string \<Rightarrow> command \<Rightarrow> bool" where
  "TestCommand_eq d c = (case c of CTest _ d' \<Rightarrow> d = d' | _ \<Rightarrow> False)"

section \<open>RmsCommand\<close>

definition RmsCommand_new :: "uuid \<Rightarrow> string \<Rightarrow> command" where
  "RmsCommand_new u d = CRms (fresh_hdr u) d"

definition RmsCommand_of_proto :: "pb_command \<Rightarrow> command" where
  "RmsCommand_of_proto m = CRms (hdr_of_proto m) (pv_data (pc_value m))"

definition RmsCommand_message :: "cmd_hdr \<Rightarrow> string \<Rightarrow> pb_command" where
  "RmsCommand_message h d = empty_pb_command\<lparr>pc_op := ''r'', pc_value := \<lparr>pv_data = d, pv_version = 0\<rparr>,
     pc_index := hdr_index h, pc_uuid := uuid_v7_to_string (hdr_uuid h)\<rparr>"

definition RmsCommand_eq :: "string \<Rightarrow> command \<Rightarrow> bool" where
  "RmsCommand_eq d c = (case c of CRms _ d' \<Rightarrow> d = d' | _ \<Rightarrow> False)"

section \<open>NoOp\<close>

definition NoOp_new :: "uuid \<Rightarrow> command" where
  "NoOp_new u = CNoOp (fresh_hdr u)"

definition NoOp_of_proto :: "pb_command \<Rightarrow> command" where
  "NoOp_of_proto m = CNoOp (hdr_of_proto m)"

definition NoOp_message :: "cmd_hdr \<Rightarrow> pb_command" where
  "NoOp_message h = empty_pb_command\<lparr>pc_op := ''n'', pc_index := hdr_index h,
     pc_uuid := uuid_v7_to_string (hdr_uuid h)\<rparr>"

definition NoOp_eq :: "command \<Rightarrow> bool" where
  "NoOp_eq c = (case c of CNoOp _ \<Rightarrow> True | _ \<Rightarrow> False)"

section \<open>InstallSnapshotCommand\<close>

definition InstallSnapshotCommand_new :: "uuid \<Rightarrow> u64 \<Rightarrow> u64 \<Rightarrow> string \<Rightarrow> command" where
  "InstallSnapshotCommand_new u lii lit d = CInstallSnapshot (fresh_hdr u) lii lit d"

definition InstallSnapshotCommand_of_proto :: "pb_command \<Rightarrow> command" where
  "InstallSnapshotCommand_of_proto m =
     CInstallSnapshot (hdr_of_proto m) (pc_index m) (pv_version (pc_value m)) (pv_data (pc_value m))"

definition InstallSnapshotCommand_message :: "cmd_hdr \<Rightarrow> u64 \<Rightarrow> u64 \<Rightarrow> string \<Rightarrow> pb_command" where
  "InstallSnapshotCommand_message h lii lit d = empty_pb_command\<lparr>pc_op := ''i'', pc_index := lii,
     pc_value := \<lparr>pv_data = d, pv_version = lit\<rparr>, pc_uuid := uuid_v7_to_string (hdr_uuid h)\<rparr>"

definition InstallSnapshotCommand_eq :: "u64 \<Rightarrow> u64 \<Rightarrow> string \<Rightarrow> command \<Rightarrow> bool" where
  "InstallSnapshotCommand_eq lii lit d c =
     (case c of CInstallSnapshot _ lii' lit' d' \<Rightarrow> lii = lii' \<and> lit = lit' \<and> d = d' | _ \<Rightarrow> False)"

section \<open>Dispatch\<close>

text \<open>The message a command is serialised from, and the virtual \<open>serialize\<close>.\<close>

fun command_message :: "command \<Rightarrow> pb_command" where
  "command_message (CGet h k) = Get_message h k"
| "command_message (CSet h k v) = Set_message h k v"
| "command_message (CErase h k) = Erase_message h k"
| "command_message (CSize h) = Size_message h"
| "command_message (CTest h d) = TestCommand_message h d"
| "command_message (CRms h d) = RmsCommand_message h d"
| "command_message (CNoOp h) = NoOp_message h"
| "command_message (CInstallSnapshot h lii lit d) = InstallSnapshotCommand_message h lii lit d"

fun command_name :: "command \<Rightarrow> string" where
  "command_name (CGet h k) = ''Get''"
| "command_name (CSet h k v) = ''Set''"
| "command_name (CErase h k) = ''Erase''"
| "command_name (CSize h) = ''Size''"
| "command_name (CTest h d) = ''TestCommand''"
| "command_name (CRms h d) = ''RmsCommand''"
| "command_name (CNoOp h) = ''NoOp''"
| "command_name (CInstallSnapshot h lii lit d) = ''InstallSnapshotCommand''"

definition serialize :: "(pb_command \<Rightarrow> string option) \<Rightarrow> command \<Rightarrow> string outcome" where
  "serialize ser c =
     (case ser (command_message c) of
        Some s \<Rightarrow> Inr s
      | None \<Rightarrow> Inl (RuntimeError (''failed to serialize '' @ command_name c @ '' command'')))"

definition command_of_message :: "pb_command \<Rightarrow> command outcome" where
  "command_of_message m =
     (if pc_op m = ''g'' then Inr (Get_of_proto m)
      else if pc_op m = ''s'' then Inr (Set_of_proto m)
      else if pc_op m = ''e'' then Inr (Erase_of_proto m)
      else if pc_op m = ''z'' then Inr (Size_of_proto m)
      else if pc_op m = ''t'' then Inr (TestCommand_of_proto m)
      else if pc_op m = ''n'' then Inr (NoOp_of_proto m)
      else if pc_op m = ''i'' then Inr (InstallSnapshotCommand_of_proto m)
      else if pc_op m = ''r'' then Inr (RmsCommand_of_proto m)
      else Inl (InvalidArgument ''commandFactory: unknown command''))"

definition commandFactory :: "(string \<Rightarrow> pb_command option) \<Rightarrow> string \<Rightarrow> command outcome" where
  "commandFactory parse s =
     (case parse s of
        None \<Rightarrow> Inl (InvalidArgument ''commandFactory: deserialization failed'')
      | Some m \<Rightarrow> command_of_message m)"

text \<open>The virtual \<open>operator==\<close>: neither identifier nor term nor index is compared.\<close>

fun command_eq :: "command \<Rightarrow> command \<Rightarrow> bool" where
  "command_eq (CGet _ k) c = Get_eq k c"
| "command_eq (CSet _ k v) c = Set_eq k v c"
| "command_eq (CErase _ k) c = Erase_eq k c"
| "command_eq (CSize _) c = Size_eq c"
| "command_eq (CTest _ d) c = TestCommand_eq d c"
| "command_eq (CRms _ d) c = RmsCommand_eq d c"
| "command_eq (CNoOp _) c = NoOp_eq c"
| "command_eq (CInstallSnapshot _ i t d) c = InstallSnapshotCommand_eq i t d c"

section \<open>Facts\<close>

lemmas message_defs = Get_message_def Set_message_def Erase_message_def Size_message_def
  TestCommand_message_def RmsCommand_message_def NoOp_message_def InstallSnapshotCommand_message_def
  empty_pb_command_def

lemmas of_proto_defs = Get_of_proto_def Set_of_proto_def Erase_of_proto_def Size_of_proto_def
  TestCommand_of_proto_def RmsCommand_of_proto_def NoOp_of_proto_def
  InstallSnapshotCommand_of_proto_def hdr_of_proto_def Key_of_proto_def Value_of_proto_def

lemmas eq_defs = Get_eq_def Set_eq_def Erase_eq_def Size_eq_def TestCommand_eq_def RmsCommand_eq_def
  NoOp_eq_def InstallSnapshotCommand_eq_def

lemma command_eq_iff: "command_eq a b \<longleftrightarrow> with_header h a = with_header h b"
  by (cases a; cases b) (auto simp: eq_defs)

lemma command_eq_refl [simp]: "command_eq c c"
  by (simp add: command_eq_iff [where h = "fresh_hdr []"])

lemma command_eq_sym: "command_eq a b \<Longrightarrow> command_eq b a"
  by (simp add: command_eq_iff [where h = "fresh_hdr []"])

lemma command_eq_trans: "command_eq a b \<Longrightarrow> command_eq b c \<Longrightarrow> command_eq a c"
  by (simp add: command_eq_iff [where h = "fresh_hdr []"])

text \<open>What the message keeps of the header: the identifier and, but for a snapshot, the index.\<close>

fun wire_header :: "command \<Rightarrow> cmd_hdr" where
  "wire_header (CInstallSnapshot h lii lit d) = \<lparr>hdr_uuid = hdr_uuid h, hdr_term = 0, hdr_index = lii\<rparr>"
| "wire_header c = \<lparr>hdr_uuid = hdr_uuid (cmd_header c), hdr_term = 0, hdr_index = hdr_index (cmd_header c)\<rparr>"

lemma command_message_roundtrip:
  assumes "length (getUUID c) = 16"
  shows "command_of_message (command_message c) = Inr (with_header (wire_header c) c)"
  using assms
  by (cases c) (simp_all add: command_of_message_def message_defs of_proto_defs getUUID_def
      uuid_string_roundtrip_aux)

text \<open>A codec for the message, for the witnesses.\<close>

definition enc_command :: "pb_command \<Rightarrow> string" where
  "enc_command = enc_via (\<lambda>m. (pc_op m, pk_data (pc_key m), pv_data (pc_value m),
       pv_version (pc_value m), pc_uuid m, pc_index m))
     (enc_pair enc_string (enc_pair enc_string (enc_pair enc_string
       (enc_pair enc_u64 (enc_pair enc_string enc_u64)))))"

definition dec_command :: "string \<Rightarrow> (pb_command \<times> string) option" where
  "dec_command = dec_via (\<lambda>(op, k, d, v, u, i). \<lparr>pc_op = op, pc_key = \<lparr>pk_data = k\<rparr>,
       pc_value = \<lparr>pv_data = d, pv_version = v\<rparr>, pc_uuid = u, pc_index = i\<rparr>)
     (dec_pair dec_string (dec_pair dec_string (dec_pair dec_string
       (dec_pair dec_u64 (dec_pair dec_string dec_u64)))))"

lemma codec_command: "codec enc_command dec_command"
  unfolding enc_command_def dec_command_def by (rule codec_via) (simp_all add: codecs)

text \<open>
  The factory reads back every kind of command from its own serialisation: the same
  payload and the same request identifier; the term is not transmitted, and a snapshot
  command gets its last included index as index.
\<close>

theorem commandFactory_serialize:
  assumes uuid: "length (getUUID c) = 16"
    and sent: "serialize ser c = Inr s"
    and wire: "parse s = Some (command_message c)"
  shows "commandFactory parse s = Inr (with_header (wire_header c) c)
    \<and> command_eq c (with_header (wire_header c) c)
    \<and> getUUID (with_header (wire_header c) c) = getUUID c"
proof (intro conjI)
  show "commandFactory parse s = Inr (with_header (wire_header c) c)"
    using uuid wire by (simp add: commandFactory_def command_message_roundtrip)
  show "command_eq c (with_header (wire_header c) c)"
    by (cases c) (simp_all add: eq_defs)
  show "getUUID (with_header (wire_header c) c) = getUUID c"
    by (cases c) (simp_all add: getUUID_def)
qed

theorem commandFactory_serialize_witness:
  "\<exists>s. serialize (\<lambda>m. Some (enc_command m)) (Set_new zero_uuid (mk_key ''k'') (mk_value ''v'' 3)) = Inr s \<and>
     commandFactory (whole dec_command) s = Inr (Set_new zero_uuid (mk_key ''k'') (mk_value ''v'' 3))"
proof -
  let ?c = "Set_new zero_uuid (mk_key ''k'') (mk_value ''v'' 3)"
  let ?s = "enc_command (command_message ?c)"
  have u: "length (getUUID ?c) = 16" by (simp add: getUUID_def Set_new_def fresh_hdr_def zero_uuid_def)
  have w: "whole dec_command ?s = Some (command_message ?c)"
    by (rule whole_roundtrip [OF codec_command])
  have s: "serialize (\<lambda>m. Some (enc_command m)) ?c = Inr ?s" by (simp add: serialize_def)
  from commandFactory_serialize [where parse = "whole dec_command", OF u s w] s show ?thesis
    by (auto simp: Set_new_def fresh_hdr_def)
qed

end
