(* ===== verification/RaftLog.thy ===== *)
theory RaftLog
  imports Commands
begin

text \<open>
  \<open>src/include/raft/Log.hpp\<close>, \<open>src/raft/Log.cpp\<close>: the replicated log with its
  compaction point. The class locks its own mutex in every operation, so each operation is
  one atomic step. An iterator into \<open>entries\<close> is a position. The copy operations of the
  code go through the constructor \<open>Log(std::vector)\<close>, which leaves the compaction point
  at 0.
\<close>

section \<open>Data\<close>

record log_entry =
  le_index :: u64
  le_term :: u64
  le_command :: command

definition entry_eq :: "log_entry \<Rightarrow> log_entry \<Rightarrow> bool" where
  "entry_eq a b \<longleftrightarrow> le_index a = le_index b \<and> le_term a = le_term b \<and>
     command_eq (le_command a) (le_command b)"

record raft_log =
  log_lastIncludedIndex :: u64
  log_lastIncludedTerm :: u64
  log_entries :: "log_entry list"

definition log_new :: raft_log where
  "log_new = \<lparr>log_lastIncludedIndex = 0, log_lastIncludedTerm = 0, log_entries = []\<rparr>"

definition log_of :: "log_entry list \<Rightarrow> raft_log" where
  "log_of es = \<lparr>log_lastIncludedIndex = 0, log_lastIncludedTerm = 0, log_entries = es\<rparr>"

section \<open>Operations\<close>

definition log_append :: "raft_log \<Rightarrow> log_entry \<Rightarrow> raft_log" where
  "log_append l e = l\<lparr>log_entries := log_entries l @ [e]\<rparr>"

definition log_atIter :: "log_entry list \<Rightarrow> u64 \<Rightarrow> nat option" where
  "log_atIter es i = first_pos (\<lambda>e. le_index e = i) es"

text \<open>
  The loop of \<open>merge\<close> over the other log's entries from position \<open>i\<close> on, followed by the
  insertion of what the loop left over.
\<close>

fun merge_loop :: "log_entry list \<Rightarrow> log_entry list \<Rightarrow> log_entry list" where
  "merge_loop es [] = es"
| "merge_loop es (e # rest) =
     (case log_atIter es (le_index e) of
        None \<Rightarrow> es @ (e # rest)
      | Some p \<Rightarrow>
          if \<not> entry_eq (es ! p) e then take p es @ (e # rest) else merge_loop es rest)"

definition log_merge :: "raft_log \<Rightarrow> log_entry list \<Rightarrow> raft_log" where
  "log_merge l other = l\<lparr>log_entries := merge_loop (log_entries l) other\<rparr>"

definition log_lastIndex :: "raft_log \<Rightarrow> u64" where
  "log_lastIndex l =
     (if log_entries l = [] then log_lastIncludedIndex l else le_index (last (log_entries l)))"

definition log_lastTerm :: "raft_log \<Rightarrow> u64" where
  "log_lastTerm l =
     (if log_entries l = [] then log_lastIncludedTerm l else le_term (last (log_entries l)))"

definition log_firstIndex :: "raft_log \<Rightarrow> u64" where
  "log_firstIndex l = (if log_entries l = [] then 0 else le_index (hd (log_entries l)))"

definition log_firstTerm :: "raft_log \<Rightarrow> u64" where
  "log_firstTerm l = (if log_entries l = [] then 0 else le_term (hd (log_entries l)))"

definition log_termFirstIndex :: "raft_log \<Rightarrow> u64 \<Rightarrow> u64" where
  "log_termFirstIndex l t =
     (case find (\<lambda>e. le_term e = t) (log_entries l) of None \<Rightarrow> 0 | Some e \<Rightarrow> le_index e)"

definition log_termLastIndex :: "raft_log \<Rightarrow> u64 \<Rightarrow> u64" where
  "log_termLastIndex l t =
     (if log_entries l = [] then 0
      else case find (\<lambda>e. le_term e = t) (rev (log_entries l)) of None \<Rightarrow> 0 | Some e \<Rightarrow> le_index e)"

definition log_suffix :: "raft_log \<Rightarrow> u64 \<Rightarrow> raft_log" where
  "log_suffix l start =
     (case log_atIter (log_entries l) start of
        None \<Rightarrow> log_new
      | Some p \<Rightarrow> log_of (drop p (log_entries l)))"

definition log_trimPrefix :: "raft_log \<Rightarrow> u64 \<Rightarrow> u64 \<Rightarrow> raft_log" where
  "log_trimPrefix l i t =
     \<lparr>log_lastIncludedIndex = i, log_lastIncludedTerm = t,
      log_entries = (case log_atIter (log_entries l) i of
          None \<Rightarrow> []
        | Some p \<Rightarrow> drop (p + 1) (log_entries l))\<rparr>"

definition log_setLastIncluded :: "raft_log \<Rightarrow> u64 \<Rightarrow> u64 \<Rightarrow> raft_log" where
  "log_setLastIncluded l i t = l\<lparr>log_lastIncludedIndex := i, log_lastIncludedTerm := t\<rparr>"

definition log_at :: "raft_log \<Rightarrow> u64 \<Rightarrow> log_entry option" where
  "log_at l i = find (\<lambda>e. le_index e = i) (log_entries l)"

definition log_clear :: "raft_log \<Rightarrow> raft_log" where
  "log_clear l = l\<lparr>log_entries := []\<rparr>"

definition log_data :: "raft_log \<Rightarrow> log_entry list" where
  "log_data l = log_entries l"

section \<open>The invariant\<close>

text \<open>
  The entries are numbered without gaps from the index after the compaction point \<open>b\<close>.
  The statement is over natural numbers, so it also says that no index has wrapped around.
\<close>

definition contiguous :: "nat \<Rightarrow> log_entry list \<Rightarrow> bool" where
  "contiguous b es \<longleftrightarrow> (\<forall>i < length es. unat (le_index (es ! i)) = b + 1 + i)"

definition terms_from :: "u64 \<Rightarrow> log_entry list \<Rightarrow> bool" where
  "terms_from t es \<longleftrightarrow> sorted (t # map le_term es)"

definition log_base :: "raft_log \<Rightarrow> nat" where
  "log_base l = unat (log_lastIncludedIndex l)"

definition log_wf :: "raft_log \<Rightarrow> bool" where
  "log_wf l \<longleftrightarrow> contiguous (log_base l) (log_entries l)"

definition log_terms_ok :: "raft_log \<Rightarrow> bool" where
  "log_terms_ok l \<longleftrightarrow> terms_from (log_lastIncludedTerm l) (log_entries l)"

section \<open>Contiguous runs\<close>

lemma entry_eq_refl [simp]: "entry_eq e e"
  by (simp add: entry_eq_def)

lemma contiguous_Nil [simp]: "contiguous b []"
  by (simp add: contiguous_def)

lemma contiguous_Cons:
  "contiguous b (e # es) \<longleftrightarrow> unat (le_index e) = b + 1 \<and> contiguous (b + 1) es"
  by (auto simp: contiguous_def nth_Cons less_Suc_eq_0_disj split: nat.splits)

lemma contiguous_append:
  "contiguous b (xs @ ys) \<longleftrightarrow> contiguous b xs \<and> contiguous (b + length xs) ys"
  by (induction xs arbitrary: b) (auto simp: contiguous_Cons)

lemma contiguous_take: "contiguous b es \<Longrightarrow> contiguous b (take n es)"
  by (simp add: contiguous_def)

lemma contiguous_drop: "contiguous b es \<Longrightarrow> n \<le> length es \<Longrightarrow> contiguous (b + n) (drop n es)"
  by (simp add: contiguous_def)

lemma contiguous_bound: "contiguous b es \<Longrightarrow> es \<noteq> [] \<Longrightarrow> b + length es < 2 ^ 64"
proof -
  assume c: "contiguous b es" and "es \<noteq> []"
  then have "unat (le_index (es ! (length es - 1))) = b + 1 + (length es - 1)"
    by (simp add: contiguous_def)
  moreover have "unat (le_index (es ! (length es - 1))) < 2 ^ 64"
    using unsigned_less [of "le_index (es ! (length es - 1))", where ?'a = nat] by simp
  ultimately show ?thesis using \<open>es \<noteq> []\<close> by (cases es) auto
qed

lemma log_atIter_contiguous:
  assumes c: "contiguous b es"
  shows "log_atIter es i =
    (if b < unat i \<and> unat i \<le> b + length es then Some (unat i - b - 1) else None)"
proof (cases "b < unat i \<and> unat i \<le> b + length es")
  case True
  then have p: "unat i - b - 1 < length es" by auto
  have "log_atIter es i = Some (unat i - b - 1)"
    unfolding log_atIter_def
  proof (rule first_pos_SomeI [OF p])
    show "le_index (es ! (unat i - b - 1)) = i"
      using c p True by (simp add: contiguous_def word_unat_eq_iff)
  next
    fix q assume "q < unat i - b - 1"
    with p c have "unat (le_index (es ! q)) = b + 1 + q" by (simp add: contiguous_def)
    with \<open>q < unat i - b - 1\<close> show "le_index (es ! q) \<noteq> i" by auto
  qed
  with True show ?thesis by simp
next
  case False
  have "le_index e \<noteq> i" if "e \<in> set es" for e
  proof -
    from that obtain k where "k < length es" "e = es ! k" by (auto simp: in_set_conv_nth)
    with c False show ?thesis by (auto simp: contiguous_def)
  qed
  then have "log_atIter es i = None" by (simp add: log_atIter_def first_pos_None)
  with False show ?thesis by simp
qed

lemma log_at_contiguous:
  assumes "contiguous b (log_entries l)"
  shows "log_at l i =
    (if b < unat i \<and> unat i \<le> b + length (log_entries l)
     then Some (log_entries l ! (unat i - b - 1)) else None)"
  using log_atIter_contiguous [OF assms, of i]
  by (simp add: log_at_def log_atIter_def find_first_pos split: if_splits)

lemma log_lastIndex_unat:
  "log_wf l \<Longrightarrow> unat (log_lastIndex l) = log_base l + length (log_entries l)"
  by (cases "log_entries l" rule: rev_cases)
    (auto simp: log_wf_def log_lastIndex_def log_base_def contiguous_append contiguous_Cons)

section \<open>Merging\<close>

text \<open>
  \<open>fits b es p\<close>: a batch that follows index \<open>p\<close> attaches to the entries \<open>es\<close>, that is
  it starts neither before the compaction point nor beyond the end.
\<close>

definition fits :: "nat \<Rightarrow> log_entry list \<Rightarrow> nat \<Rightarrow> bool" where
  "fits b es p \<longleftrightarrow> b \<le> p \<and> p \<le> b + length es"

lemma merge_loop_step:
  assumes "contiguous b es" and "contiguous p (e # rest)" and "fits b es p"
  shows "merge_loop es (e # rest) =
    (if p = b + length es then es @ (e # rest)
     else if entry_eq (es ! (p - b)) e then merge_loop es rest
     else take (p - b) es @ (e # rest))"
proof -
  have u: "unat (le_index e) = p + 1" using assms(2) by (simp add: contiguous_Cons)
  have "log_atIter es (le_index e) = (if p < b + length es then Some (p - b) else None)"
    using assms(3) by (auto simp: log_atIter_contiguous [OF assms(1)] u fits_def)
  then show ?thesis using assms(3) by (auto simp: fits_def)
qed

lemma merge_loop_contiguous:
  assumes "contiguous b es" and "contiguous p os" and "fits b es p"
  shows "contiguous b (merge_loop es os)"
  using assms(2,3)
proof (induction os arbitrary: p)
  case Nil
  with assms(1) show ?case by simp
next
  case (Cons e rest)
  have next1: "contiguous (p + 1) rest" using Cons.prems(1) by (simp add: contiguous_Cons)
  consider "p = b + length es" | "p < b + length es" "entry_eq (es ! (p - b)) e"
    | "p < b + length es" "\<not> entry_eq (es ! (p - b)) e"
    using Cons.prems(2) by (metis fits_def le_neq_implies_less)
  then show ?case
  proof cases
    case 1
    with Cons.prems assms(1) show ?thesis
      by (simp add: merge_loop_step [OF assms(1) Cons.prems] contiguous_append
          del: merge_loop.simps)
  next
    case 2
    then have "fits b es (p + 1)" using Cons.prems(2) by (simp add: fits_def)
    from Cons.IH [OF next1 this] 2 show ?thesis
      by (simp add: merge_loop_step [OF assms(1) Cons.prems] del: merge_loop.simps)
  next
    case 3
    then have "min (length es) (p - b) = p - b" by simp
    with 3 Cons.prems assms(1) show ?thesis
      by (simp add: merge_loop_step [OF assms(1) Cons.prems] contiguous_append contiguous_take
          fits_def del: merge_loop.simps)
  qed
qed

text \<open>
  When the entries the batch overlaps are equal to the batch's, nothing is removed: the
  merge appends what the log lacks.
\<close>

definition agree :: "nat \<Rightarrow> log_entry list \<Rightarrow> nat \<Rightarrow> log_entry list \<Rightarrow> bool" where
  "agree b es p os \<longleftrightarrow> (\<forall>j < length os. p - b + j < length es \<longrightarrow> entry_eq (es ! (p - b + j)) (os ! j))"

lemma agree_Cons:
  assumes "b \<le> p"
  shows "agree b es p (e # rest) \<longleftrightarrow>
    (p < b + length es \<longrightarrow> entry_eq (es ! (p - b)) e) \<and> agree b es (p + 1) rest"
  using assms by (auto simp: agree_def nth_Cons less_Suc_eq_0_disj Suc_diff_le split: nat.splits)

lemma merge_loop_agree:
  assumes "contiguous b es" and "contiguous p os" and "fits b es p" and "agree b es p os"
  shows "merge_loop es os = es @ drop (b + length es - p) os"
  using assms(2-4)
proof (induction os arbitrary: p)
  case Nil
  then show ?case by simp
next
  case (Cons e rest)
  show ?case
  proof (cases "p = b + length es")
    case True
    then show ?thesis
      by (simp add: merge_loop_step [OF assms(1) Cons.prems(1,2)] del: merge_loop.simps)
  next
    case False
    with Cons.prems have lt: "p < b + length es" "b \<le> p" by (auto simp: fits_def)
    with Cons.prems(3) have "entry_eq (es ! (p - b)) e" "agree b es (p + 1) rest"
      by (simp_all add: agree_Cons)
    with Cons.IH [of "p + 1"] Cons.prems lt show ?thesis
      by (simp add: merge_loop_step [OF assms(1) Cons.prems(1,2)] contiguous_Cons fits_def
          drop_Cons' del: merge_loop.simps)
  qed
qed

text \<open>Otherwise the log is cut at the first difference and continued by the batch.\<close>

lemma merge_loop_conflict:
  assumes "contiguous b es" and "contiguous p os" and "fits b es p" and "\<not> agree b es p os"
  shows "\<exists>k < length os. p - b + k < length es \<and> agree b es p (take k os) \<and>
    \<not> entry_eq (es ! (p - b + k)) (os ! k) \<and>
    merge_loop es os = take (p - b + k) es @ drop k os"
  using assms(2-4)
proof (induction os arbitrary: p)
  case Nil
  then show ?case by (simp add: agree_def)
next
  case (Cons e rest)
  from Cons.prems(3) have "p \<noteq> b + length es" by (auto simp: agree_def)
  with Cons.prems(2) have lt: "p < b + length es" "b \<le> p" by (auto simp: fits_def)
  show ?case
  proof (cases "entry_eq (es ! (p - b)) e")
    case False
    with lt show ?thesis
      by (intro exI [of _ 0])
        (simp add: merge_loop_step [OF assms(1) Cons.prems(1,2)] agree_def del: merge_loop.simps)
  next
    case True
    with Cons.prems(3) lt have "\<not> agree b es (p + 1) rest" by (simp add: agree_Cons)
    with Cons.IH [of "p + 1"] Cons.prems lt obtain k where k: "k < length rest"
      "p + 1 - b + k < length es" "agree b es (p + 1) (take k rest)"
      "\<not> entry_eq (es ! (p + 1 - b + k)) (rest ! k)"
      "merge_loop es rest = take (p + 1 - b + k) es @ drop k rest"
      by (auto simp: contiguous_Cons fits_def)
    have "p + 1 - b + k = p - b + Suc k" using lt by simp
    with k True lt show ?thesis
      by (intro exI [of _ "Suc k"])
        (simp add: merge_loop_step [OF assms(1) Cons.prems(1,2)] agree_Cons del: merge_loop.simps)
  qed
qed

lemma merge_loop_prefix:
  assumes "contiguous b es" and "contiguous p os" and "fits b es p"
  shows "take (p - b) (merge_loop es os) = take (p - b) es"
proof (cases "agree b es p os")
  case True
  with assms show ?thesis by (auto simp: merge_loop_agree fits_def)
next
  case False
  from merge_loop_conflict [OF assms False] assms(3) show ?thesis
    by (auto simp: fits_def min_def)
qed

lemma merge_loop_holds:
  assumes "contiguous b es" and "contiguous p os" and "fits b es p" and "j < length os"
  shows "p - b + j < length (merge_loop es os) \<and> entry_eq (merge_loop es os ! (p - b + j)) (os ! j)"
proof (cases "agree b es p os")
  case True
  with assms show ?thesis
    by (cases "p - b + j < length es")
      (auto simp: merge_loop_agree fits_def agree_def nth_append)
next
  case False
  from merge_loop_conflict [OF assms(1-3) False] obtain k where k: "k < length os"
    "p - b + k < length es" "agree b es p (take k os)"
    "merge_loop es os = take (p - b + k) es @ drop k os" by blast
  show ?thesis
  proof (cases "j < k")
    case True
    with k show ?thesis by (auto simp: nth_append agree_def)
  next
    case False
    with k assms(4) show ?thesis by (auto simp: nth_append)
  qed
qed

lemma merge_loop_idem:
  assumes "contiguous b es" and "contiguous p os" and "fits b es p"
  shows "merge_loop (merge_loop es os) os = merge_loop es os"
proof -
  let ?m = "merge_loop es os"
  have c: "contiguous b ?m" by (rule merge_loop_contiguous [OF assms])
  have len: "os \<noteq> [] \<Longrightarrow> p - b + length os \<le> length ?m"
    using merge_loop_holds [OF assms, of "length os - 1"] by (cases os) auto
  have f: "fits b ?m p"
    using len assms(3) by (cases "os = []") (auto simp: fits_def)
  have "agree b ?m p os" using merge_loop_holds [OF assms] by (simp add: agree_def)
  from merge_loop_agree [OF c assms(2) f this] len assms(3) show ?thesis
    by (cases "os = []") (auto simp: fits_def)
qed

section \<open>Terms\<close>

lemma terms_from_Nil [simp]: "terms_from t []"
  by (simp add: terms_from_def)

lemma terms_from_Cons: "terms_from t (e # es) \<longleftrightarrow> t \<le> le_term e \<and> terms_from (le_term e) es"
  by (auto simp: terms_from_def intro: order_trans)

definition end_term :: "u64 \<Rightarrow> log_entry list \<Rightarrow> u64" where
  "end_term t es = (if es = [] then t else le_term (last es))"

lemma end_term_Cons: "end_term t (e # es) = end_term (le_term e) es"
  by (simp add: end_term_def)

lemma terms_from_append:
  "terms_from t (xs @ ys) \<longleftrightarrow> terms_from t xs \<and> terms_from (end_term t xs) ys"
  by (induction xs arbitrary: t) (auto simp: terms_from_Cons end_term_Cons, auto simp: end_term_def)

lemma log_lastTerm_end: "log_lastTerm l = end_term (log_lastIncludedTerm l) (log_entries l)"
  by (simp add: log_lastTerm_def end_term_def)

lemma terms_from_take: "terms_from t es \<Longrightarrow> terms_from t (take n es)"
  by (metis append_take_drop_id terms_from_append)

lemma end_term_mono: "terms_from t es \<Longrightarrow> t \<le> end_term t es"
  by (induction es arbitrary: t) (auto simp: terms_from_Cons end_term_Cons end_term_def intro: order_trans)

lemma entry_eq_end_term:
  "n \<le> length os \<Longrightarrow> k + n \<le> length es \<Longrightarrow> (\<And>j. j < n \<Longrightarrow> entry_eq (es ! (k + j)) (os ! j)) \<Longrightarrow>
   0 < n \<Longrightarrow> end_term t (take (k + n) es) = end_term t' (take n os)"
  by (cases n) (auto simp: end_term_def last_conv_nth entry_eq_def min_def)

text \<open>
  Merging a batch whose terms continue the term of the entry it attaches to keeps the log's
  terms in order.
\<close>

lemma merge_loop_terms:
  assumes "contiguous b es" and "contiguous p os" and "fits b es p"
    and te: "terms_from t es" and to: "terms_from (end_term t (take (p - b) es)) os"
  shows "terms_from t (merge_loop es os)"
proof (cases "agree b es p os")
  case True
  let ?n = "b + length es - p"
  have m: "merge_loop es os = es @ drop ?n os"
    by (rule merge_loop_agree [OF assms(1-3) True])
  show ?thesis
  proof (cases "?n < length os")
    case False
    with m te show ?thesis by simp
  next
    case n: True
    have "terms_from (end_term t es) (drop ?n os)"
    proof (cases "?n = 0")
      case True
      with assms(3) have "p - b = length es" by (simp add: fits_def)
      with to True show ?thesis by simp
    next
      case False
      have "end_term t (take (p - b + ?n) es) = end_term (end_term t (take (p - b) es)) (take ?n os)"
        using n False assms(3) True by (intro entry_eq_end_term) (auto simp: fits_def agree_def)
      moreover have "p - b + ?n = length es" using assms(3) by (simp add: fits_def)
      moreover have "terms_from (end_term (end_term t (take (p - b) es)) (take ?n os)) (drop ?n os)"
        using to by (metis append_take_drop_id terms_from_append)
      ultimately show ?thesis by simp
    qed
    with m te show ?thesis by (simp add: terms_from_append)
  qed
next
  case False
  from merge_loop_conflict [OF assms(1-3) False] obtain k where k: "k < length os"
    "p - b + k < length es" "agree b es p (take k os)"
    "merge_loop es os = take (p - b + k) es @ drop k os" by blast
  have "terms_from (end_term t (take (p - b + k) es)) (drop k os)"
  proof (cases "k = 0")
    case True
    with to show ?thesis by simp
  next
    case False
    have "end_term t (take (p - b + k) es) = end_term (end_term t (take (p - b) es)) (take k os)"
      using k False by (intro entry_eq_end_term) (auto simp: agree_def)
    with to show ?thesis by (metis append_take_drop_id terms_from_append)
  qed
  with k(4) te show ?thesis by (simp add: terms_from_append terms_from_take)
qed

section \<open>Compaction and suffixes\<close>

lemma log_wf_new [simp]: "log_wf log_new"
  by (simp add: log_wf_def log_new_def)

lemma log_terms_ok_new [simp]: "log_terms_ok log_new"
  by (simp add: log_terms_ok_def log_new_def)

lemma log_wf_append:
  assumes "log_wf l" and "unat (le_index e) = Suc (unat (log_lastIndex l))"
  shows "log_wf (log_append l e)"
  using assms by (simp add: log_append_def log_wf_def log_base_def contiguous_append contiguous_Cons
      log_lastIndex_unat [OF assms(1), unfolded log_base_def])

lemma log_terms_ok_append:
  "log_terms_ok l \<Longrightarrow> log_lastTerm l \<le> le_term e \<Longrightarrow> log_terms_ok (log_append l e)"
  by (simp add: log_append_def log_terms_ok_def terms_from_append terms_from_Cons log_lastTerm_end)

lemma log_wf_trimPrefix:
  assumes "log_wf l"
  shows "log_wf (log_trimPrefix l i t)"
proof -
  have c: "contiguous (log_base l) (log_entries l)" using assms by (simp add: log_wf_def)
  show ?thesis
    using contiguous_drop [OF c, of "unat i - log_base l"]
    by (auto simp: log_wf_def log_trimPrefix_def log_base_def log_atIter_contiguous
        [OF c [unfolded log_base_def]] Suc_diff_Suc)
qed

lemma log_at_trimPrefix:
  assumes "log_wf l" and "log_base l < unat i" and "unat i \<le> unat (log_lastIndex l)"
  shows "log_at (log_trimPrefix l i t) j = (if i < j then log_at l j else None)"
proof -
  let ?l = "log_trimPrefix l i t"
  have wf: "contiguous (log_base l) (log_entries l)" using assms(1) by (simp add: log_wf_def)
  have wf': "contiguous (unat i) (log_entries ?l)"
    using log_wf_trimPrefix [OF assms(1), of i t] by (simp add: log_wf_def log_base_def log_trimPrefix_def)
  have es: "log_entries ?l = drop (unat i - log_base l) (log_entries l)"
    using assms log_lastIndex_unat [OF assms(1)]
    by (simp add: log_trimPrefix_def log_atIter_contiguous [OF wf] Suc_diff_Suc)
  show ?thesis
    using assms log_lastIndex_unat [OF assms(1)]
    by (auto simp: log_at_contiguous [OF wf'] log_at_contiguous [OF wf] es word_less_nat_alt)
qed

lemma log_lastIndex_trimPrefix:
  assumes "log_wf l" and "log_base l < unat i" and "unat i \<le> unat (log_lastIndex l)"
  shows "log_lastIndex (log_trimPrefix l i t) = log_lastIndex l"
proof -
  have "log_entries (log_trimPrefix l i t) = drop (unat i - log_base l) (log_entries l)"
    using assms log_lastIndex_unat [OF assms(1)]
    by (simp add: log_trimPrefix_def log_wf_def log_atIter_contiguous Suc_diff_Suc)
  moreover have "unat (log_lastIndex (log_trimPrefix l i t)) =
      unat i + length (log_entries (log_trimPrefix l i t))"
    using log_lastIndex_unat [OF log_wf_trimPrefix [OF assms(1)], of i t]
    by (simp add: log_base_def log_trimPrefix_def)
  ultimately show ?thesis
    using assms log_lastIndex_unat [OF assms(1)] by (simp add: word_unat_eq_iff)
qed

lemma log_suffix_entries:
  assumes "log_wf l" and "log_base l < unat i"
  shows "log_entries (log_suffix l i) = drop (unat i - log_base l - 1) (log_entries l)"
  using assms by (auto simp: log_suffix_def log_wf_def log_atIter_contiguous log_new_def log_of_def)

section \<open>The properties of the log\<close>

lemma log_at_merge_prefix:
  assumes "log_wf l" and "contiguous p batch" and "fits (log_base l) (log_entries l) p"
    and "unat i \<le> p"
  shows "log_at (log_merge l batch) i = log_at l i"
proof -
  let ?b = "log_base l" and ?es = "log_entries l"
  have c: "contiguous ?b ?es" using assms(1) by (simp add: log_wf_def)
  have c': "contiguous ?b (log_entries (log_merge l batch))"
    using merge_loop_contiguous [OF c assms(2,3)] by (simp add: log_merge_def)
  have pre: "take (p - ?b) (merge_loop ?es batch) = take (p - ?b) ?es"
    by (rule merge_loop_prefix [OF c assms(2,3)])
  have len: "p - ?b \<le> length (merge_loop ?es batch)"
    using arg_cong [OF pre, of length] assms(3) by (simp add: fits_def min_def split: if_splits)
  have "merge_loop ?es batch ! k = ?es ! k" if "k < p - ?b" for k
    using that arg_cong [OF pre, of "\<lambda>xs. xs ! k"] by simp
  with assms(3,4) len show ?thesis
    by (auto simp: log_at_contiguous [OF c] log_at_contiguous [OF c'] fits_def)
      (auto simp: log_merge_def)
qed

lemma log_at_merge_batch:
  assumes "log_wf l" and "contiguous p batch" and "fits (log_base l) (log_entries l) p"
    and "e \<in> set batch"
  shows "\<exists>e'. log_at (log_merge l batch) (le_index e) = Some e' \<and> entry_eq e' e"
proof -
  let ?b = "log_base l" and ?es = "log_entries l"
  have c: "contiguous ?b ?es" using assms(1) by (simp add: log_wf_def)
  have c': "contiguous ?b (log_entries (log_merge l batch))"
    using merge_loop_contiguous [OF c assms(2,3)] by (simp add: log_merge_def)
  from assms(4) obtain j where j: "j < length batch" "e = batch ! j" by (auto simp: in_set_conv_nth)
  have "unat (le_index e) = p + 1 + j" using assms(2) j by (simp add: contiguous_def)
  moreover have "p - ?b + j < length (merge_loop ?es batch)"
    "entry_eq (merge_loop ?es batch ! (p - ?b + j)) e"
    using merge_loop_holds [OF c assms(2,3) j(1)] j(2) by simp_all
  ultimately show ?thesis
    using assms(3) by (simp add: log_at_contiguous [OF c'] fits_def) (simp add: log_merge_def)
qed

text \<open>
  C10: merging a batch that follows index \<open>p\<close> into a log that reaches \<open>p\<close> keeps the log
  gap-free, leaves every entry up to \<open>p\<close> as it was, makes the log hold every entry of the
  batch at its index, and is idempotent, so a redelivered batch changes nothing.
\<close>

theorem log_merge_correct:
  assumes "log_wf l" and "contiguous p batch" and "fits (log_base l) (log_entries l) p"
  shows "log_wf (log_merge l batch)
    \<and> (\<forall>i. unat i \<le> p \<longrightarrow> log_at (log_merge l batch) i = log_at l i)
    \<and> (\<forall>e \<in> set batch. \<exists>e'. log_at (log_merge l batch) (le_index e) = Some e' \<and> entry_eq e' e)
    \<and> log_merge (log_merge l batch) batch = log_merge l batch"
proof -
  have c: "contiguous (log_base l) (log_entries l)" using assms(1) by (simp add: log_wf_def)
  have "log_wf (log_merge l batch)"
    using merge_loop_contiguous [OF c assms(2,3)] by (simp add: log_wf_def log_merge_def log_base_def)
  moreover have "log_merge (log_merge l batch) batch = log_merge l batch"
    using merge_loop_idem [OF c assms(2,3)] by (simp add: log_merge_def)
  ultimately show ?thesis
    using log_at_merge_prefix [OF assms] log_at_merge_batch [OF assms] by blast
qed

definition noop_entry :: "u64 \<Rightarrow> u64 \<Rightarrow> log_entry" where
  "noop_entry i t = \<lparr>le_index = i, le_term = t, le_command = NoOp_new zero_uuid\<rparr>"

theorem log_merge_correct_witness:
  "log_wf (log_merge (log_of [noop_entry 1 1, noop_entry 2 1]) [noop_entry 2 2, noop_entry 3 2]) \<and>
   log_at (log_merge (log_of [noop_entry 1 1, noop_entry 2 1]) [noop_entry 2 2, noop_entry 3 2]) 1 =
     Some (noop_entry 1 1)"
  using log_merge_correct [of "log_of [noop_entry 1 1, noop_entry 2 1]" 1 "[noop_entry 2 2, noop_entry 3 2]"]
  by (simp add: log_wf_def log_of_def log_base_def contiguous_Cons noop_entry_def fits_def log_at_def)

text \<open>
  A batch that agrees with the log where they overlap removes nothing: every entry of
  the log is still at its index, so a delayed copy of an older, shorter batch cannot
  truncate a follower's log.
\<close>

theorem log_merge_never_truncates:
  assumes "log_wf l" and "contiguous p batch" and "fits (log_base l) (log_entries l) p"
    and "agree (log_base l) (log_entries l) p batch"
  shows "\<exists>new. log_entries (log_merge l batch) = log_entries l @ new"
  using merge_loop_agree [OF assms(1) [unfolded log_wf_def] assms(2-4)] by (simp add: log_merge_def)

theorem log_merge_never_truncates_witness:
  "\<exists>new. log_entries (log_merge (log_of [noop_entry 1 1, noop_entry 2 1]) [noop_entry 1 1]) =
     log_entries (log_of [noop_entry 1 1, noop_entry 2 1]) @ new"
  by (rule log_merge_never_truncates [where p = 0])
    (simp_all add: log_wf_def log_of_def log_base_def contiguous_Cons noop_entry_def fits_def agree_def)

text \<open>
  The guard of C9 is needed. A batch that starts below the compaction point of a
  compacted log is appended as a whole behind the entries the log already has, so the log is
  no longer gap-free and its last index goes backwards.
\<close>

theorem log_merge_stale_batch:
  "\<exists>l batch. log_wf l \<and> contiguous 0 batch \<and> \<not> log_wf (log_merge l batch) \<and>
     log_lastIndex (log_merge l batch) < log_lastIndex l"
proof -
  let ?l = "\<lparr>log_lastIncludedIndex = 2, log_lastIncludedTerm = 1, log_entries = [noop_entry 3 1]\<rparr>"
  have "log_wf ?l \<and> contiguous 0 [noop_entry 1 1] \<and> \<not> log_wf (log_merge ?l [noop_entry 1 1]) \<and>
     log_lastIndex (log_merge ?l [noop_entry 1 1]) < log_lastIndex ?l"
    by (simp add: log_wf_def log_base_def contiguous_Cons noop_entry_def log_merge_def
        log_atIter_def log_lastIndex_def)
  then show ?thesis by blast
qed

text \<open>
  Compacting a log at an index it holds moves the compaction point there, drops exactly
  the entries up to it, and keeps every later entry, the last index and the invariant.
\<close>

theorem log_trimPrefix_correct:
  assumes "log_wf l" and "log_base l < unat i" and "unat i \<le> unat (log_lastIndex l)"
  shows "log_wf (log_trimPrefix l i t)
    \<and> log_base (log_trimPrefix l i t) = unat i
    \<and> (\<forall>j. log_at (log_trimPrefix l i t) j = (if i < j then log_at l j else None))
    \<and> log_lastIndex (log_trimPrefix l i t) = log_lastIndex l"
  using log_wf_trimPrefix [OF assms(1)] log_at_trimPrefix [OF assms] log_lastIndex_trimPrefix [OF assms]
  by (simp add: log_base_def log_trimPrefix_def)

theorem log_trimPrefix_correct_witness:
  "log_at (log_trimPrefix (log_of [noop_entry 1 1, noop_entry 2 1]) 1 1) 2 = Some (noop_entry 2 1) \<and>
   log_lastIndex (log_trimPrefix (log_of [noop_entry 1 1, noop_entry 2 1]) 1 1) = 2"
  using log_trimPrefix_correct [of "log_of [noop_entry 1 1, noop_entry 2 1]" 1 1]
  by (simp add: log_wf_def log_of_def log_base_def contiguous_Cons noop_entry_def log_lastIndex_def
      log_at_def)

end
