(* ===== verification/RaftTypes.thy ===== *)
theory RaftTypes
  imports RaftLog
begin

text \<open>
  \<open>src/include/raft/Types.hpp\<close>, \<open>src/raft/Types.cpp\<close> and the data of
  \<open>src/include/raft/Raft.hpp\<close>: the arguments and replies of the three Raft calls, their
  conversions to and from the protocol buffer messages of \<open>proto/raft.proto\<close>, and the
  state a server keeps on disk. The conversion operators cache the message object in a
  \<open>shared_ptr\<close> and overwrite every field of it, so the cache is not part of the model.
\<close>

section \<open>Arguments and replies\<close>

record AppendEntriesArg =
  ae_leaderId :: string
  ae_term :: u64
  ae_prevLogIndex :: u64
  ae_prevLogTerm :: u64
  ae_leaderCommit :: u64
  ae_entries :: raft_log

record AppendEntriesReply =
  aer_success :: bool
  aer_term :: u64
  aer_conflictTerm :: u64
  aer_conflictIndex :: u64

record RequestVoteArg =
  rv_candidateId :: string
  rv_term :: u64
  rv_lastLogIndex :: u64
  rv_lastLogTerm :: u64

record RequestVoteReply =
  rvr_voteGranted :: bool
  rvr_term :: u64

record InstallSnapshotArg =
  is_leaderId :: string
  is_term :: u64
  is_lastIncludedIndex :: u64
  is_lastIncludedTerm :: u64
  is_data :: string

record InstallSnapshotReply =
  isr_success :: bool
  isr_term :: u64

definition mk_AppendEntriesArg :: "string \<Rightarrow> u64 \<Rightarrow> u64 \<Rightarrow> u64 \<Rightarrow> u64 \<Rightarrow> raft_log \<Rightarrow> AppendEntriesArg" where
  "mk_AppendEntriesArg l t pi pt c g =
     \<lparr>ae_leaderId = l, ae_term = t, ae_prevLogIndex = pi, ae_prevLogTerm = pt,
      ae_leaderCommit = c, ae_entries = log_of (log_data g)\<rparr>"

definition mk_RequestVoteArg :: "string \<Rightarrow> u64 \<Rightarrow> u64 \<Rightarrow> u64 \<Rightarrow> RequestVoteArg" where
  "mk_RequestVoteArg c t li lt =
     \<lparr>rv_candidateId = c, rv_term = t, rv_lastLogIndex = li, rv_lastLogTerm = lt\<rparr>"

definition mk_InstallSnapshotArg :: "string \<Rightarrow> u64 \<Rightarrow> u64 \<Rightarrow> u64 \<Rightarrow> string \<Rightarrow> InstallSnapshotArg" where
  "mk_InstallSnapshotArg l t si st sd =
     \<lparr>is_leaderId = l, is_term = t, is_lastIncludedIndex = si, is_lastIncludedTerm = st, is_data = sd\<rparr>"

text \<open>
  \<open>AppendEntriesReply(bool, uint64_t)\<close> and the default constructor leave the conflict
  fields uninitialised; what they hold then is the argument \<open>junk\<close>.
\<close>

definition mk_AppendEntriesReply :: "u64 \<times> u64 \<Rightarrow> bool \<Rightarrow> u64 \<Rightarrow> AppendEntriesReply" where
  "mk_AppendEntriesReply junk cond t =
     \<lparr>aer_success = cond, aer_term = t, aer_conflictTerm = fst junk, aer_conflictIndex = snd junk\<rparr>"

definition mk_RequestVoteReply :: "bool \<Rightarrow> u64 \<Rightarrow> RequestVoteReply" where
  "mk_RequestVoteReply cond t = \<lparr>rvr_voteGranted = cond, rvr_term = t\<rparr>"

definition mk_InstallSnapshotReply :: "u64 \<Rightarrow> InstallSnapshotReply" where
  "mk_InstallSnapshotReply t = \<lparr>isr_success = True, isr_term = t\<rparr>"

section \<open>Messages\<close>

record pb_entry =
  pe_index :: u64
  pe_term :: u64
  pe_command :: string

datatype raft_message =
    PbAppendEntriesArg string u64 u64 u64 u64 "pb_entry list"
  | PbAppendEntriesReply bool u64 u64 u64
  | PbRequestVoteArg string u64 u64 u64
  | PbRequestVoteReply bool u64
  | PbInstallSnapshotArg string u64 u64 u64 string
  | PbInstallSnapshotReply bool u64

definition entry_message :: "(pb_command \<Rightarrow> string option) \<Rightarrow> log_entry \<Rightarrow> pb_entry outcome" where
  "entry_message ser e =
     bind_outcome (serialize ser (le_command e)) (\<lambda>s.
       Inr \<lparr>pe_index = le_index e, pe_term = le_term e, pe_command = s\<rparr>)"

definition entry_of_message :: "(string \<Rightarrow> pb_command option) \<Rightarrow> pb_entry \<Rightarrow> log_entry outcome" where
  "entry_of_message parse m =
     bind_outcome (commandFactory parse (pe_command m)) (\<lambda>c.
       Inr \<lparr>le_index = pe_index m, le_term = pe_term m, le_command = c\<rparr>)"

definition AppendEntriesArg_message :: "(pb_command \<Rightarrow> string option) \<Rightarrow> AppendEntriesArg \<Rightarrow> raft_message outcome" where
  "AppendEntriesArg_message ser a =
     bind_outcome (map_outcome (entry_message ser) (log_data (ae_entries a))) (\<lambda>es.
       Inr (PbAppendEntriesArg (ae_leaderId a) (ae_term a) (ae_prevLogIndex a) (ae_prevLogTerm a)
              (ae_leaderCommit a) es))"

text \<open>
  The constructors from a message. \<open>AppendEntriesArg\<close> appends the entries one by one to
  its empty log. The reply constructors take a \<open>Message\<close> and throw when the dynamic cast
  fails; the argument constructors take the message type itself, so their case for another
  message stands for a call that does not type-check.
\<close>

definition AppendEntriesArg_of_message :: "(string \<Rightarrow> pb_command option) \<Rightarrow> raft_message \<Rightarrow> AppendEntriesArg outcome" where
  "AppendEntriesArg_of_message parse m =
     (case m of PbAppendEntriesArg l t pi pt c es \<Rightarrow>
        bind_outcome (map_outcome (entry_of_message parse) es) (\<lambda>les.
          Inr \<lparr>ae_leaderId = l, ae_term = t, ae_prevLogIndex = pi, ae_prevLogTerm = pt,
               ae_leaderCommit = c, ae_entries = fold (\<lambda>e g. log_append g e) les log_new\<rparr>)
      | _ \<Rightarrow> Inl Unreachable)"

definition AppendEntriesReply_message :: "AppendEntriesReply \<Rightarrow> raft_message" where
  "AppendEntriesReply_message r =
     PbAppendEntriesReply (aer_success r) (aer_term r) (aer_conflictTerm r) (aer_conflictIndex r)"

definition AppendEntriesReply_of_message :: "raft_message \<Rightarrow> AppendEntriesReply outcome" where
  "AppendEntriesReply_of_message m =
     (case m of PbAppendEntriesReply s t ct ci \<Rightarrow>
        Inr \<lparr>aer_success = s, aer_term = t, aer_conflictTerm = ct, aer_conflictIndex = ci\<rparr>
      | _ \<Rightarrow> Inl (RuntimeError ''Invalid message type''))"

definition RequestVoteArg_message :: "RequestVoteArg \<Rightarrow> raft_message" where
  "RequestVoteArg_message a =
     PbRequestVoteArg (rv_candidateId a) (rv_term a) (rv_lastLogIndex a) (rv_lastLogTerm a)"

definition RequestVoteArg_of_message :: "raft_message \<Rightarrow> RequestVoteArg outcome" where
  "RequestVoteArg_of_message m =
     (case m of PbRequestVoteArg c t li lt \<Rightarrow> Inr (mk_RequestVoteArg c t li lt) | _ \<Rightarrow> Inl Unreachable)"

definition RequestVoteReply_message :: "RequestVoteReply \<Rightarrow> raft_message" where
  "RequestVoteReply_message r = PbRequestVoteReply (rvr_voteGranted r) (rvr_term r)"

definition RequestVoteReply_of_message :: "raft_message \<Rightarrow> RequestVoteReply outcome" where
  "RequestVoteReply_of_message m =
     (case m of PbRequestVoteReply g t \<Rightarrow> Inr (mk_RequestVoteReply g t)
      | _ \<Rightarrow> Inl (RuntimeError ''Invalid message type''))"

definition InstallSnapshotArg_message :: "InstallSnapshotArg \<Rightarrow> raft_message" where
  "InstallSnapshotArg_message a =
     PbInstallSnapshotArg (is_leaderId a) (is_term a) (is_lastIncludedIndex a) (is_lastIncludedTerm a) (is_data a)"

definition InstallSnapshotArg_of_message :: "raft_message \<Rightarrow> InstallSnapshotArg outcome" where
  "InstallSnapshotArg_of_message m =
     (case m of PbInstallSnapshotArg l t si st d \<Rightarrow> Inr (mk_InstallSnapshotArg l t si st d)
      | _ \<Rightarrow> Inl Unreachable)"

definition InstallSnapshotReply_message :: "InstallSnapshotReply \<Rightarrow> raft_message" where
  "InstallSnapshotReply_message r = PbInstallSnapshotReply (isr_success r) (isr_term r)"

definition InstallSnapshotReply_of_message :: "raft_message \<Rightarrow> InstallSnapshotReply outcome" where
  "InstallSnapshotReply_of_message m =
     (case m of PbInstallSnapshotReply s t \<Rightarrow> Inr \<lparr>isr_success = s, isr_term = t\<rparr>
      | _ \<Rightarrow> Inl (RuntimeError ''Invalid message type''))"

section \<open>The persistent state\<close>

datatype Role = Follower | Candidate | Leader

record PersistentState =
  ps_currentTerm :: u64
  ps_votedFor :: "string option"
  ps_log :: raft_log
  ps_snapshotData :: string
  ps_lastIncludedIndex :: u64
  ps_lastIncludedTerm :: u64

definition PersistentState_default :: PersistentState where
  "PersistentState_default =
     \<lparr>ps_currentTerm = 0, ps_votedFor = None, ps_log = log_new, ps_snapshotData = [],
      ps_lastIncludedIndex = 0, ps_lastIncludedTerm = 0\<rparr>"

definition mk_PersistentState :: "u64 \<Rightarrow> string option \<Rightarrow> raft_log \<Rightarrow> string \<Rightarrow> u64 \<Rightarrow> u64 \<Rightarrow> PersistentState" where
  "mk_PersistentState t v l sd lii lit =
     \<lparr>ps_currentTerm = t, ps_votedFor = v, ps_log = log_merge (log_clear log_new) (log_data l),
      ps_snapshotData = sd, ps_lastIncludedIndex = lii, ps_lastIncludedTerm = lit\<rparr>"

definition PersistentState_copy :: "PersistentState \<Rightarrow> PersistentState" where
  "PersistentState_copy p =
     mk_PersistentState (ps_currentTerm p) (ps_votedFor p) (ps_log p) (ps_snapshotData p)
       (ps_lastIncludedIndex p) (ps_lastIncludedTerm p)"

section \<open>Round trips\<close>

lemma merge_loop_Nil [simp]: "merge_loop [] es = es"
  by (cases es) (simp_all add: log_atIter_def)

lemma fold_log_append: "fold (\<lambda>e g. log_append g e) es g = g\<lparr>log_entries := log_entries g @ es\<rparr>"
  by (induction es arbitrary: g) (simp_all add: log_append_def)

text \<open>What the wire keeps of a log entry: everything but the header fields of its command.\<close>

definition wire_entry :: "log_entry \<Rightarrow> log_entry" where
  "wire_entry e = e\<lparr>le_command := with_header (wire_header (le_command e)) (le_command e)\<rparr>"

lemma wire_entry_simps [simp]:
  "le_index (wire_entry e) = le_index e" "le_term (wire_entry e) = le_term e"
  by (simp_all add: wire_entry_def)

lemma wire_entry_idem [simp]: "wire_entry (wire_entry e) = wire_entry e"
  by (cases "le_command e") (simp_all add: wire_entry_def)

lemma entry_eq_wire [simp]: "entry_eq e (wire_entry e)"
  by (cases "le_command e") (simp_all add: entry_eq_def wire_entry_def eq_defs)

lemma wire_entry_eqD: "wire_entry a = wire_entry b \<Longrightarrow> entry_eq a b"
  using entry_eq_wire [of a] entry_eq_wire [of b] by (auto simp: entry_eq_def intro: command_eq_trans command_eq_sym)

lemma wire_entries_eqD: "map wire_entry xs = map wire_entry ys \<Longrightarrow> list_all2 entry_eq xs ys"
  by (metis list_all2_conv_all_nth length_map nth_map wire_entry_eqD)

text \<open>The codec law the messages rely on, with the identifiers well formed.\<close>

definition command_wire :: "(pb_command \<Rightarrow> string option) \<Rightarrow> (string \<Rightarrow> pb_command option) \<Rightarrow> command \<Rightarrow> bool" where
  "command_wire ser parse c \<longleftrightarrow>
     length (getUUID c) = 16 \<and>
     (case ser (command_message c) of None \<Rightarrow> False | Some s \<Rightarrow> parse s = Some (command_message c))"

lemma entry_roundtrip:
  assumes "command_wire ser parse (le_command e)"
  shows "bind_outcome (entry_message ser e) (entry_of_message parse) = Inr (wire_entry e)"
  using assms
  by (auto simp: command_wire_def entry_message_def entry_of_message_def serialize_def
      commandFactory_def command_message_roundtrip wire_entry_def split: option.splits)

lemma entries_roundtrip:
  assumes "\<forall>e \<in> set es. command_wire ser parse (le_command e)"
  shows "bind_outcome (map_outcome (entry_message ser) es) (map_outcome (entry_of_message parse)) =
    Inr (map wire_entry es)"
  using assms
proof (induction es)
  case Nil
  then show ?case by simp
next
  case (Cons e es)
  from Cons.prems entry_roundtrip [of ser parse e]
  obtain m where "entry_message ser e = Inr m" "entry_of_message parse m = Inr (wire_entry e)"
    by (auto simp: bind_outcome_Inr)
  moreover from Cons obtain ms where "map_outcome (entry_message ser) es = Inr ms"
    "map_outcome (entry_of_message parse) ms = Inr (map wire_entry es)"
    by (auto simp: bind_outcome_Inr)
  ultimately show ?case by simp
qed

text \<open>
  An AppendEntries argument survives the wire: the receiver reads the same header and
  entries that are equal to the sent ones under the code's own entry equality, index by index.
\<close>

theorem AppendEntriesArg_wire:
  assumes "\<forall>e \<in> set (log_data (ae_entries a)). command_wire ser parse (le_command e)"
  shows "bind_outcome (AppendEntriesArg_message ser a) (AppendEntriesArg_of_message parse) =
      Inr (a\<lparr>ae_entries := log_of (map wire_entry (log_data (ae_entries a)))\<rparr>)
    \<and> list_all2 entry_eq (log_data (ae_entries a)) (map wire_entry (log_data (ae_entries a)))"
proof
  from entries_roundtrip [OF assms] obtain ms
    where "map_outcome (entry_message ser) (log_data (ae_entries a)) = Inr ms"
      "map_outcome (entry_of_message parse) ms = Inr (map wire_entry (log_data (ae_entries a)))"
    by (auto simp: bind_outcome_Inr)
  then show "bind_outcome (AppendEntriesArg_message ser a) (AppendEntriesArg_of_message parse) =
      Inr (a\<lparr>ae_entries := log_of (map wire_entry (log_data (ae_entries a)))\<rparr>)"
    by (simp add: AppendEntriesArg_message_def AppendEntriesArg_of_message_def fold_log_append
        log_new_def log_of_def)
qed (simp add: list_all2_conv_all_nth)

definition sample_arg :: AppendEntriesArg where
  "sample_arg = mk_AppendEntriesArg ''a'' 1 0 0 0
     (log_of [\<lparr>le_index = 1, le_term = 1, le_command = Get_new zero_uuid (mk_key ''k'')\<rparr>])"

theorem AppendEntriesArg_wire_witness:
  "bind_outcome (AppendEntriesArg_message (\<lambda>m. Some (enc_command m)) sample_arg)
     (AppendEntriesArg_of_message (whole dec_command)) = Inr sample_arg"
proof -
  have w: "\<forall>e \<in> set (log_data (ae_entries sample_arg)).
      command_wire (\<lambda>m. Some (enc_command m)) (whole dec_command) (le_command e)"
    by (simp add: command_wire_def whole_roundtrip [OF codec_command] sample_arg_def
        mk_AppendEntriesArg_def log_data_def log_of_def getUUID_def Get_new_def fresh_hdr_def zero_uuid_def)
  have "sample_arg\<lparr>ae_entries := log_of (map wire_entry (log_data (ae_entries sample_arg)))\<rparr> = sample_arg"
    by (simp add: sample_arg_def mk_AppendEntriesArg_def log_data_def log_of_def wire_entry_def
        Get_new_def fresh_hdr_def)
  with AppendEntriesArg_wire [OF w] show ?thesis by simp
qed

text \<open>
  The two votes messages, the snapshot messages and the AppendEntries reply are read back
  unchanged, and a reply constructor throws on a message of any other type.
\<close>

theorem raft_replies_wire:
  "AppendEntriesReply_of_message (AppendEntriesReply_message r) = Inr r
   \<and> RequestVoteArg_of_message (RequestVoteArg_message a) = Inr a
   \<and> RequestVoteReply_of_message (RequestVoteReply_message v) = Inr v
   \<and> InstallSnapshotArg_of_message (InstallSnapshotArg_message s) = Inr s
   \<and> InstallSnapshotReply_of_message (InstallSnapshotReply_message q) = Inr q
   \<and> RequestVoteReply_of_message (AppendEntriesReply_message r) = Inl (RuntimeError ''Invalid message type'')
   \<and> AppendEntriesReply_of_message (InstallSnapshotReply_message q) = Inl (RuntimeError ''Invalid message type'')
   \<and> InstallSnapshotReply_of_message (RequestVoteReply_message v) = Inl (RuntimeError ''Invalid message type'')"
  by (simp add: AppendEntriesReply_of_message_def AppendEntriesReply_message_def
      RequestVoteArg_of_message_def RequestVoteArg_message_def mk_RequestVoteArg_def
      RequestVoteReply_of_message_def RequestVoteReply_message_def mk_RequestVoteReply_def
      InstallSnapshotArg_of_message_def InstallSnapshotArg_message_def mk_InstallSnapshotArg_def
      InstallSnapshotReply_of_message_def InstallSnapshotReply_message_def)

end
