(* ===== verification/Persist.thy ===== *)
theory Persist
  imports RaftTypes
begin

text \<open>
  The stable storage of a server: the interface \<open>src/include/storage/Persister.hpp\<close>, the
  implementation the server binary uses (\<open>src/storage/FilePersister.cpp\<close>), and the one of
  the Go tests: \<open>src/goRaft/cgo/GoPersister.cpp\<close> with the callbacks of
  \<open>src/goRaft/cgo_callbacks.go\<close> on top of the in-memory store
  \<open>6.5840/src/tester1/persister.go\<close>. Protocol buffers and gob are arguments (\<open>ser\<close>,
  \<open>parse\<close>, \<open>genc\<close>, \<open>gdec\<close>).

  A save replaces what an earlier save stored, so a store is described by the function from
  the state last saved (\<open>None\<close>: none yet) to the result of \<open>load\<close>. The locale
  \<open>persister\<close> states what the Raft server relies on.
\<close>

section \<open>The contract\<close>

type_synonym stable_load = "PersistentState option \<Rightarrow> PersistentState outcome"

definition same_state :: "PersistentState \<Rightarrow> PersistentState \<Rightarrow> bool" where
  "same_state s s' \<longleftrightarrow>
     ps_currentTerm s' = ps_currentTerm s \<and>
     (\<forall>v. ps_votedFor s = Some v \<longrightarrow> ps_votedFor s' = Some v) \<and>
     map wire_entry (log_data (ps_log s')) = map wire_entry (log_data (ps_log s)) \<and>
     ps_snapshotData s' = ps_snapshotData s \<and>
     ps_lastIncludedIndex s' = ps_lastIncludedIndex s \<and> ps_lastIncludedTerm s' = ps_lastIncludedTerm s"

locale persister =
  fixes load :: stable_load
    and storable :: "PersistentState \<Rightarrow> bool"
  assumes load_fresh: "load None = Inr PersistentState_default"
    and load_saved: "storable s \<Longrightarrow> \<exists>s'. load (Some s) = Inr s' \<and> same_state s s'"
begin

lemma load_keeps_vote:
  assumes "storable s" and "load (Some s) = Inr s'"
  shows "ps_currentTerm s' = ps_currentTerm s" and "ps_votedFor s = Some v \<Longrightarrow> ps_votedFor s' = Some v"
  using load_saved [OF assms(1)] assms(2) by (auto simp: same_state_def)

end

section \<open>The file persister\<close>

definition FilePersister_loadBuffer :: string where
  "FilePersister_loadBuffer = ''''"

definition FilePersister_load :: stable_load where
  "FilePersister_load saved = Inr PersistentState_default"

text \<open>It keeps the contract only as far as nothing that was saved is ever loaded again.\<close>

interpretation fp: persister FilePersister_load "\<lambda>_. False"
  by unfold_locales (simp_all add: FilePersister_load_def)

section \<open>The Go persister\<close>

record pb_persistent =
  pp_currentTerm :: u64
  pp_votedFor :: "string option"
  pp_log :: "pb_entry list"
  pp_snapshot :: string
  pp_lastIncludedIndex :: u64
  pp_lastIncludedTerm :: u64

text \<open>The fields of the Go structure that are gob-encoded, in their order.\<close>

record go_raftstate =
  gs_CurrentTerm :: u64
  gs_VotedFor :: string
  gs_Log :: "pb_entry list"
  gs_LastIncludedIndex :: u64
  gs_LastIncludedTerm :: u64

record tester_persister =
  raftstate :: string
  snapshot :: string

definition MakePersister :: tester_persister where
  "MakePersister = \<lparr>raftstate = '''', snapshot = ''''\<rparr>"

definition tester_save :: "string \<Rightarrow> string \<Rightarrow> tester_persister \<Rightarrow> tester_persister" where
  "tester_save rs sn p = p\<lparr>raftstate := rs, snapshot := sn\<rparr>"

text \<open>A handle that is not registered is not modelled: the wrapper registers it before use.\<close>

definition persister_go_invoke_callback :: "(string \<Rightarrow> pb_persistent option) \<Rightarrow> (go_raftstate \<Rightarrow> string)
    \<Rightarrow> tester_persister \<Rightarrow> string \<Rightarrow> int \<times> tester_persister" where
  "persister_go_invoke_callback parse genc p d =
     (case parse d of
        None \<Rightarrow> (1, p)
      | Some m \<Rightarrow>
          let state = \<lparr>gs_CurrentTerm = pp_currentTerm m,
                gs_VotedFor = (case pp_votedFor m of None \<Rightarrow> '''' | Some v \<Rightarrow> v),
                gs_Log = pp_log m, gs_LastIncludedIndex = pp_lastIncludedIndex m,
                gs_LastIncludedTerm = pp_lastIncludedTerm m\<rparr>
          in (0, tester_save (genc state) (pp_snapshot m) p))"

text \<open>The result \<open>None\<close> stands for the length -1.\<close>

definition persister_go_read_callback :: "(pb_persistent \<Rightarrow> string) \<Rightarrow> (string \<Rightarrow> go_raftstate option)
    \<Rightarrow> tester_persister \<Rightarrow> nat \<Rightarrow> string option" where
  "persister_go_read_callback ser gdec p out_len =
     (if length (raftstate p) < 1 then None
      else case gdec (raftstate p) of
        None \<Rightarrow> None
      | Some state \<Rightarrow>
          let stateBytes = ser \<lparr>pp_currentTerm = gs_CurrentTerm state, pp_votedFor = Some (gs_VotedFor state),
                pp_log = gs_Log state, pp_snapshot = snapshot p,
                pp_lastIncludedIndex = gs_LastIncludedIndex state,
                pp_lastIncludedTerm = gs_LastIncludedTerm state\<rparr>
          in if length stateBytes > out_len then None else Some stateBytes)"

definition bufferSize :: nat where
  "bufferSize = 8 * 1024 * 1024"

definition GoPersister_loadBuffer :: "(pb_persistent \<Rightarrow> string) \<Rightarrow> (string \<Rightarrow> go_raftstate option)
    \<Rightarrow> tester_persister \<Rightarrow> string" where
  "GoPersister_loadBuffer ser gdec p =
     (case persister_go_read_callback ser gdec p bufferSize of None \<Rightarrow> '''' | Some b \<Rightarrow> b)"

definition GoPersister_load :: "(string \<Rightarrow> pb_command option) \<Rightarrow> (pb_persistent \<Rightarrow> string)
    \<Rightarrow> (string \<Rightarrow> pb_persistent option) \<Rightarrow> (string \<Rightarrow> go_raftstate option)
    \<Rightarrow> tester_persister \<Rightarrow> PersistentState outcome" where
  "GoPersister_load cparse ser parse gdec p =
     (let buffer = GoPersister_loadBuffer ser gdec p in
      if buffer = '''' then Inr PersistentState_default
      else case parse buffer of
        None \<Rightarrow> Inr PersistentState_default
      | Some m \<Rightarrow>
          bind_outcome (map_outcome (entry_of_message cparse) (pp_log m)) (\<lambda>es.
            Inr \<lparr>ps_currentTerm = pp_currentTerm m, ps_votedFor = pp_votedFor m,
                 ps_log = fold (\<lambda>e g. log_append g e) es log_new, ps_snapshotData = pp_snapshot m,
                 ps_lastIncludedIndex = pp_lastIncludedIndex m,
                 ps_lastIncludedTerm = pp_lastIncludedTerm m\<rparr>))"

definition GoPersister_save :: "(pb_command \<Rightarrow> string option) \<Rightarrow> (pb_persistent \<Rightarrow> string)
    \<Rightarrow> (string \<Rightarrow> pb_persistent option) \<Rightarrow> (go_raftstate \<Rightarrow> string)
    \<Rightarrow> PersistentState \<Rightarrow> tester_persister \<Rightarrow> tester_persister outcome" where
  "GoPersister_save cser ser parse genc s p =
     bind_outcome (map_outcome (entry_message cser) (log_data (ps_log s))) (\<lambda>es.
       Inr (snd (persister_go_invoke_callback parse genc p
         (ser \<lparr>pp_currentTerm = ps_currentTerm s, pp_votedFor = ps_votedFor s, pp_log = es,
               pp_snapshot = ps_snapshotData s, pp_lastIncludedIndex = ps_lastIncludedIndex s,
               pp_lastIncludedTerm = ps_lastIncludedTerm s\<rparr>))))"

text \<open>What \<open>load\<close> returns as a function of the state last saved.\<close>

definition go_load :: "(pb_command \<Rightarrow> string option) \<Rightarrow> (string \<Rightarrow> pb_command option)
    \<Rightarrow> (pb_persistent \<Rightarrow> string) \<Rightarrow> (string \<Rightarrow> pb_persistent option)
    \<Rightarrow> (go_raftstate \<Rightarrow> string) \<Rightarrow> (string \<Rightarrow> go_raftstate option) \<Rightarrow> stable_load" where
  "go_load cser cparse ser parse genc gdec saved =
     (case saved of
        None \<Rightarrow> GoPersister_load cparse ser parse gdec MakePersister
      | Some s \<Rightarrow> bind_outcome (GoPersister_save cser ser parse genc s MakePersister)
          (GoPersister_load cparse ser parse gdec))"

text \<open>The message the read callback builds for a state, and when the state can be read back.\<close>

definition go_message :: "PersistentState \<Rightarrow> pb_entry list \<Rightarrow> pb_persistent" where
  "go_message s es =
     \<lparr>pp_currentTerm = ps_currentTerm s,
      pp_votedFor = Some (case ps_votedFor s of None \<Rightarrow> '''' | Some v \<Rightarrow> v), pp_log = es,
      pp_snapshot = ps_snapshotData s, pp_lastIncludedIndex = ps_lastIncludedIndex s,
      pp_lastIncludedTerm = ps_lastIncludedTerm s\<rparr>"

definition go_storable :: "(pb_command \<Rightarrow> string option) \<Rightarrow> (string \<Rightarrow> pb_command option)
    \<Rightarrow> (pb_persistent \<Rightarrow> string) \<Rightarrow> PersistentState \<Rightarrow> bool" where
  "go_storable cser cparse ser s \<longleftrightarrow>
     (\<forall>e \<in> set (log_data (ps_log s)). command_wire cser cparse (le_command e)) \<and>
     (case map_outcome (entry_message cser) (log_data (ps_log s)) of
        Inl _ \<Rightarrow> False
      | Inr es \<Rightarrow> length (ser (go_message s es)) \<le> bufferSize)"

text \<open>The state that comes back: a vote is always present, \<open>''\<close> when none was cast.\<close>

definition go_reloaded :: "PersistentState \<Rightarrow> PersistentState" where
  "go_reloaded s = s\<lparr>ps_votedFor := Some (case ps_votedFor s of None \<Rightarrow> '''' | Some v \<Rightarrow> v),
     ps_log := log_of (map wire_entry (log_data (ps_log s)))\<rparr>"

section \<open>The Go persister keeps the contract\<close>

lemma save_overwrites:
  assumes "\<And>m. parse (ser m) = Some m"
  shows "GoPersister_save cser ser parse genc s p = GoPersister_save cser ser parse genc s MakePersister"
  by (cases p) (simp add: GoPersister_save_def persister_go_invoke_callback_def assms tester_save_def
      MakePersister_def)

text \<open>The library laws: protocol buffers and gob read back what they wrote, and neither writes nothing.\<close>

locale go_codecs =
  fixes cser :: "pb_command \<Rightarrow> string option" and cparse :: "string \<Rightarrow> pb_command option"
    and ser :: "pb_persistent \<Rightarrow> string" and parse :: "string \<Rightarrow> pb_persistent option"
    and genc :: "go_raftstate \<Rightarrow> string" and gdec :: "string \<Rightarrow> go_raftstate option"
  assumes parse_ser: "parse (ser m) = Some m"
    and gdec_genc: "gdec (genc g) = Some g"
    and ser_nonempty: "pp_votedFor m \<noteq> None \<Longrightarrow> ser m \<noteq> ''''"
    and genc_nonempty: "genc g \<noteq> ''''"
begin

lemma go_load_fresh: "go_load cser cparse ser parse genc gdec None = Inr PersistentState_default"
  by (simp add: go_load_def GoPersister_load_def GoPersister_loadBuffer_def
      persister_go_read_callback_def MakePersister_def)

lemma go_load_saved:
  assumes "go_storable cser cparse ser s"
  shows "go_load cser cparse ser parse genc gdec (Some s) = Inr (go_reloaded s)"
proof -
  from assms obtain es where es: "map_outcome (entry_message cser) (log_data (ps_log s)) = Inr es"
    and len: "length (ser (go_message s es)) \<le> bufferSize"
    by (auto simp: go_storable_def split: sum.splits)
  have rd: "map_outcome (entry_of_message cparse) es = Inr (map wire_entry (log_data (ps_log s)))"
    using entries_roundtrip [of "log_data (ps_log s)" cser cparse] assms es
    by (simp add: go_storable_def)
  have ne: "ser (go_message s es) \<noteq> ''''" by (rule ser_nonempty) (simp add: go_message_def)
  have "GoPersister_save cser ser parse genc s MakePersister =
      Inr \<lparr>raftstate = genc \<lparr>gs_CurrentTerm = ps_currentTerm s,
            gs_VotedFor = (case ps_votedFor s of None \<Rightarrow> '''' | Some v \<Rightarrow> v), gs_Log = es,
            gs_LastIncludedIndex = ps_lastIncludedIndex s, gs_LastIncludedTerm = ps_lastIncludedTerm s\<rparr>,
          snapshot = ps_snapshotData s\<rparr>"
    by (simp add: GoPersister_save_def es persister_go_invoke_callback_def parse_ser tester_save_def
        MakePersister_def)
  then show ?thesis
    using len ne rd
    by (simp add: go_load_def GoPersister_load_def GoPersister_loadBuffer_def
        persister_go_read_callback_def genc_nonempty gdec_genc go_message_def [symmetric] parse_ser
        Let_def not_less)
      (simp add: go_message_def go_reloaded_def fold_log_append log_new_def log_of_def)
qed

lemma same_state_reloaded: "same_state s (go_reloaded s)"
  by (simp add: same_state_def go_reloaded_def log_of_def log_data_def)

end

sublocale go_codecs \<subseteq> go: persister "go_load cser cparse ser parse genc gdec" "go_storable cser cparse ser"
  by unfold_locales (use go_load_fresh go_load_saved same_state_reloaded in blast)+

text \<open>Concrete codecs.\<close>

definition enc_entry :: "pb_entry \<Rightarrow> string" where
  "enc_entry = enc_via (\<lambda>e. (pe_index e, pe_term e, pe_command e)) (enc_pair enc_u64 (enc_pair enc_u64 enc_string))"

definition dec_entry :: "string \<Rightarrow> (pb_entry \<times> string) option" where
  "dec_entry = dec_via (\<lambda>(i, t, c). \<lparr>pe_index = i, pe_term = t, pe_command = c\<rparr>)
     (dec_pair dec_u64 (dec_pair dec_u64 dec_string))"

lemma codec_entry: "codec enc_entry dec_entry"
  unfolding enc_entry_def dec_entry_def by (rule codec_via) (simp_all add: codecs)

definition enc_persistent :: "pb_persistent \<Rightarrow> string" where
  "enc_persistent = enc_via (\<lambda>m. (pp_currentTerm m, pp_votedFor m, pp_log m, pp_snapshot m,
       pp_lastIncludedIndex m, pp_lastIncludedTerm m))
     (enc_pair enc_u64 (enc_pair (enc_option enc_string) (enc_pair (enc_list enc_entry)
       (enc_pair enc_string (enc_pair enc_u64 enc_u64)))))"

definition dec_persistent :: "string \<Rightarrow> (pb_persistent \<times> string) option" where
  "dec_persistent = dec_via (\<lambda>(t, v, l, s, i, lt). \<lparr>pp_currentTerm = t, pp_votedFor = v, pp_log = l,
       pp_snapshot = s, pp_lastIncludedIndex = i, pp_lastIncludedTerm = lt\<rparr>)
     (dec_pair dec_u64 (dec_pair (dec_option dec_string) (dec_pair (dec_list dec_entry)
       (dec_pair dec_string (dec_pair dec_u64 dec_u64)))))"

lemma codec_persistent: "codec enc_persistent dec_persistent"
  unfolding enc_persistent_def dec_persistent_def by (rule codec_via) (simp_all add: codecs codec_entry)

definition enc_raftstate :: "go_raftstate \<Rightarrow> string" where
  "enc_raftstate = enc_via (\<lambda>g. (gs_CurrentTerm g, gs_VotedFor g, gs_Log g,
       gs_LastIncludedIndex g, gs_LastIncludedTerm g))
     (enc_pair enc_u64 (enc_pair enc_string (enc_pair (enc_list enc_entry) (enc_pair enc_u64 enc_u64))))"

definition dec_raftstate :: "string \<Rightarrow> (go_raftstate \<times> string) option" where
  "dec_raftstate = dec_via (\<lambda>(t, v, l, i, lt). \<lparr>gs_CurrentTerm = t, gs_VotedFor = v, gs_Log = l,
       gs_LastIncludedIndex = i, gs_LastIncludedTerm = lt\<rparr>)
     (dec_pair dec_u64 (dec_pair dec_string (dec_pair (dec_list dec_entry) (dec_pair dec_u64 dec_u64))))"

lemma codec_raftstate: "codec enc_raftstate dec_raftstate"
  unfolding enc_raftstate_def dec_raftstate_def by (rule codec_via) (simp_all add: codecs codec_entry)

lemma enc_u64_nonempty: "enc_pair enc_u64 e p \<noteq> ''''"
  by (cases "unat (fst p)") (simp_all add: enc_pair_def enc_u64_def enc_via_def)

lemma enc_persistent_nonempty: "enc_persistent m \<noteq> ''''"
  by (simp add: enc_persistent_def enc_via_def enc_u64_nonempty)

lemma enc_raftstate_nonempty: "enc_raftstate g \<noteq> ''''"
  by (simp add: enc_raftstate_def enc_via_def enc_u64_nonempty)

interpretation gop: go_codecs "\<lambda>m. Some (enc_command m)" "whole dec_command" enc_persistent
  "whole dec_persistent" enc_raftstate "whole dec_raftstate"
  by unfold_locales
    (simp_all add: whole_roundtrip [OF codec_persistent] whole_roundtrip [OF codec_raftstate]
      enc_persistent_nonempty enc_raftstate_nonempty)

section \<open>The properties\<close>

text \<open>
  C33: what the Go persister saves it reads back: the same term, the vote that was cast, the
  same snapshot and compaction point, and a log equal under the code's entry equality; provided
  the message fits the 8 MiB buffer and protocol buffers and gob decode what they encoded.
\<close>

theorem GoPersister_roundtrip:
  assumes "\<And>m. parse (ser m) = Some m" and "\<And>g. gdec (genc g) = Some g"
    and "\<And>m. pp_votedFor m \<noteq> None \<Longrightarrow> ser m \<noteq> ''''" and "\<And>g. genc g \<noteq> ''''"
    and "go_storable cser cparse ser s"
  shows "\<exists>s'. bind_outcome (GoPersister_save cser ser parse genc s p)
      (GoPersister_load cparse ser parse gdec) = Inr s' \<and> same_state s s'"
proof -
  have "go_codecs ser parse genc gdec" using assms(1-4) by (intro go_codecs.intro)
  then have "go_load cser cparse ser parse genc gdec (Some s) = Inr (go_reloaded s)"
    "same_state s (go_reloaded s)"
    using assms(5) by (simp_all add: go_codecs.go_load_saved go_codecs.same_state_reloaded)
  then show ?thesis
    using save_overwrites [of parse ser cser genc s p] assms(1) by (simp add: go_load_def)
qed

definition voted_state :: PersistentState where
  "voted_state = mk_PersistentState 3 (Some ''b'') log_new '''' 0 0"

lemma length_enc_nat: "length (enc_nat n) = Suc n"
  by (induction n) auto

lemma sample_storable:
  assumes "ps_log s = log_new" "ps_currentTerm s = 3" "ps_snapshotData s = ''''"
    "ps_lastIncludedIndex s = 0" "ps_lastIncludedTerm s = 0" "ps_votedFor s \<in> {None, Some ''b''}"
  shows "go_storable (\<lambda>m. Some (enc_command m)) (whole dec_command) enc_persistent s"
  using assms
  by (auto simp: go_storable_def log_data_def log_new_def go_message_def
      enc_persistent_def enc_via_def enc_pair_def enc_u64_def enc_option_def enc_list_def bufferSize_def
      length_enc_nat enc_char_def)

theorem GoPersister_roundtrip_witness:
  "\<exists>s'. bind_outcome (GoPersister_save (\<lambda>m. Some (enc_command m)) enc_persistent (whole dec_persistent)
       enc_raftstate voted_state MakePersister)
     (GoPersister_load (whole dec_command) enc_persistent (whole dec_persistent) (whole dec_raftstate)) =
     Inr s' \<and> same_state voted_state s'"
  by (rule GoPersister_roundtrip)
    (simp_all add: whole_roundtrip [OF codec_persistent] whole_roundtrip [OF codec_raftstate]
      enc_persistent_nonempty enc_raftstate_nonempty sample_storable voted_state_def
      mk_PersistentState_def log_merge_def log_clear_def log_new_def log_data_def)

text \<open>
  A server that had not voted in its term comes back from the Go persister with a vote for
  the empty identifier, so it refuses every candidate of that term.
\<close>

theorem GoPersister_invents_vote:
  assumes "\<And>m. parse (ser m) = Some m" and "\<And>g. gdec (genc g) = Some g"
    and "\<And>m. pp_votedFor m \<noteq> None \<Longrightarrow> ser m \<noteq> ''''" and "\<And>g. genc g \<noteq> ''''"
    and "go_storable cser cparse ser s" and "ps_votedFor s = None"
  shows "\<exists>s'. go_load cser cparse ser parse genc gdec (Some s) = Inr s' \<and> ps_votedFor s' = Some ''''"
proof -
  have "go_codecs ser parse genc gdec" using assms(1-4) by (intro go_codecs.intro)
  from go_codecs.go_load_saved [OF this assms(5)] assms(6) show ?thesis
    by (simp add: go_reloaded_def)
qed

theorem GoPersister_invents_vote_witness:
  "\<exists>s'. go_load (\<lambda>m. Some (enc_command m)) (whole dec_command) enc_persistent (whole dec_persistent)
      enc_raftstate (whole dec_raftstate) (Some (mk_PersistentState 3 None log_new '''' 0 0)) = Inr s' \<and>
     ps_votedFor s' = Some ''''"
  by (rule GoPersister_invents_vote)
    (simp_all add: whole_roundtrip [OF codec_persistent] whole_roundtrip [OF codec_raftstate]
      enc_persistent_nonempty enc_raftstate_nonempty sample_storable
      mk_PersistentState_def log_merge_def log_clear_def log_new_def log_data_def)

text \<open>
  The file persister the server binary runs with does not keep the contract: no state with
  a term comes back.
\<close>

theorem FilePersister_forgets:
  assumes "storable s" and "ps_currentTerm s \<noteq> 0"
  shows "\<not> persister FilePersister_load storable"
proof
  assume "persister FilePersister_load storable"
  from persister.load_saved [OF this assms(1)] assms(2) show False
    by (auto simp: FilePersister_load_def same_state_def PersistentState_default_def)
qed

theorem FilePersister_forgets_witness:
  "\<not> persister FilePersister_load (\<lambda>_. True)"
  using FilePersister_forgets [of "\<lambda>_. True" voted_state]
  by (simp add: voted_state_def mk_PersistentState_def)

end
