(* ===== verification/Retry.thy ===== *)
theory Retry
  imports Errors
begin

text \<open>
  \<open>src/include/common/RetryPolicy.hpp\<close>, \<open>src/common/RetryPolicy.cpp\<close>,
  \<open>src/common/ExponentialBackoff.cpp\<close>, \<open>src/common/FullJitter.cpp\<close>,
  \<open>src/common/Repeater.cpp\<close> and \<open>src/common/CircuitBreaker.cpp\<close>: how a remote call is
  retried. Durations are counts of microseconds (milliseconds for the two timeouts).

  What the code reads from outside is an \<open>env\<close>: the status of the n-th remote call, what the
  other threads make of the shared stop flag before its n-th load, the n-th draw of the random
  generator and the n-th reading of the steady clock. The record \<open>world\<close> counts the
  accesses and holds the flag.
\<close>

section \<open>The policy\<close>

record RetryPolicy =
  baseDelay :: int
  maxDelay :: int
  resetTimeout :: int
  failureThreshold :: int
  servicesToTry :: int
  rpcTimeout :: int
  channelTimeout :: int

definition mk_RetryPolicy :: "int \<Rightarrow> int \<Rightarrow> int \<Rightarrow> int \<Rightarrow> int \<Rightarrow> int \<Rightarrow> int \<Rightarrow> RetryPolicy outcome" where
  "mk_RetryPolicy base maxd reset threshold services rpc channel =
     (if threshold < 0 then Inl (InvalidArgument ''Failure threshold must be >= zero.'')
      else if services < 0 then Inl (InvalidArgument ''Services to try must be >= zero.'')
      else if base < 0 then Inl (InvalidArgument ''Base delay must be >= zero.'')
      else if maxd < 0 then Inl (InvalidArgument ''Max delay must be >= zero.'')
      else if reset < 0 then Inl (InvalidArgument ''Reset timeout must be >= zero.'')
      else if rpc < 0 then Inl (InvalidArgument ''RPC timeout must be >= zero.'')
      else if channel < 0 then Inl (InvalidArgument ''Channel timeout must be >= zero.'')
      else if maxd < base then Inl (InvalidArgument ''Max delay must be >= base delay.'')
      else Inr \<lparr>baseDelay = base, maxDelay = maxd, resetTimeout = reset, failureThreshold = threshold,
             servicesToTry = services, rpcTimeout = rpc, channelTimeout = channel\<rparr>)"

text \<open>
  What the constructor establishes, and that the two delays fit the 64-bit representation of
  \<open>std::chrono::microseconds\<close>.
\<close>

definition policy_ok :: "RetryPolicy \<Rightarrow> bool" where
  "policy_ok p \<longleftrightarrow> 0 \<le> failureThreshold p \<and> 0 \<le> servicesToTry p \<and> 0 \<le> baseDelay p \<and>
     baseDelay p \<le> maxDelay p \<and> 0 \<le> resetTimeout p \<and> 0 \<le> rpcTimeout p \<and> 0 \<le> channelTimeout p \<and>
     maxDelay p < 2 ^ 63"

section \<open>Backoff and jitter\<close>

record ExponentialBackoff =
  policy :: RetryPolicy
  attempt :: int

definition mk_ExponentialBackoff :: "RetryPolicy \<Rightarrow> ExponentialBackoff" where
  "mk_ExponentialBackoff p = \<lparr>policy = p, attempt = 0\<rparr>"

text \<open>A shift of a 64-bit value by 64 or more is undefined behaviour.\<close>

definition nextDelay :: "ExponentialBackoff \<Rightarrow> (int option \<times> ExponentialBackoff) outcome" where
  "nextDelay b =
     (if attempt b \<ge> failureThreshold (policy b) - 1 then Inr (None, b)
      else if attempt b \<ge> 64 then Inl UndefinedShift
      else let baseCount = (word_of_int (baseDelay (policy b)) :: u64);
               delay = baseCount * push_bit (nat (attempt b)) 1
           in Inr (Some (uint (min delay (word_of_int (maxDelay (policy b))))),
                   b\<lparr>attempt := attempt b + 1\<rparr>))"

definition backoff_reset :: "ExponentialBackoff \<Rightarrow> ExponentialBackoff" where
  "backoff_reset b = b\<lparr>attempt := 0\<rparr>"

text \<open>\<open>draw\<close> is the value of the uniform distribution on the interval from 0 to \<open>v\<close>.\<close>

definition jitter :: "int \<Rightarrow> int \<Rightarrow> int outcome" where
  "jitter draw v =
     (if v < 0 then Inl (InvalidArgument ''Negative duration is not supported'') else Inr draw)"

section \<open>The environment\<close>

record env =
  env_rpc :: "nat \<Rightarrow> Status"
  env_flag :: "nat \<Rightarrow> bool \<Rightarrow> bool"
  env_draw :: "nat \<Rightarrow> int \<Rightarrow> int"
  env_clock :: "nat \<Rightarrow> int"
  env_details :: "string \<Rightarrow> ErrorDetails option"

record world =
  w_rpcs :: nat
  w_loads :: nat
  w_draws :: nat
  w_clocks :: nat
  w_flag :: bool
  w_slept :: int

definition world_init :: world where
  "world_init = \<lparr>w_rpcs = 0, w_loads = 0, w_draws = 0, w_clocks = 0, w_flag = False, w_slept = 0\<rparr>"

definition load_flag :: "env \<Rightarrow> world \<Rightarrow> world" where
  "load_flag E w = w\<lparr>w_loads := w_loads w + 1, w_flag := env_flag E (w_loads w) (w_flag w)\<rparr>"

definition call_rpc :: "env \<Rightarrow> world \<Rightarrow> Status \<times> world" where
  "call_rpc E w = (env_rpc E (w_rpcs w), w\<lparr>w_rpcs := w_rpcs w + 1\<rparr>)"

definition read_clock :: "env \<Rightarrow> world \<Rightarrow> int \<times> world" where
  "read_clock E w = (env_clock E (w_clocks w), w\<lparr>w_clocks := w_clocks w + 1\<rparr>)"

definition stopped_status :: Status where
  "stopped_status = mk_Status CANCELLED ''Repeater stopped''"

section \<open>The repeater\<close>

text \<open>The sleep in slices of at most a millisecond, each preceded by a look at the flag.\<close>

function sleep_loop :: "env \<Rightarrow> int \<Rightarrow> world \<Rightarrow> world" where
  "sleep_loop E remaining w =
     (let w1 = load_flag E w in
      if \<not> w_flag w1 \<and> remaining > 0
      then let step = min remaining 1000
           in sleep_loop E (remaining - step) (w1\<lparr>w_slept := w_slept w1 + step\<rparr>)
      else w1)"
  by pat_completeness auto
termination
  by (relation "measure (\<lambda>(E, r, w). nat r)") auto

declare sleep_loop.simps [simp del]

text \<open>
  The loop of \<open>attempt\<close>. Every turn that does not return has increased the attempt counter
  of the backoff, which is bounded by the policy.
\<close>

function repeat_loop :: "env \<Rightarrow> string \<Rightarrow> ExponentialBackoff \<Rightarrow> world \<Rightarrow> Status list
    \<Rightarrow> (Status list \<times> ExponentialBackoff \<times> world) outcome" where
  "repeat_loop E op b w statuses =
     (let w1 = load_flag E w in
      if w_flag w1 then Inr (statuses @ [stopped_status], b, w1)
      else
        let (status, w2) = call_rpc E w1; w3 = load_flag E w2 in
        if w_flag w3 then Inr (statuses @ [stopped_status], b, w3)
        else if status_ok status then Inr (statuses @ [status], backoff_reset b, w3)
        else case toError (env_details E) status of
          Inl x \<Rightarrow> Inl x
        | Inr e \<Rightarrow>
            if \<not> isRetriable op (err_code e) then Inr (statuses @ [status], backoff_reset b, w3)
            else case nextDelay b of
              Inl x \<Rightarrow> Inl x
            | Inr (None, b') \<Rightarrow> Inr (statuses @ [status], b', w3)
            | Inr (Some v, b') \<Rightarrow>
                (case jitter (env_draw E (w_draws w3) v) v of
                   Inl x \<Rightarrow> Inl x
                 | Inr d \<Rightarrow>
                     let w4 = load_flag E (sleep_loop E d (w3\<lparr>w_draws := w_draws w3 + 1\<rparr>)) in
                     if w_flag w4 then Inr (statuses @ [status, stopped_status], b', w4)
                     else repeat_loop E op b' w4 (statuses @ [status])))"
  by pat_completeness auto
termination
  by (relation "measure (\<lambda>(E, op, b, w, ss). nat (failureThreshold (policy b) - 1 - attempt b))")
    (auto simp: nextDelay_def Let_def split: if_splits)

declare repeat_loop.simps [simp del]

definition repeater_attempt :: "env \<Rightarrow> string \<Rightarrow> ExponentialBackoff \<Rightarrow> world
    \<Rightarrow> (Status list \<times> ExponentialBackoff \<times> world) outcome" where
  "repeater_attempt E op b w = repeat_loop E op b w []"

definition repeater_reset :: "ExponentialBackoff \<Rightarrow> world \<Rightarrow> ExponentialBackoff \<times> world" where
  "repeater_reset b w = (backoff_reset b, w\<lparr>w_flag := False\<rparr>)"

definition repeater_stop :: "world \<Rightarrow> world" where
  "repeater_stop w = w\<lparr>w_flag := True\<rparr>"

section \<open>The circuit breaker\<close>

datatype breaker_state = BOpen | BClosed | BHalfOpen

record CircuitBreaker =
  cb_state :: breaker_state
  cb_policy :: RetryPolicy
  cb_repeater :: ExponentialBackoff
  cb_lastFailureTime :: int

definition mk_CircuitBreaker :: "RetryPolicy \<Rightarrow> CircuitBreaker" where
  "mk_CircuitBreaker p =
     \<lparr>cb_state = BClosed, cb_policy = p, cb_repeater = mk_ExponentialBackoff p, cb_lastFailureTime = 0\<rparr>"

definition breaker_open_status :: Status where
  "breaker_open_status = mk_Status UNAVAILABLE ''Circuit breaker is open''"

definition breaker_fail :: "env \<Rightarrow> CircuitBreaker \<Rightarrow> world \<Rightarrow> CircuitBreaker \<times> world" where
  "breaker_fail E c w =
     (let (now, w') = read_clock E w in (c\<lparr>cb_lastFailureTime := now, cb_state := BOpen\<rparr>, w'))"

text \<open>The case \<open>State::HalfOpen\<close>: one probe, without the repeater.\<close>

definition breaker_probe :: "env \<Rightarrow> string \<Rightarrow> CircuitBreaker \<Rightarrow> world
    \<Rightarrow> (Status list \<times> CircuitBreaker \<times> world) outcome" where
  "breaker_probe E op c w =
     (let (status, w1) = call_rpc E w in
      if status_ok status
      then let (b, w2) = repeater_reset (cb_repeater c) w1
           in Inr ([status], c\<lparr>cb_state := BClosed, cb_repeater := b\<rparr>, w2)
      else bind_outcome (toError (env_details E) status) (\<lambda>e.
        if isRetriable op (err_code e)
        then let (c', w2) = breaker_fail E c w1 in Inr ([status], c', w2)
        else Inr ([status], c\<lparr>cb_state := BClosed\<rparr>, w1)))"

text \<open>The case \<open>State::Closed\<close>. \<open>statuses.back()\<close> of an empty vector would be undefined.\<close>

definition breaker_closed :: "env \<Rightarrow> string \<Rightarrow> CircuitBreaker \<Rightarrow> world
    \<Rightarrow> (Status list \<times> CircuitBreaker \<times> world) outcome" where
  "breaker_closed E op c w =
     bind_outcome (repeater_attempt E op (cb_repeater c) w) (\<lambda>(statuses, b, w1).
       if statuses = [] then Inl OutOfRange
       else if status_ok (last statuses) then Inr (statuses, c\<lparr>cb_repeater := b\<rparr>, w1)
       else bind_outcome (toError (env_details E) (last statuses)) (\<lambda>e.
         if isRetriable op (err_code e)
         then let (c', w2) = breaker_fail E (c\<lparr>cb_repeater := b\<rparr>) w1 in Inr (statuses, c', w2)
         else Inr (statuses, c\<lparr>cb_repeater := b\<rparr>, w1)))"

definition breaker_call :: "env \<Rightarrow> string \<Rightarrow> CircuitBreaker \<Rightarrow> world
    \<Rightarrow> (Status list \<times> CircuitBreaker \<times> world) outcome" where
  "breaker_call E op c w =
     (case cb_state c of
        BOpen \<Rightarrow>
          let (now, w1) = read_clock E w in
          if now - cb_lastFailureTime c < resetTimeout (cb_policy c)
          then Inr ([breaker_open_status], c, w1)
          else breaker_probe E op (c\<lparr>cb_state := BHalfOpen\<rparr>) w1
      | BHalfOpen \<Rightarrow> breaker_probe E op c w
      | BClosed \<Rightarrow> breaker_closed E op c w)"

definition breaker_is_open :: "env \<Rightarrow> CircuitBreaker \<Rightarrow> world \<Rightarrow> bool \<times> CircuitBreaker \<times> world" where
  "breaker_is_open E c w =
     (if cb_state c = BOpen
      then let (now, w1) = read_clock E w;
               c' = (if now - cb_lastFailureTime c \<ge> resetTimeout (cb_policy c)
                     then c\<lparr>cb_state := BHalfOpen\<rparr> else c)
           in (cb_state c' = BOpen, c', w1)
      else (False, c, w))"

definition breaker_stop :: "world \<Rightarrow> world" where
  "breaker_stop w = repeater_stop w"

section \<open>Facts\<close>

lemma mk_RetryPolicy_ok:
  "mk_RetryPolicy base maxd reset threshold services rpc channel = Inr p \<Longrightarrow> maxd < 2 ^ 63 \<Longrightarrow> policy_ok p"
  by (auto simp: mk_RetryPolicy_def policy_ok_def split: if_splits)

lemma load_flag_simps [simp]:
  "w_rpcs (load_flag E w) = w_rpcs w" "w_slept (load_flag E w) = w_slept w"
  "w_draws (load_flag E w) = w_draws w" "w_clocks (load_flag E w) = w_clocks w"
  by (simp_all add: load_flag_def)

lemma call_rpc_simps [simp]:
  "fst (call_rpc E w) = env_rpc E (w_rpcs w)" "w_rpcs (snd (call_rpc E w)) = w_rpcs w + 1"
  "w_slept (snd (call_rpc E w)) = w_slept w"
  by (simp_all add: call_rpc_def)

lemma sleep_loop_frame:
  "w_rpcs (sleep_loop E d w) = w_rpcs w \<and> w_slept w \<le> w_slept (sleep_loop E d w) \<and>
   w_slept (sleep_loop E d w) \<le> w_slept w + max 0 d"
proof (induction E d w rule: sleep_loop.induct)
  case (1 E d w)
  show ?case
  proof (cases "\<not> w_flag (load_flag E w) \<and> 0 < d")
    case True
    with 1 [OF refl True refl] show ?thesis
      by (subst (1 2 3) sleep_loop.simps) (auto simp: Let_def)
  next
    case False
    then show ?thesis by (subst (1 2 3) sleep_loop.simps) (auto simp: Let_def)
  qed
qed

lemma nextDelay_None:
  "nextDelay b = Inr (None, b') \<Longrightarrow> b' = b \<and> failureThreshold (policy b) - 1 \<le> attempt b"
  by (auto simp: nextDelay_def Let_def split: if_splits)

lemma nextDelay_Some:
  assumes "nextDelay b = Inr (Some d, b')" and "policy_ok (policy b)"
  shows "b' = b\<lparr>attempt := attempt b + 1\<rparr> \<and> attempt b < failureThreshold (policy b) - 1 \<and> attempt b < 64
    \<and> 0 \<le> d \<and> d \<le> maxDelay (policy b)"
proof -
  have m: "uint (word_of_int (maxDelay (policy b)) :: u64) = maxDelay (policy b)"
    using assms(2) by (simp add: policy_ok_def unsigned_of_int take_bit_int_eq_self)
  have "uint (min x (word_of_int (maxDelay (policy b)) :: u64)) \<le> maxDelay (policy b)" for x
    using m by (metis min.cobounded2 word_le_def)
  with assms(1) show ?thesis by (auto simp: nextDelay_def Let_def split: if_splits)
qed

lemma nextDelay_total: "attempt b < 64 \<or> failureThreshold (policy b) \<le> 65 \<Longrightarrow> \<exists>r. nextDelay b = Inr r"
  by (auto simp: nextDelay_def Let_def)

lemma jitter_ok: "0 \<le> v \<Longrightarrow> jitter d v = Inr d"
  by (simp add: jitter_def)

definition retriable_failure :: "env \<Rightarrow> string \<Rightarrow> Status \<Rightarrow> bool" where
  "retriable_failure E op s \<longleftrightarrow>
     (case toError (env_details E) s of Inl _ \<Rightarrow> False | Inr e \<Rightarrow> isRetriable op (err_code e))"

text \<open>What one run of the repeater returns.\<close>

definition repeater_result :: "env \<Rightarrow> string \<Rightarrow> ExponentialBackoff \<Rightarrow> world \<Rightarrow> Status list
    \<Rightarrow> (Status list \<times> ExponentialBackoff \<times> world) outcome \<Rightarrow> bool" where
  "repeater_result E op b w ss r \<longleftrightarrow>
     (\<exists>new b' w'. r = Inr (ss @ new, b', w') \<and> new \<noteq> [] \<and> policy b' = policy b \<and>
        (status_ok (last new) \<or> last new = stopped_status \<or> \<not> retriable_failure E op (last new) \<or>
         failureThreshold (policy b) - 1 \<le> attempt b') \<and>
        w_rpcs w' \<le> w_rpcs w + nat (max 1 (failureThreshold (policy b) - attempt b)) \<and>
        w_slept w' \<le> w_slept w + max 0 (failureThreshold (policy b) - 1 - attempt b) * maxDelay (policy b))"

lemma repeater_resultI:
  assumes "policy_ok (policy b)" and "new \<noteq> []" and "policy b' = policy b"
    and "status_ok (last new) \<or> last new = stopped_status \<or> \<not> retriable_failure E op (last new) \<or>
         failureThreshold (policy b) - 1 \<le> attempt b'"
    and "w_rpcs w' \<le> w_rpcs w + 1" and "w_slept w' = w_slept w"
  shows "repeater_result E op b w ss (Inr (ss @ new, b', w'))"
proof -
  have "0 \<le> max 0 (failureThreshold (policy b) - 1 - attempt b) * maxDelay (policy b)"
    using assms(1) by (simp add: policy_ok_def)
  moreover have "1 \<le> nat (max 1 (failureThreshold (policy b) - attempt b))" by simp
  ultimately show ?thesis
    unfolding repeater_result_def using assms(2-6)
    by (intro exI [of _ new] exI [of _ b'] exI [of _ w']) (simp add: order_trans)
qed

text \<open>One turn of the loop that goes on: the rest of the run starts one attempt later.\<close>

lemma repeater_result_step:
  assumes ok: "policy_ok (policy b)" and d: "nextDelay b = Inr (Some v, b')"
    and rest: "repeater_result E op b' w4 (ss @ [s]) r"
    and w4: "w_rpcs w4 = w_rpcs w + 1" "w_slept w4 \<le> w_slept w + v"
  shows "repeater_result E op b w ss r"
proof -
  note nd = nextDelay_Some [OF d ok]
  from rest obtain new b2 w2 where r: "r = Inr ((ss @ [s]) @ new, b2, w2)" "new \<noteq> []" "policy b2 = policy b'"
      "status_ok (last new) \<or> last new = stopped_status \<or> \<not> retriable_failure E op (last new) \<or>
         failureThreshold (policy b') - 1 \<le> attempt b2"
      "w_rpcs w2 \<le> w_rpcs w4 + nat (max 1 (failureThreshold (policy b') - attempt b'))"
      "w_slept w2 \<le> w_slept w4 + max 0 (failureThreshold (policy b') - 1 - attempt b') * maxDelay (policy b')"
    unfolding repeater_result_def by blast
  let ?k = "failureThreshold (policy b) - 1 - attempt b"
  have k: "1 \<le> ?k" using nd by simp
  have "w_slept w2 \<le> w_slept w + v + (?k - 1) * maxDelay (policy b)"
    using r(6) w4(2) nd k by (simp add: algebra_simps)
  also have "\<dots> \<le> w_slept w + ?k * maxDelay (policy b)"
    using nd by (simp add: algebra_simps)
  finally have sl: "w_slept w2 \<le> w_slept w + max 0 ?k * maxDelay (policy b)" using k by simp
  have rp: "w_rpcs w2 \<le> w_rpcs w + nat (max 1 (failureThreshold (policy b) - attempt b))"
    using r(5) w4(1) nd k by simp
  show ?thesis
    unfolding repeater_result_def
    using r nd sl rp by (intro exI [of _ "s # new"] exI [of _ b2] exI [of _ w2]) simp
qed

lemma repeat_loop_unfold:
  "repeat_loop E op b w ss =
     (let w1 = load_flag E w; s = env_rpc E (w_rpcs w); w3 = load_flag E (snd (call_rpc E w1)) in
      if w_flag w1 then Inr (ss @ [stopped_status], b, w1)
      else if w_flag w3 then Inr (ss @ [stopped_status], b, w3)
      else if status_ok s then Inr (ss @ [s], backoff_reset b, w3)
      else case toError (env_details E) s of
        Inl x \<Rightarrow> Inl x
      | Inr e \<Rightarrow>
          if \<not> isRetriable op (err_code e) then Inr (ss @ [s], backoff_reset b, w3)
          else case nextDelay b of
            Inl x \<Rightarrow> Inl x
          | Inr (None, b') \<Rightarrow> Inr (ss @ [s], b', w3)
          | Inr (Some v, b') \<Rightarrow>
              (case jitter (env_draw E (w_draws w3) v) v of
                 Inl x \<Rightarrow> Inl x
               | Inr d \<Rightarrow>
                   let w4 = load_flag E (sleep_loop E d (w3\<lparr>w_draws := w_draws w3 + 1\<rparr>)) in
                   if w_flag w4 then Inr (ss @ [s, stopped_status], b', w4)
                   else repeat_loop E op b' w4 (ss @ [s])))"
  by (subst repeat_loop.simps)
    (simp add: Let_def call_rpc_def cong: sum.case_cong option.case_cong prod.case_cong if_cong)

lemma repeat_loop_result:
  assumes "policy_ok (policy b)" and "failureThreshold (policy b) \<le> 65"
    and draws: "\<And>n v. 0 \<le> v \<Longrightarrow> 0 \<le> env_draw E n v \<and> env_draw E n v \<le> v"
  shows "repeater_result E op b w ss (repeat_loop E op b w ss)"
  using assms(1,2)
proof (induction "nat (failureThreshold (policy b) - 1 - attempt b)" arbitrary: b w ss rule: less_induct)
  case less
  let ?w1 = "load_flag E w"
  let ?s = "env_rpc E (w_rpcs w)" and ?w3 = "load_flag E (snd (call_rpc E ?w1))"
  have w3: "w_rpcs ?w3 = w_rpcs w + 1" "w_slept ?w3 = w_slept w" by simp_all
  note base = repeater_resultI [OF less.prems(1)]
  show ?case
  proof (cases "w_flag ?w1 \<or> w_flag ?w3 \<or> status_ok ?s \<or> \<not> retriable_failure E op ?s")
    case True
    have notok: "\<exists>e. toError (env_details E) ?s = Inr e" if "\<not> status_ok ?s"
      using that toError_ok_iff [of "env_details E" ?s] by (cases "toError (env_details E) ?s") auto
    from True notok show ?thesis
      unfolding repeat_loop_unfold [of E op b w ss] Let_def
      by (auto intro!: base simp: backoff_reset_def retriable_failure_def)
  next
    case False
    then obtain e where e: "toError (env_details E) ?s = Inr e" "isRetriable op (err_code e)"
      by (auto simp: retriable_failure_def split: sum.splits)
    from nextDelay_total [of b] less.prems(2) obtain dv b' where nd: "nextDelay b = Inr (dv, b')" by auto
    show ?thesis
    proof (cases dv)
      case None
      with nd e False show ?thesis
        unfolding repeat_loop_unfold [of E op b w ss] Let_def
        using nextDelay_None [of b b'] by (auto intro!: base)
    next
      case (Some v)
      note nd' = nd [unfolded Some]
      note f = nextDelay_Some [OF nd' less.prems(1)]
      define d where "d = env_draw E (w_draws ?w3) v"
      define w4 where "w4 = load_flag E (sleep_loop E d (?w3\<lparr>w_draws := w_draws ?w3 + 1\<rparr>))"
      have d: "0 \<le> d" "d \<le> v" using draws f by (auto simp: d_def)
      have w4: "w_rpcs w4 = w_rpcs w + 1" "w_slept w4 \<le> w_slept w + v"
        using sleep_loop_frame [of E d "?w3\<lparr>w_draws := w_draws ?w3 + 1\<rparr>"] w3 d by (auto simp: w4_def)
      have eq: "repeat_loop E op b w ss = (if w_flag w4 then Inr (ss @ [?s, stopped_status], b', w4)
                     else repeat_loop E op b' w4 (ss @ [?s]))"
        using False e nd' f by (simp add: repeat_loop_unfold [of E op b w ss] jitter_ok d_def w4_def Let_def)
      have "repeater_result E op b' w4 (ss @ [?s]) (repeat_loop E op b w ss)"
      proof (cases "w_flag w4")
        case True
        then show ?thesis using repeater_resultI [of b' "[stopped_status]" b' E op w4 w4 "ss @ [?s]"] f less.prems(1)
          by (simp add: eq)
      next
        case False
        with less.hyps [of b' w4 "ss @ [?s]"] f less.prems show ?thesis by (simp add: eq)
      qed
      from repeater_result_step [OF less.prems(1) nd' this w4] show ?thesis .
    qed
  qed
qed

section \<open>Which remote calls a report speaks of\<close>

text \<open>
  The report \<open>new\<close> of a run whose remote calls are the numbers from \<open>a\<close> up to \<open>z\<close>: the
  statuses of the calls in order, or those of an initial part of them and a final entry for the
  interruption; every entry but the last is a failure that may be retried.
\<close>

definition report_of :: "env \<Rightarrow> string \<Rightarrow> nat \<Rightarrow> nat \<Rightarrow> Status list \<Rightarrow> bool" where
  "report_of E op a z new \<longleftrightarrow> new \<noteq> [] \<and> a \<le> z \<and> (\<forall>s \<in> set (butlast new). retriable_failure E op s) \<and>
     (new = map (env_rpc E) [a..<z] \<or>
      (\<exists>k. a + k \<le> z \<and> new = map (env_rpc E) [a..<a + k] @ [stopped_status]))"

lemma report_of_step:
  assumes "retriable_failure E op (env_rpc E a)" and "report_of E op (Suc a) z new"
  shows "report_of E op a z (env_rpc E a # new)"
proof -
  have up: "[a..<a + Suc k] = a # [Suc a..<Suc a + k]" for k by (simp add: upt_conv_Cons del: upt_Suc)
  have rest: "new \<noteq> []" "Suc a \<le> z" "\<forall>s \<in> set (butlast new). retriable_failure E op s"
    using assms(2) by (auto simp: report_of_def)
  have but: "\<forall>s \<in> set (butlast (env_rpc E a # new)). retriable_failure E op s" "a \<le> z"
    using rest assms(1) by auto
  consider "new = map (env_rpc E) [Suc a..<z]"
    | k where "Suc a + k \<le> z" "new = map (env_rpc E) [Suc a..<Suc a + k] @ [stopped_status]"
    using assms(2) unfolding report_of_def by blast
  then show ?thesis
  proof cases
    case 1
    then have "env_rpc E a # new = map (env_rpc E) [a..<z]" using rest(2) by (simp add: upt_conv_Cons)
    with but show ?thesis unfolding report_of_def by blast
  next
    case 2
    then have "a + Suc k \<le> z" "env_rpc E a # new = map (env_rpc E) [a..<a + Suc k] @ [stopped_status]"
      unfolding up by simp_all
    with but show ?thesis unfolding report_of_def by blast
  qed
qed

lemma report_of_one: "report_of E op a (Suc a) [env_rpc E a]"
  by (simp add: report_of_def)

lemma report_of_stopped: "a \<le> z \<Longrightarrow> report_of E op a z [stopped_status]"
  by (auto simp: report_of_def intro!: exI [of _ 0])

lemma repeat_loop_report:
  assumes "repeat_loop E op b w ss = Inr (ss', b', w')"
  shows "(\<exists>new. ss' = ss @ new \<and> report_of E op (w_rpcs w) (w_rpcs w') new) \<and>
    policy b' = policy b \<and> (0 \<le> attempt b \<longrightarrow> 0 \<le> attempt b')"
  using assms
proof (induction "nat (failureThreshold (policy b) - 1 - attempt b)" arbitrary: b w ss rule: less_induct)
  case less
  let ?w1 = "load_flag E w"
  let ?s = "env_rpc E (w_rpcs w)" and ?w3 = "load_flag E (snd (call_rpc E ?w1))"
  show ?case
  proof (cases "w_flag ?w1 \<or> w_flag ?w3 \<or> status_ok ?s \<or> \<not> retriable_failure E op ?s \<or> (\<exists>b2. nextDelay b = Inr (None, b2))")
    case True
    with less.prems show ?thesis
      unfolding repeat_loop_unfold [of E op b w ss] Let_def
      by (auto simp: retriable_failure_def report_of_one report_of_stopped backoff_reset_def
          dest: nextDelay_None split: if_splits sum.splits)
  next
    case False
    then obtain e where e: "toError (env_details E) ?s = Inr e" "isRetriable op (err_code e)"
      by (auto simp: retriable_failure_def split: sum.splits)
    with less.prems False obtain v b2 where nd: "nextDelay b = Inr (Some v, b2)"
      unfolding repeat_loop_unfold [of E op b w ss] Let_def
      by (cases "nextDelay b") (auto split: option.splits)
    with less.prems False e obtain d where j: "jitter (env_draw E (w_draws ?w3) v) v = Inr d"
      unfolding repeat_loop_unfold [of E op b w ss] Let_def by (auto split: sum.splits)
    define w4 where "w4 = load_flag E (sleep_loop E d (?w3\<lparr>w_draws := w_draws ?w3 + 1\<rparr>))"
    have w4: "w_rpcs w4 = Suc (w_rpcs w)"
      using sleep_loop_frame [of E d "?w3\<lparr>w_draws := w_draws ?w3 + 1\<rparr>"] by (simp add: w4_def)
    have "repeat_loop E op b w ss = (if w_flag w4 then Inr (ss @ [?s, stopped_status], b2, w4)
                     else repeat_loop E op b2 w4 (ss @ [?s]))"
      using False e nd j by (simp add: repeat_loop_unfold [of E op b w ss] w4_def Let_def)
    with less.prems have eq: "(if w_flag w4 then Inr (ss @ [?s, stopped_status], b2, w4)
                     else repeat_loop E op b2 w4 (ss @ [?s])) = Inr (ss', b', w')" by simp
    have b2: "policy b2 = policy b" "attempt b2 = attempt b + 1"
      using nd by (auto simp: nextDelay_def Let_def split: if_splits)
    have "(\<exists>new. ss' = (ss @ [?s]) @ new \<and> report_of E op (Suc (w_rpcs w)) (w_rpcs w') new) \<and>
        policy b' = policy b2 \<and> (0 \<le> attempt b2 \<longrightarrow> 0 \<le> attempt b')"
    proof (cases "w_flag w4")
      case True
      with eq w4 show ?thesis by (auto simp: report_of_stopped)
    next
      case False
      have "nat (failureThreshold (policy b2) - 1 - attempt b2) < nat (failureThreshold (policy b) - 1 - attempt b)"
        using nd by (auto simp: nextDelay_def Let_def split: if_splits)
      from less.hyps [OF this, of w4 "ss @ [?s]"] eq False w4 show ?thesis by simp
    qed
    then obtain new where new: "ss' = (ss @ [?s]) @ new" "report_of E op (Suc (w_rpcs w)) (w_rpcs w') new"
      and b': "policy b' = policy b2" "0 \<le> attempt b2 \<longrightarrow> 0 \<le> attempt b'" by blast
    have "retriable_failure E op ?s" using False by simp
    from report_of_step [OF this new(2)] new(1) have "\<exists>new. ss' = ss @ new \<and> report_of E op (w_rpcs w) (w_rpcs w') new"
      by (intro exI [of _ "?s # new"]) simp
    with b' b2 show ?thesis by simp
  qed
qed

text \<open>The breaker and its repeater share the policy.\<close>

definition breaker_ok :: "CircuitBreaker \<Rightarrow> bool" where
  "breaker_ok c \<longleftrightarrow> policy_ok (cb_policy c) \<and> failureThreshold (cb_policy c) \<le> 65 \<and>
     policy (cb_repeater c) = cb_policy c \<and> 0 \<le> attempt (cb_repeater c)"

definition fair_draws :: "env \<Rightarrow> bool" where
  "fair_draws E \<longleftrightarrow> (\<forall>n v. 0 \<le> v \<longrightarrow> 0 \<le> env_draw E n v \<and> env_draw E n v \<le> v)"

lemma toError_failure: "\<not> status_ok s \<Longrightarrow> \<exists>e. toError d s = Inr e"
  using toError_ok_iff [of d s] by (cases "toError d s") auto

text \<open>What a call of the breaker returns, and that it does.\<close>

definition breaker_returns :: "env \<Rightarrow> string \<Rightarrow> CircuitBreaker \<Rightarrow> world
    \<Rightarrow> (Status list \<times> CircuitBreaker \<times> world) outcome \<Rightarrow> bool" where
  "breaker_returns E op c w r \<longleftrightarrow> (\<exists>ss c' w'. r = Inr (ss, c', w') \<and>
     breaker_ok c' \<and> cb_policy c' = cb_policy c \<and>
     (ss = [breaker_open_status] \<and> w_rpcs w' = w_rpcs w \<or> report_of E op (w_rpcs w) (w_rpcs w') ss) \<and>
     w_rpcs w' \<le> w_rpcs w + nat (max 1 (failureThreshold (cb_policy c))))"

lemma breaker_probe_returns:
  assumes "breaker_ok c"
  shows "breaker_returns E op c w (breaker_probe E op c w)"
proof (cases "status_ok (env_rpc E (w_rpcs w))")
  case True
  then show ?thesis using assms
    by (auto simp: breaker_returns_def breaker_probe_def call_rpc_def Let_def repeater_reset_def backoff_reset_def
        breaker_ok_def report_of_one)
next
  case False
  with toError_failure obtain e where "toError (env_details E) (env_rpc E (w_rpcs w)) = Inr e" by blast
  with False assms show ?thesis
    by (auto simp: breaker_returns_def breaker_probe_def call_rpc_def Let_def breaker_fail_def read_clock_def
        breaker_ok_def report_of_one)
qed

lemma breaker_closed_returns:
  assumes ok: "breaker_ok c" and "fair_draws E"
  shows "breaker_returns E op c w (breaker_closed E op c w)"
proof -
  let ?b = "cb_repeater c"
  have p: "policy_ok (policy ?b)" "failureThreshold (policy ?b) \<le> 65" "policy ?b = cb_policy c" "0 \<le> attempt ?b"
    using ok by (auto simp: breaker_ok_def)
  from repeat_loop_result [OF p(1,2), of E op w "[]"] assms(2) obtain ss b' w' where
    r: "repeat_loop E op ?b w [] = Inr (ss, b', w')" "ss \<noteq> []"
      "w_rpcs w' \<le> w_rpcs w + nat (max 1 (failureThreshold (policy ?b) - attempt ?b))"
    unfolding repeater_result_def fair_draws_def by auto
  from repeat_loop_report [OF r(1)] p(4) have rep: "report_of E op (w_rpcs w) (w_rpcs w') ss"
    "policy b' = policy ?b" "0 \<le> attempt b'" by auto
  have le: "w_rpcs w' \<le> w_rpcs w + nat (max 1 (failureThreshold (cb_policy c)))"
    using r(3) p(3,4) by simp
  show ?thesis
  proof (cases "status_ok (last ss)")
    case True
    with r rep le ok show ?thesis
      by (auto simp: breaker_returns_def breaker_closed_def repeater_attempt_def breaker_ok_def)
  next
    case False
    with toError_failure obtain e where "toError (env_details E) (last ss) = Inr e" by blast
    with False r rep le ok show ?thesis
      by (auto simp: breaker_returns_def breaker_closed_def repeater_attempt_def breaker_ok_def breaker_fail_def
          read_clock_def Let_def)
  qed
qed

lemma breaker_call_returns:
  assumes "breaker_ok c" and "fair_draws E"
  shows "breaker_returns E op c w (breaker_call E op c w)"
proof (cases "cb_state c")
  case BOpen
  let ?w = "w\<lparr>w_clocks := w_clocks w + 1\<rparr>"
  have "breaker_ok (c\<lparr>cb_state := BHalfOpen\<rparr>)" using assms(1) by (simp add: breaker_ok_def)
  from breaker_probe_returns [OF this, of E op ?w] BOpen assms(1) show ?thesis
    by (auto simp: breaker_call_def read_clock_def Let_def breaker_returns_def)
next
  case BClosed
  with breaker_closed_returns [OF assms] show ?thesis by (simp add: breaker_call_def)
next
  case BHalfOpen
  with breaker_probe_returns [OF assms(1)] show ?thesis by (simp add: breaker_call_def)
qed

section \<open>The properties\<close>


definition calm_env :: "(nat \<Rightarrow> Status) \<Rightarrow> env" where
  "calm_env f = \<lparr>env_rpc = f, env_flag = (\<lambda>_ b. b), env_draw = (\<lambda>_ v. v), env_clock = int,
     env_details = (\<lambda>_. None)\<rparr>"

definition sample_policy :: RetryPolicy where
  "sample_policy = \<lparr>baseDelay = 100, maxDelay = 5000, resetTimeout = 5000, failureThreshold = 3,
     servicesToTry = 2, rpcTimeout = 20, channelTimeout = 200\<rparr>"


text \<open>
  The delays double from the base delay and are cut off at the maximal delay, as long as
  the doubled value fits 64 bits; the product wraps around otherwise.
\<close>

theorem nextDelay_doubles:
  assumes "policy_ok (policy b)" and "0 \<le> attempt b" and "attempt b < failureThreshold (policy b) - 1"
    and "attempt b < 64" and "baseDelay (policy b) * 2 ^ nat (attempt b) < 2 ^ 64"
  shows "nextDelay b = Inr (Some (min (baseDelay (policy b) * 2 ^ nat (attempt b)) (maxDelay (policy b))),
      b\<lparr>attempt := attempt b + 1\<rparr>)"
proof -
  let ?m = "word_of_int (maxDelay (policy b)) :: u64"
  let ?d = "word_of_int (baseDelay (policy b)) * push_bit (nat (attempt b)) 1 :: u64"
  have m: "uint ?m = maxDelay (policy b)"
    using assms(1) by (simp add: policy_ok_def unsigned_of_int take_bit_int_eq_self)
  let ?n = "baseDelay (policy b) * 2 ^ nat (attempt b)"
  have "0 \<le> ?n" using assms(1) by (simp add: policy_ok_def)
  with assms(5) have "uint (word_of_int ?n :: u64) = ?n"
    by (simp add: unsigned_of_int take_bit_int_eq_self del: of_int_mult)
  moreover have "?d = word_of_int ?n" by (simp add: push_bit_eq_mult)
  ultimately have d: "uint ?d = ?n" by presburger
  have "uint (min ?d ?m) = min (baseDelay (policy b) * 2 ^ nat (attempt b)) (maxDelay (policy b))"
    using m d by (metis min_def word_le_def)
  with assms(3,4) show ?thesis by (simp add: nextDelay_def Let_def)
qed

theorem nextDelay_doubles_witness:
  "nextDelay \<lparr>policy = sample_policy, attempt = 1\<rparr> = Inr (Some 200, \<lparr>policy = sample_policy, attempt = 2\<rparr>)"
  using nextDelay_doubles [of "\<lparr>policy = sample_policy, attempt = 1\<rparr>"]
  by (simp add: policy_ok_def sample_policy_def)

text \<open>
  An exhausted backoff stays exhausted: after a run that used up its attempts the next
  run makes a single remote call and gives up on a retriable failure, because only a success,
  an error that may not be retried or the breaker's successful probe resets the counter.
\<close>

theorem exhausted_backoff_single_try:
  assumes "failureThreshold (policy b) - 1 \<le> attempt b"
    and "\<And>n. env_flag E n False = False" and "\<not> w_flag w"
    and "retriable_failure E op (env_rpc E (w_rpcs w))"
  shows "\<exists>w'. repeater_attempt E op b w = Inr ([env_rpc E (w_rpcs w)], b, w') \<and> w_rpcs w' = w_rpcs w + 1"
proof -
  have "\<not> status_ok (env_rpc E (w_rpcs w))"
    using assms(4) by (auto simp: retriable_failure_def toError_def status_ok_def)
  moreover have "nextDelay b = Inr (None, b)" using assms(1) by (simp add: nextDelay_def)
  moreover have "\<not> w_flag (load_flag E w')" if "\<not> w_flag w'" for w'
    using that assms(2) by (simp add: load_flag_def)
  moreover have "\<not> w_flag (snd (call_rpc E w'))" if "\<not> w_flag w'" for w'
    using that by (simp add: call_rpc_def)
  ultimately show ?thesis
    using assms(3,4) unfolding repeater_attempt_def repeat_loop_unfold [of E op b w]
    by (auto simp: Let_def retriable_failure_def split: sum.splits)
qed

theorem exhausted_backoff_single_try_witness:
  "\<exists>w'. repeater_attempt (calm_env (\<lambda>_. mk_Status UNAVAILABLE ''down'')) ''get''
      \<lparr>policy = sample_policy, attempt = 2\<rparr> world_init =
      Inr ([mk_Status UNAVAILABLE ''down''], \<lparr>policy = sample_policy, attempt = 2\<rparr>, w') \<and> w_rpcs w' = 1"
  using exhausted_backoff_single_try [of "\<lparr>policy = sample_policy, attempt = 2\<rparr>"
      "calm_env (\<lambda>_. mk_Status UNAVAILABLE ''down'')" world_init "''get''"]
  by (simp add: sample_policy_def calm_env_def world_init_def retriable_failure_def toError_def
      mk_Status_def isRetriable_cases mk_Error_def)

lemma breaker_probe_state:
  assumes "breaker_probe E op c w = Inr (ss, c', w')"
  shows "ss \<noteq> [] \<and> w_rpcs w' = w_rpcs w + 1 \<and>
    cb_state c' = (if retriable_failure E op (last ss) then BOpen else BClosed)"
proof (cases "status_ok (env_rpc E (w_rpcs w))")
  case True
  with assms show ?thesis
    by (auto simp: breaker_probe_def call_rpc_def Let_def repeater_reset_def retriable_failure_def
        status_ok_def toError_def)
next
  case False
  with assms show ?thesis
    by (auto simp: breaker_probe_def call_rpc_def Let_def bind_outcome_Inr retriable_failure_def
        breaker_fail_def read_clock_def split: if_splits dest: arg_cong [where f = w_clocks])
qed

lemma breaker_closed_state:
  assumes "breaker_closed E op c w = Inr (ss, c', w')" and "cb_state c = BClosed"
  shows "ss \<noteq> [] \<and> cb_state c' = (if retriable_failure E op (last ss) then BOpen else BClosed)"
  using assms
  by (auto simp: breaker_closed_def bind_outcome_Inr breaker_fail_def read_clock_def Let_def
      retriable_failure_def status_ok_def toError_def split: if_splits dest: arg_cong [where f = w_clocks])

text \<open>
  While the breaker is open and the reset timeout has not passed, a call is refused
  without a remote call and without a change of the breaker; every other call ends with the
  breaker open exactly if the last status was a retriable failure, and closed otherwise.
\<close>

theorem breaker_call_state:
  assumes "breaker_call E op c w = Inr (ss, c', w')"
  shows "(if cb_state c = BOpen \<and> env_clock E (w_clocks w) - cb_lastFailureTime c < resetTimeout (cb_policy c)
    then ss = [breaker_open_status] \<and> c' = c \<and> w_rpcs w' = w_rpcs w
    else ss \<noteq> [] \<and> cb_state c' = (if retriable_failure E op (last ss) then BOpen else BClosed))"
proof (cases "cb_state c")
  case BOpen
  with assms show ?thesis
    by (auto simp: breaker_call_def read_clock_def Let_def split: if_splits dest: breaker_probe_state)
next
  case BClosed
  with assms breaker_closed_state show ?thesis by (auto simp: breaker_call_def)
next
  case BHalfOpen
  with assms breaker_probe_state show ?thesis by (auto simp: breaker_call_def)
qed

theorem breaker_call_state_witness:
  "let E = calm_env (\<lambda>_. Status_OK); c = (mk_CircuitBreaker sample_policy)\<lparr>cb_state := BOpen\<rparr> in
   breaker_call E ''get'' c world_init = Inr ([breaker_open_status], c, world_init\<lparr>w_clocks := 1\<rparr>) \<and>
   w_rpcs (world_init\<lparr>w_clocks := 1\<rparr>) = w_rpcs world_init"
proof -
  let ?E = "calm_env (\<lambda>_. Status_OK)" and ?c = "(mk_CircuitBreaker sample_policy)\<lparr>cb_state := BOpen\<rparr>"
  have "breaker_call ?E ''get'' ?c world_init = Inr ([breaker_open_status], ?c, world_init\<lparr>w_clocks := 1\<rparr>)"
    by (simp add: breaker_call_def read_clock_def calm_env_def world_init_def mk_CircuitBreaker_def
        sample_policy_def)
  with breaker_call_state [OF this] show ?thesis
    by (simp add: calm_env_def world_init_def mk_CircuitBreaker_def sample_policy_def)
qed

text \<open>
  A successful probe of a half-open breaker stores \<open>false\<close> into the stop flag it shares
  with its owner, so a stop request that was made before is lost.
\<close>

theorem breaker_probe_clears_stop:
  assumes "cb_state c = BHalfOpen" and "status_ok (env_rpc E (w_rpcs w))"
  shows "\<exists>c' w'. breaker_call E op c w = Inr ([env_rpc E (w_rpcs w)], c', w') \<and>
    cb_state c' = BClosed \<and> \<not> w_flag w'"
  using assms by (simp add: breaker_call_def breaker_probe_def call_rpc_def repeater_reset_def)

theorem breaker_probe_clears_stop_witness:
  "\<exists>c' w'. breaker_call (calm_env (\<lambda>_. Status_OK)) ''get''
       ((mk_CircuitBreaker sample_policy)\<lparr>cb_state := BHalfOpen\<rparr>) (repeater_stop world_init) =
       Inr ([Status_OK], c', w') \<and> cb_state c' = BClosed \<and> \<not> w_flag w'"
  using breaker_probe_clears_stop [of "(mk_CircuitBreaker sample_policy)\<lparr>cb_state := BHalfOpen\<rparr>"
      "calm_env (\<lambda>_. Status_OK)" "repeater_stop world_init" "''get''"]
  by (simp add: calm_env_def status_ok_def Status_OK_def)

end
