(* ===== verification/RaftNode.thy ===== *)
theory RaftNode
  imports Persist Retry
begin

text \<open>
  \<open>src/include/raft/RaftImpl.hpp\<close> and the state of \<open>src/include/raft/Raft.hpp\<close>: one Raft
  server. Every member function locks the mutex \<open>m\<close> for its critical sections, so a
  critical section is one function from state to state; a function that unlocks \<open>m\<close> to
  call a peer or the state machine is cut there, and the parts are joined by the thread that
  runs it. Condition variables only delay a thread until its guard holds, so they appear as
  guards. Readings of the clock, replies of peers and the contents of uninitialised fields are
  arguments. \<open>saved\<close> is the state last handed to the persister.
\<close>

section \<open>State\<close>

record raft =
  role :: Role
  selfId :: string
  currentTerm :: u64
  votedFor :: "string option"
  commitIndex :: u64
  lastApplied :: u64
  nextIndex :: "(string, u64) umap"
  matchIndex :: "(string, u64) umap"
  heartbeatInterval :: int
  electionTimeout :: int
  clusterSize :: u8
  lastIncludedIndex :: u64
  lastIncludedTerm :: u64
  killed :: bool
  pendingSnapshot :: bool
  stopCalls :: bool
  shouldStartElection :: "(string, bool) umap"
  shouldStartHeartbeat :: "(string, bool) umap"
  appendNow :: "(string, bool) umap"
  votesGranted :: int
  requestVoteArg :: RequestVoteArg
  raft_policy :: RetryPolicy
  snapshotData :: string
  lastHeartbeat :: int
  mainLog :: raft_log
  peers :: "string list"
  saved :: "PersistentState option"

section \<open>Persistence\<close>

definition persist :: "raft \<Rightarrow> raft" where
  "persist s = s\<lparr>saved := Some (mk_PersistentState (currentTerm s) (votedFor s)
     (log_of (log_data (mainLog s))) (snapshotData s) (lastIncludedIndex s) (lastIncludedTerm s))\<rparr>"

definition readPersist :: "PersistentState \<Rightarrow> raft \<Rightarrow> raft" where
  "readPersist ps s =
     (if killed s then s
      else if pendingSnapshot s then s
      else
        let s1 = s\<lparr>currentTerm := ps_currentTerm ps, votedFor := ps_votedFor ps,
              mainLog := log_setLastIncluded (log_merge (log_clear (mainLog s)) (log_data (ps_log ps)))
                (ps_lastIncludedIndex ps) (ps_lastIncludedTerm ps),
              lastIncludedIndex := ps_lastIncludedIndex ps, lastIncludedTerm := ps_lastIncludedTerm ps,
              snapshotData := ps_snapshotData ps\<rparr>
        in if ps_snapshotData ps = '''' then s1 else s1\<lparr>pendingSnapshot := True\<rparr>)"

section \<open>Construction\<close>

text \<open>
  The members with their initialisers, before the body of the constructor runs. \<open>p\<close> is the
  list of all servers, with \<open>selfId\<close> among them.
\<close>

definition raft_members :: "string list \<Rightarrow> string \<Rightarrow> RetryPolicy \<Rightarrow> int \<Rightarrow> PersistentState option \<Rightarrow> raft" where
  "raft_members p sid r now sv =
     \<lparr>role = Follower, selfId = sid, currentTerm = 0, votedFor = None, commitIndex = 0, lastApplied = 0,
      nextIndex = [], matchIndex = [], heartbeatInterval = 10 * rpcTimeout r,
      electionTimeout = 60 * rpcTimeout r, clusterSize = of_nat (length p),
      lastIncludedIndex = 0, lastIncludedTerm = 0, killed = False, pendingSnapshot = False,
      stopCalls = False, shouldStartElection = [], shouldStartHeartbeat = [], appendNow = [],
      votesGranted = 0, requestVoteArg = mk_RequestVoteArg '''' 0 0 0, raft_policy = r,
      snapshotData = '''', lastHeartbeat = now, mainLog = log_new, peers = [], saved = sv\<rparr>"

text \<open>
  The constructor on a store whose last saved state is \<open>sv\<close>. The timers and the threads
  started at its end run the functions below.
\<close>

definition RaftImpl_new :: "stable_load \<Rightarrow> string list \<Rightarrow> string \<Rightarrow> RetryPolicy \<Rightarrow> int
    \<Rightarrow> PersistentState option \<Rightarrow> raft outcome" where
  "RaftImpl_new load p sid r now sv =
     (let p' = filter (\<lambda>a. a \<noteq> sid) p;
          s = (raft_members p sid r now sv)\<lparr>nextIndex := const_map p' 1, matchIndex := const_map p' 0\<rparr>
      in bind_outcome (load sv) (\<lambda>ps.
        Inr ((readPersist ps s)\<lparr>shouldStartHeartbeat := const_map p' False, appendNow := const_map p' False,
               shouldStartElection := const_map p' False, peers := remdups p'\<rparr>)))"

definition kill :: "raft \<Rightarrow> raft" where
  "kill s = s\<lparr>killed := True, stopCalls := True\<rparr>"

text \<open>The destructor stops the timers, kills the server and joins its threads.\<close>

definition RaftImpl_destroy :: "raft \<Rightarrow> raft" where
  "RaftImpl_destroy s = kill s"

definition raft_getLog :: "raft \<Rightarrow> raft_log" where
  "raft_getLog s = mainLog s"

definition raft_getRole :: "raft \<Rightarrow> Role" where
  "raft_getRole s = role s"

definition raft_getCurrentTerm :: "raft \<Rightarrow> u64" where
  "raft_getCurrentTerm s = currentTerm s"

definition raft_getSelfId :: "raft \<Rightarrow> string" where
  "raft_getSelfId s = selfId s"

section \<open>Terms and votes\<close>

text \<open>\<open>now\<close> is the clock reading of the function.\<close>

definition becameFollower :: "int \<Rightarrow> u64 \<Rightarrow> string \<Rightarrow> raft \<Rightarrow> bool \<times> raft" where
  "becameFollower now t peerId s =
     (if t > currentTerm s
      then let s1 = persist (s\<lparr>currentTerm := t, role := Follower, votedFor := None\<rparr>)
           in (True, s1\<lparr>lastHeartbeat := now, stopCalls := True,
                 appendNow := AList.update peerId False (appendNow s1),
                 shouldStartHeartbeat := AList.update peerId False (shouldStartHeartbeat s1)\<rparr>)
      else (False, s))"

definition hasVote :: "string \<Rightarrow> raft \<Rightarrow> bool" where
  "hasVote candidateId s \<longleftrightarrow> votedFor s = Some candidateId \<or> votedFor s = None"

definition upToDate :: "u64 \<Rightarrow> u64 \<Rightarrow> raft \<Rightarrow> bool" where
  "upToDate lastLogIndex lastLogTerm s \<longleftrightarrow>
     (log_lastTerm (mainLog s) = lastLogTerm \<and> log_lastIndex (mainLog s) \<le> lastLogIndex) \<or>
     log_lastTerm (mainLog s) < lastLogTerm"

definition requestVoteHandler :: "int \<Rightarrow> int \<Rightarrow> RequestVoteArg \<Rightarrow> raft \<Rightarrow> RequestVoteReply \<times> raft" where
  "requestVoteHandler t1 t2 arg s =
     (if killed s then (mk_RequestVoteReply False (currentTerm s), s)
      else if rv_term arg < currentTerm s then (mk_RequestVoteReply False (currentTerm s), s)
      else
        let s1 = snd (becameFollower t1 (rv_term arg) (rv_candidateId arg) s) in
        if hasVote (rv_candidateId arg) s1 \<and> upToDate (rv_lastLogIndex arg) (rv_lastLogTerm arg) s1
        then (mk_RequestVoteReply True (currentTerm s1),
              persist (s1\<lparr>votedFor := Some (rv_candidateId arg), role := Follower, lastHeartbeat := t2\<rparr>))
        else (mk_RequestVoteReply False (currentTerm s1), s1))"

text \<open>\<open>std::chrono::duration_cast\<close> from nanoseconds to milliseconds cuts towards zero.\<close>

definition cast_ms :: "int \<Rightarrow> int" where
  "cast_ms d = (if d < 0 then - ((- d) div 1000000) else d div 1000000)"

definition initVote :: "int \<Rightarrow> raft \<Rightarrow> raft" where
  "initVote now s =
     (if role s = Leader then s
      else if cast_ms (now - lastHeartbeat s) < electionTimeout s then s
      else
        let s1 = persist (s\<lparr>role := Candidate, currentTerm := currentTerm s + 1, votedFor := Some (selfId s)\<rparr>)
        in s1\<lparr>requestVoteArg := mk_RequestVoteArg (selfId s1) (currentTerm s1)
                  (log_lastIndex (mainLog s1)) (log_lastTerm (mainLog s1)),
              votesGranted := 1, stopCalls := False,
              shouldStartElection := set_values True (shouldStartElection s1)\<rparr>)"

text \<open>
  The thread \<open>requestVote(peerId)\<close>: what it does with the lock before the call (\<open>None\<close>: it
  goes back to waiting), and what it does with the reply (\<open>None\<close>: the call failed).
\<close>

definition requestVote_begin :: "string \<Rightarrow> raft \<Rightarrow> (RequestVoteArg option \<times> raft) outcome" where
  "requestVote_begin peerId s =
     (if killed s \<or> role s \<noteq> Candidate then Inr (None, s)
      else bind_outcome (map_at (shouldStartElection s) peerId) (\<lambda>b.
        if \<not> b then Inr (None, s)
        else Inr (Some (requestVoteArg s),
                  s\<lparr>shouldStartElection := AList.update peerId False (shouldStartElection s)\<rparr>)))"

definition majority :: "raft \<Rightarrow> int" where
  "majority s = uint (clusterSize s) div 2 + 1"

definition becomeLeader :: "raft \<Rightarrow> raft" where
  "becomeLeader s =
     s\<lparr>role := Leader, stopCalls := True,
       nextIndex := fold (\<lambda>a m. AList.update a (log_lastIndex (mainLog s) + 1) m) (peers s) (nextIndex s),
       matchIndex := fold (\<lambda>a m. AList.update a 0 m) (peers s) (matchIndex s),
       appendNow := set_values True (appendNow s)\<rparr>"

definition requestVote_reply :: "int \<Rightarrow> string \<Rightarrow> RequestVoteArg \<Rightarrow> RequestVoteReply option \<Rightarrow> raft \<Rightarrow> raft" where
  "requestVote_reply now peerId arg reply s =
     (if killed s \<or> role s \<noteq> Candidate then s\<lparr>stopCalls := True\<rparr>
      else case reply of
        None \<Rightarrow> s
      | Some r \<Rightarrow>
          (case becameFollower now (rvr_term r) peerId s of
             (True, s1) \<Rightarrow> s1
           | (False, s1) \<Rightarrow>
               if rvr_term r < currentTerm s1 \<or> rv_term arg \<noteq> currentTerm s1 then s1
               else if rvr_voteGranted r
               then let s2 = s1\<lparr>votesGranted := votesGranted s1 + 1\<rparr>
                    in if votesGranted s2 \<ge> majority s2 then becomeLeader s2 else s2
               else s1))"

section \<open>Applying committed entries\<close>

text \<open>
  \<open>applyCommittedEntries\<close> sends the commands to the state machine's channel one by one,
  without the lock during a send. \<open>apply_next\<close> is a turn of its loop up to the send,
  \<open>apply_done\<close> what follows a send that succeeded. \<open>applyCommittedEntries\<close> is the
  function when no other thread interferes, on a channel operation \<open>send\<close>.
\<close>

definition apply_next :: "raft \<Rightarrow> (u64 \<times> command) option" where
  "apply_next s =
     (if lastApplied s \<ge> commitIndex s then None
      else case log_at (mainLog s) (lastApplied s + 1) of
        None \<Rightarrow> None
      | Some e \<Rightarrow> Some (lastApplied s + 1, le_command e))"

definition apply_done :: "u64 \<Rightarrow> raft \<Rightarrow> raft" where
  "apply_done i s = s\<lparr>lastApplied := i\<rparr>"

function apply_loop :: "('c \<Rightarrow> command \<Rightarrow> bool \<times> 'c) \<Rightarrow> raft \<Rightarrow> 'c \<Rightarrow> raft \<times> 'c" where
  "apply_loop send s c =
     (case apply_next s of
        None \<Rightarrow> (s, c)
      | Some (i, cmd) \<Rightarrow>
          (case send c cmd of
             (False, c') \<Rightarrow> (s, c')
           | (True, c') \<Rightarrow> apply_loop send (apply_done i s) c'))"
  by pat_completeness auto

lemma apply_next_Some:
  assumes "apply_next s = Some (i, cmd)"
  shows "i = lastApplied s + 1 \<and> lastApplied s < commitIndex s \<and> unat i = Suc (unat (lastApplied s)) \<and>
    (\<exists>e. log_at (mainLog s) i = Some e \<and> cmd = le_command e)"
  using assms unat_plus1_less [of "lastApplied s" "commitIndex s"]
  by (auto simp: apply_next_def not_le split: if_splits option.splits)

termination apply_loop
proof (relation "measure (\<lambda>(send, s, c). unat (commitIndex s) - unat (lastApplied s))", goal_cases)
  case 1
  show ?case by simp
next
  case (2 send s c x i cmd y c')
  then have "apply_next s = Some (i, cmd)" by simp
  from apply_next_Some [OF this]
  have "unat (lastApplied s) < unat (commitIndex s)" "unat i = Suc (unat (lastApplied s))"
    unfolding word_less_nat_alt by blast+
  then show ?case by (simp add: apply_done_def)
qed

declare apply_loop.simps [simp del]

definition applyCommittedEntries :: "('c \<Rightarrow> command \<Rightarrow> bool \<times> 'c) \<Rightarrow> raft \<Rightarrow> 'c \<Rightarrow> raft \<times> 'c" where
  "applyCommittedEntries send s c =
     (if lastApplied s \<ge> commitIndex s then (s, c)
      else if pendingSnapshot s then (s, c)
      else apply_loop send s c)"

section \<open>Appending entries: the follower\<close>

text \<open>
  The handler up to the release of the lock; the flag says whether it then calls
  \<open>applyCommittedEntries\<close>.
\<close>

definition prev_matches :: "AppendEntriesArg \<Rightarrow> raft \<Rightarrow> bool" where
  "prev_matches arg s \<longleftrightarrow>
     ae_prevLogIndex arg = 0 \<or>
     (case log_at (mainLog s) (ae_prevLogIndex arg) of
        Some e \<Rightarrow> le_term e = ae_prevLogTerm arg
      | None \<Rightarrow> ae_prevLogIndex arg = lastIncludedIndex s \<and> ae_prevLogTerm arg = lastIncludedTerm s)"

definition ae_accept :: "u64 \<times> u64 \<Rightarrow> AppendEntriesArg \<Rightarrow> raft \<Rightarrow> AppendEntriesReply \<times> bool \<times> raft" where
  "ae_accept junk arg s =
     (let s1 = persist (s\<lparr>mainLog := log_merge (mainLog s) (log_data (ae_entries arg)), role := Follower\<rparr>);
          reply = mk_AppendEntriesReply junk True (currentTerm s1)
      in if ae_leaderCommit arg > commitIndex s1
         then (reply, True, s1\<lparr>commitIndex := min (ae_leaderCommit arg) (log_lastIndex (mainLog s1))\<rparr>)
         else (reply, False, s1))"

definition ae_conflict :: "AppendEntriesArg \<Rightarrow> raft \<Rightarrow> AppendEntriesReply" where
  "ae_conflict arg s =
     (case log_at (mainLog s) (ae_prevLogIndex arg) of
        Some e \<Rightarrow> mk_AppendEntriesReply (le_term e, log_termFirstIndex (mainLog s) (le_term e)) False (currentTerm s)
      | None \<Rightarrow> mk_AppendEntriesReply (0, log_lastIndex (mainLog s) + 1) False (currentTerm s))"

definition appendEntriesHandler :: "u64 \<times> u64 \<Rightarrow> int \<Rightarrow> int \<Rightarrow> AppendEntriesArg \<Rightarrow> raft
    \<Rightarrow> AppendEntriesReply \<times> bool \<times> raft" where
  "appendEntriesHandler junk t1 t2 arg s =
     (if killed s then (mk_AppendEntriesReply junk False (currentTerm s), False, s)
      else if pendingSnapshot s then (mk_AppendEntriesReply junk False (currentTerm s), False, s)
      else if ae_term arg < currentTerm s then (mk_AppendEntriesReply junk False (currentTerm s), False, s)
      else
        let s1 = (snd (becameFollower t1 (ae_term arg) (ae_leaderId arg) s))\<lparr>lastHeartbeat := t2\<rparr> in
        if prev_matches arg s1 then ae_accept junk arg s1
        else (ae_conflict arg s1, False, s1))"

section \<open>Appending entries: the leader\<close>

text \<open>
  The thread \<open>appendEntries(peerId)\<close>. Its local variable \<open>sendSnapshot\<close> survives the turns
  of its loop; it is the Boolean that is passed along. \<open>appendEntries_begin\<close> is a turn up
  to its first call.
\<close>

datatype ae_call =
    AeContinue
  | AeAppend u64 AppendEntriesArg
  | AeSnapshot u64 AppendEntriesArg InstallSnapshotArg

definition appendEntries_ready :: "string \<Rightarrow> raft \<Rightarrow> bool outcome" where
  "appendEntries_ready peerId s =
     (if killed s \<or> role s \<noteq> Leader then Inr False
      else bind_outcome (map_at (appendNow s) peerId) (\<lambda>a.
        if a then Inr True else map_at (shouldStartHeartbeat s) peerId))"

definition appendEntries_call :: "stable_load \<Rightarrow> string \<Rightarrow> u64 \<Rightarrow> bool \<Rightarrow> raft
    \<Rightarrow> (ae_call \<times> bool \<times> raft) outcome" where
  "appendEntries_call load peerId n sendSnapshot s =
     (let g = log_suffix (mainLog s) n;
          prevLogIndex = n - 1;
          atPrev = log_at (mainLog s) prevLogIndex
      in if atPrev = None \<and> \<not> (sendSnapshot \<or> prevLogIndex \<le> lastIncludedIndex s) \<and> prevLogIndex \<noteq> 0
         then Inr (AeContinue, sendSnapshot, s\<lparr>appendNow := AList.update peerId True (appendNow s)\<rparr>)
         else
           let prevLogTerm = (case atPrev of
                   Some e \<Rightarrow> le_term e
                 | None \<Rightarrow> if sendSnapshot \<or> prevLogIndex \<le> lastIncludedIndex s then lastIncludedTerm s else 0);
               arg = mk_AppendEntriesArg (selfId s) (currentTerm s) prevLogIndex prevLogTerm (commitIndex s) g;
               s1 = s\<lparr>stopCalls := False\<rparr>
           in if sendSnapshot
              then bind_outcome (load (saved s)) (\<lambda>ps.
                Inr (AeSnapshot n arg (mk_InstallSnapshotArg (selfId s) (currentTerm s)
                       (lastIncludedIndex s) (lastIncludedTerm s) (ps_snapshotData ps)), sendSnapshot, s1))
              else Inr (AeAppend n arg, sendSnapshot, s1))"

definition appendEntries_begin :: "stable_load \<Rightarrow> string \<Rightarrow> bool \<Rightarrow> raft \<Rightarrow> (ae_call \<times> bool \<times> raft) outcome" where
  "appendEntries_begin load peerId sendSnapshot s =
     bind_outcome (appendEntries_ready peerId s) (\<lambda>ready.
       if \<not> ready then Inr (AeContinue, sendSnapshot, s)
       else bind_outcome (map_at (nextIndex s) peerId) (\<lambda>n.
         if log_firstIndex (mainLog s) > n
         then if pendingSnapshot s then Inr (AeContinue, sendSnapshot, s)
              else appendEntries_call load peerId (log_firstIndex (mainLog s)) True s
         else appendEntries_call load peerId n sendSnapshot s))"

definition ae_step_down :: "string \<Rightarrow> raft \<Rightarrow> raft" where
  "ae_step_down peerId s =
     s\<lparr>stopCalls := True, appendNow := AList.update peerId False (appendNow s),
       shouldStartHeartbeat := AList.update peerId False (shouldStartHeartbeat s)\<rparr>"

text \<open>The reply to InstallSnapshot; the first component says whether AppendEntries is sent next.\<close>

definition appendEntries_snapReply :: "int \<Rightarrow> string \<Rightarrow> InstallSnapshotArg \<Rightarrow> InstallSnapshotReply option
    \<Rightarrow> bool \<Rightarrow> raft \<Rightarrow> bool \<times> bool \<times> raft" where
  "appendEntries_snapReply now peerId snapArg snapReply sendSnapshot s =
     (if killed s \<or> role s \<noteq> Leader then (False, sendSnapshot, ae_step_down peerId s)
      else case snapReply of
        None \<Rightarrow> (False, sendSnapshot, s)
      | Some r \<Rightarrow>
          (case becameFollower now (isr_term r) peerId s of
             (True, s1) \<Rightarrow> (False, sendSnapshot, s1)
           | (False, s1) \<Rightarrow>
               if isr_term r < currentTerm s1 \<or> is_term snapArg \<noteq> currentTerm s1 then (False, sendSnapshot, s1)
               else if isr_success r
               then (True, False,
                     s1\<lparr>nextIndex := AList.update peerId (lastIncludedIndex s1 + 1) (nextIndex s1),
                        matchIndex := AList.update peerId (lastIncludedIndex s1) (matchIndex s1)\<rparr>)
               else (False, sendSnapshot, s1)))"

definition matches :: "raft \<Rightarrow> u64 \<Rightarrow> int" where
  "matches s i = 1 + int (length (filter (\<lambda>(k, index). index \<ge> i) (matchIndex s)))"

text \<open>The loop that looks for an index to commit, from the last one down.\<close>

function commit_scan :: "raft \<Rightarrow> u64 \<Rightarrow> u64 option outcome" where
  "commit_scan s i =
     (if i > commitIndex s
      then case log_at (mainLog s) i of
             None \<Rightarrow> Inl BadOptionalAccess
           | Some e \<Rightarrow>
               if le_term e = currentTerm s
               then if matches s i \<ge> majority s then Inr (Some i) else commit_scan s (i - 1)
               else Inr None
      else Inr None)"
  by pat_completeness auto
termination
proof (relation "measure (\<lambda>(s, i). unat i)", goal_cases)
  case 1
  show ?case by simp
next
  case (2 s i e)
  then have "i \<noteq> 0" by auto
  then show ?case using unat_minus1 [of i] unat_gt_0 [of i] by auto
qed

declare commit_scan.simps [simp del]

datatype ae_next = AeDone | AeFinish | AeApplyFinish

text \<open>
  The reply to AppendEntries. After a commit the thread calls \<open>applyCommittedEntries\<close>
  without the lock and then ends its turn with \<open>appendEntries_finish\<close>.
\<close>

definition ae_backup :: "string \<Rightarrow> AppendEntriesReply \<Rightarrow> raft \<Rightarrow> raft" where
  "ae_backup peerId r s =
     (let l = log_termLastIndex (mainLog s) (aer_conflictTerm r);
          n = (if l \<noteq> 0 then l + 1 else aer_conflictIndex r);
          hi = log_lastIndex (mainLog s) + 1;
          n' = (if n < 1 then 1 else if hi < n then hi else n)
      in s\<lparr>nextIndex := AList.update peerId n' (nextIndex s),
           appendNow := AList.update peerId True (appendNow s)\<rparr>)"

definition ae_acknowledged :: "string \<Rightarrow> u64 \<Rightarrow> AppendEntriesArg \<Rightarrow> raft \<Rightarrow> (ae_next \<times> raft) outcome" where
  "ae_acknowledged peerId n arg s =
     (let next = n + of_nat (length (log_data (ae_entries arg)));
          s1 = s\<lparr>nextIndex := AList.update peerId next (nextIndex s),
                 matchIndex := AList.update peerId (next - 1) (matchIndex s)\<rparr>
      in bind_outcome (commit_scan s1 (log_lastIndex (mainLog s1))) (\<lambda>c.
        case c of
          None \<Rightarrow> Inr (AeFinish, s1)
        | Some i \<Rightarrow> Inr (AeApplyFinish, s1\<lparr>commitIndex := i\<rparr>)))"

definition appendEntries_reply :: "int \<Rightarrow> string \<Rightarrow> u64 \<Rightarrow> AppendEntriesArg \<Rightarrow> AppendEntriesReply option
    \<Rightarrow> raft \<Rightarrow> (ae_next \<times> raft) outcome" where
  "appendEntries_reply now peerId n arg reply s =
     (if killed s \<or> role s \<noteq> Leader then Inr (AeDone, ae_step_down peerId s)
      else case reply of
        None \<Rightarrow> Inr (AeDone, s\<lparr>appendNow := AList.update peerId True (appendNow s)\<rparr>)
      | Some r \<Rightarrow>
          (case becameFollower now (aer_term r) peerId s of
             (True, s1) \<Rightarrow> Inr (AeDone, s1)
           | (False, s1) \<Rightarrow>
               if aer_term r < currentTerm s1 \<or> ae_term arg \<noteq> currentTerm s1
               then Inr (AeDone, s1\<lparr>appendNow := AList.update peerId True (appendNow s1)\<rparr>)
               else if aer_success r then ae_acknowledged peerId n arg s1
               else Inr (AeDone, ae_backup peerId r s1)))"

definition appendEntries_finish :: "string \<Rightarrow> raft \<Rightarrow> raft" where
  "appendEntries_finish peerId s =
     s\<lparr>appendNow := AList.update peerId False (appendNow s),
       shouldStartHeartbeat := AList.update peerId False (shouldStartHeartbeat s)\<rparr>"

text \<open>The callback of the heartbeat timer.\<close>

definition heartbeat :: "raft \<Rightarrow> raft" where
  "heartbeat s =
     (if role s = Leader then s\<lparr>shouldStartHeartbeat := set_values True (shouldStartHeartbeat s)\<rparr> else s)"

section \<open>Client commands and snapshots\<close>

text \<open>The command object is shared with the log entry, so the caller sees its new header.\<close>

definition start :: "command \<Rightarrow> raft \<Rightarrow> bool \<times> command \<times> raft" where
  "start c s =
     (if killed s \<or> role s \<noteq> Leader then (False, c, s\<lparr>stopCalls := True\<rparr>)
      else if pendingSnapshot s then (False, c, s)
      else
        let i = log_lastIndex (mainLog s) + 1;
            c' = with_header ((cmd_header c)\<lparr>hdr_term := currentTerm s, hdr_index := i\<rparr>) c;
            s1 = persist (s\<lparr>mainLog := log_append (mainLog s)
                   \<lparr>le_index = i, le_term = currentTerm s, le_command = c'\<rparr>\<rparr>)
        in (True, c', s1\<lparr>appendNow := set_values True (appendNow s1)\<rparr>))"

definition raft_snapshot :: "u64 \<Rightarrow> string \<Rightarrow> raft \<Rightarrow> raft outcome" where
  "raft_snapshot index sd s =
     (if killed s then Inr s
      else if pendingSnapshot s then Inr s
      else if index < lastIncludedIndex s then Inr s
      else if index > log_lastIndex (mainLog s) then Inr s
      else if index = lastIncludedIndex s then Inr (persist (s\<lparr>snapshotData := sd\<rparr>))
      else case log_at (mainLog s) index of
        None \<Rightarrow> Inl BadOptionalAccess
      | Some e \<Rightarrow>
          Inr (persist (s\<lparr>lastIncludedIndex := index, lastIncludedTerm := le_term e,
                 mainLog := log_trimPrefix (mainLog s) index (le_term e), snapshotData := sd\<rparr>)))"

text \<open>\<open>junk\<close> is not needed: every branch sets both fields of the reply.\<close>

definition installSnapshotHandler :: "int \<Rightarrow> int \<Rightarrow> InstallSnapshotArg \<Rightarrow> raft \<Rightarrow> InstallSnapshotReply \<times> raft" where
  "installSnapshotHandler t1 t2 arg s =
     (if killed s \<or> pendingSnapshot s \<or> is_term arg < currentTerm s
      then (\<lparr>isr_success = False, isr_term = currentTerm s\<rparr>, s)
      else
        let s1 = (snd (becameFollower t1 (is_term arg) (is_leaderId arg) s))\<lparr>lastHeartbeat := t2\<rparr>;
            s2 = persist (s1\<lparr>mainLog := log_trimPrefix (mainLog s1) (is_lastIncludedIndex arg) (is_lastIncludedTerm arg),
                   lastIncludedIndex := is_lastIncludedIndex arg, lastIncludedTerm := is_lastIncludedTerm arg,
                   snapshotData := is_data arg\<rparr>)
        in (\<lparr>isr_success = True, isr_term = currentTerm s2\<rparr>, s2\<lparr>pendingSnapshot := True\<rparr>))"

text \<open>
  The thread \<open>asyncInstallSnapshot\<close>: the command it sends to the state machine, and what it
  does when the send has succeeded.
\<close>

definition asyncInstallSnapshot_take :: "uuid \<Rightarrow> raft \<Rightarrow> (command \<times> u64 \<times> u64) option" where
  "asyncInstallSnapshot_take u s =
     (if killed s \<or> \<not> pendingSnapshot s then None
      else Some (InstallSnapshotCommand_new u (lastIncludedIndex s) (lastIncludedTerm s) (snapshotData s),
                 lastIncludedIndex s, lastIncludedTerm s))"

definition asyncInstallSnapshot_done :: "u64 \<Rightarrow> u64 \<Rightarrow> raft \<Rightarrow> raft" where
  "asyncInstallSnapshot_done index trm s =
     (if lastIncludedIndex s = index \<and> lastIncludedTerm s = trm
      then s\<lparr>lastApplied := index, commitIndex := index, pendingSnapshot := False\<rparr>
      else s)"

section \<open>Steps of a server\<close>

text \<open>
  Everything a server does besides asking for votes and answering vote requests, with any
  message of a peer, any result of a call and any interleaving: the handlers, the turns of the
  threads, the timer and the client operations.
\<close>

inductive local_step :: "stable_load \<Rightarrow> raft \<Rightarrow> raft \<Rightarrow> bool" for load where
  append_handler: "local_step load s (snd (snd (appendEntriesHandler junk t1 t2 arg s)))"
| snapshot_handler: "local_step load s (snd (installSnapshotHandler t1 t2 sarg s))"
| append_begin: "appendEntries_begin load p b s = Inr (c, b', s') \<Longrightarrow> local_step load s s'"
| snap_reply: "local_step load s (snd (snd (appendEntries_snapReply t p sarg sr b s)))"
| append_reply: "appendEntries_reply t p n arg r s = Inr (nx, s') \<Longrightarrow> local_step load s s'"
| append_finish: "local_step load s (appendEntries_finish p s)"
| heartbeat_tick: "local_step load s (heartbeat s)"
| client_start: "local_step load s (snd (snd (start c s)))"
| client_snapshot: "raft_snapshot i sd s = Inr s' \<Longrightarrow> local_step load s s'"
| snapshot_applied: "local_step load s (asyncInstallSnapshot_done i trm s)"
| entry_applied: "local_step load s (apply_done i s)"
| killing: "local_step load s (kill s)"

text \<open>The part of the state that elections depend on, and the state on disk.\<close>

definition synced :: "raft \<Rightarrow> bool" where
  "synced s \<longleftrightarrow> (\<exists>ps. saved s = Some ps \<and> ps_currentTerm ps = currentTerm s \<and> ps_votedFor ps = votedFor s)"

definition same_election :: "raft \<Rightarrow> raft \<Rightarrow> bool" where
  "same_election s s' \<longleftrightarrow> selfId s' = selfId s \<and> peers s' = peers s \<and> clusterSize s' = clusterSize s \<and>
     shouldStartElection s' = shouldStartElection s \<and> votesGranted s' = votesGranted s \<and>
     requestVoteArg s' = requestVoteArg s"

text \<open>
  A step that takes no part in an election: the term does not go back; within a term the vote
  stays and the role can only become follower; a new term starts as a follower without a vote
  and is saved.
\<close>

definition quiet :: "raft \<Rightarrow> raft \<Rightarrow> bool" where
  "quiet s s' \<longleftrightarrow> same_election s s' \<and>
     (currentTerm s' = currentTerm s \<and> votedFor s' = votedFor s \<and> (role s' = role s \<or> role s' = Follower) \<and>
        (saved s' = saved s \<or> synced s')
      \<or> currentTerm s < currentTerm s' \<and> role s' = Follower \<and> votedFor s' = None \<and> synced s')"

lemma synced_persist [simp]: "synced (persist s)"
  by (simp add: synced_def persist_def mk_PersistentState_def)

lemma persist_simps [simp]:
  "currentTerm (persist s) = currentTerm s" "votedFor (persist s) = votedFor s" "role (persist s) = role s"
  "mainLog (persist s) = mainLog s" "same_election s' (persist s) = same_election s' s"
  "commitIndex (persist s) = commitIndex s" "lastApplied (persist s) = lastApplied s"
  "lastIncludedIndex (persist s) = lastIncludedIndex s" "lastIncludedTerm (persist s) = lastIncludedTerm s"
  "selfId (persist s) = selfId s" "peers (persist s) = peers s" "clusterSize (persist s) = clusterSize s"
  "shouldStartElection (persist s) = shouldStartElection s" "killed (persist s) = killed s"
  "pendingSnapshot (persist s) = pendingSnapshot s" "snapshotData (persist s) = snapshotData s"
  "votesGranted (persist s) = votesGranted s" "requestVoteArg (persist s) = requestVoteArg s"
  "nextIndex (persist s) = nextIndex s" "matchIndex (persist s) = matchIndex s"
  "appendNow (persist s) = appendNow s" "shouldStartHeartbeat (persist s) = shouldStartHeartbeat s"
  by (simp_all add: persist_def same_election_def)

lemma quiet_refl [simp]: "quiet s s"
  by (simp add: quiet_def same_election_def)

lemma quiet_trans: "quiet s s1 \<Longrightarrow> quiet s1 s2 \<Longrightarrow> quiet s s2"
  unfolding quiet_def same_election_def synced_def by auto

lemma quiet_persist: "quiet s s1 \<Longrightarrow> quiet s (persist s1)"
  by (auto simp: quiet_def)

text \<open>Updates of fields that elections do not look at.\<close>

lemma quiet_update [simp]:
  "quiet s (s1\<lparr>lastHeartbeat := h\<rparr>) = quiet s s1" "quiet s (s1\<lparr>stopCalls := b\<rparr>) = quiet s s1"
  "quiet s (s1\<lparr>appendNow := m\<rparr>) = quiet s s1" "quiet s (s1\<lparr>shouldStartHeartbeat := m\<rparr>) = quiet s s1"
  "quiet s (s1\<lparr>commitIndex := i\<rparr>) = quiet s s1" "quiet s (s1\<lparr>lastApplied := i\<rparr>) = quiet s s1"
  "quiet s (s1\<lparr>nextIndex := n\<rparr>) = quiet s s1" "quiet s (s1\<lparr>matchIndex := n\<rparr>) = quiet s s1"
  "quiet s (s1\<lparr>mainLog := l\<rparr>) = quiet s s1" "quiet s (s1\<lparr>pendingSnapshot := b\<rparr>) = quiet s s1"
  "quiet s (s1\<lparr>lastIncludedIndex := i\<rparr>) = quiet s s1" "quiet s (s1\<lparr>lastIncludedTerm := i\<rparr>) = quiet s s1"
  "quiet s (s1\<lparr>snapshotData := d\<rparr>) = quiet s s1" "quiet s (s1\<lparr>killed := b\<rparr>) = quiet s s1"
  by (simp_all add: quiet_def same_election_def synced_def)

lemma quiet_follower: "quiet s s1 \<Longrightarrow> quiet s (s1\<lparr>role := Follower\<rparr>)"
  by (auto simp: quiet_def same_election_def synced_def)

lemma quiet_becameFollower: "quiet s (snd (becameFollower now t p s))"
  by (simp add: becameFollower_def Let_def)
    (simp add: quiet_def same_election_def)

lemmas quiet_intros = quiet_becameFollower quiet_refl quiet_persist quiet_follower

lemma quiet_becameFollower_eq: "becameFollower now t p s = (b, s1) \<Longrightarrow> quiet s s1"
  using quiet_becameFollower [of s now t p] by simp

lemma quiet_appendEntriesHandler: "quiet s (snd (snd (appendEntriesHandler junk t1 t2 arg s)))"
  by (simp add: appendEntriesHandler_def ae_accept_def Let_def quiet_intros)

lemma quiet_installSnapshotHandler: "quiet s (snd (installSnapshotHandler t1 t2 arg s))"
  by (simp add: installSnapshotHandler_def Let_def quiet_intros)

lemma quiet_appendEntries_call:
  assumes "appendEntries_call load p n b s = Inr (c, b', s')"
  shows "quiet s s'"
proof (cases "log_at (mainLog s) (n - 1) = None \<and> \<not> (b \<or> n - 1 \<le> lastIncludedIndex s) \<and> n - 1 \<noteq> 0")
  case True
  with assms have "s' = s\<lparr>appendNow := AList.update p True (appendNow s)\<rparr>"
    by (simp add: appendEntries_call_def Let_def)
  then show ?thesis by simp
next
  case False
  with assms have "s' = s\<lparr>stopCalls := False\<rparr>"
    unfolding appendEntries_call_def Let_def if_not_P [OF False]
    by (cases b) (auto simp: bind_outcome_Inr)
  then show ?thesis by simp
qed

lemma quiet_appendEntries_begin:
  "appendEntries_begin load p b s = Inr (c, b', s') \<Longrightarrow> quiet s s'"
  unfolding appendEntries_begin_def
  by (auto simp: bind_outcome_Inr dest: quiet_appendEntries_call split: if_split_asm)

lemma quiet_snapReply: "quiet s (snd (snd (appendEntries_snapReply t p sarg sr b s)))"
  by (auto simp: appendEntries_snapReply_def ae_step_down_def dest: quiet_becameFollower_eq
      split: option.splits prod.splits bool.splits)

lemma quiet_appendEntries_reply:
  assumes "appendEntries_reply t p n arg r s = Inr (nx, s')"
  shows "quiet s s'"
proof (cases r)
  case None
  with assms show ?thesis by (auto simp: appendEntries_reply_def ae_step_down_def split: if_splits)
next
  case (Some r')
  obtain b s1 where bf: "becameFollower t (aer_term r') p s = (b, s1)" by fastforce
  from quiet_becameFollower_eq [OF bf] assms Some bf show ?thesis
    by (auto simp: appendEntries_reply_def ae_step_down_def ae_acknowledged_def ae_backup_def
        bind_outcome_Inr Let_def split: if_splits option.splits bool.splits)
qed

lemma quiet_start: "quiet s (snd (snd (start c s)))"
  by (simp add: start_def Let_def quiet_intros)

lemma quiet_snapshot: "raft_snapshot i sd s = Inr s' \<Longrightarrow> quiet s s'"
  by (auto simp: raft_snapshot_def quiet_intros split: if_splits option.splits)

lemma local_step_quiet: "local_step load s s' \<Longrightarrow> quiet s s'"
proof (induction rule: local_step.induct)
  case (append_begin p b s c b' s')
  then show ?case by (rule quiet_appendEntries_begin)
next
  case (append_reply t p n arg r s nx s')
  then show ?case by (rule quiet_appendEntries_reply)
next
  case (client_snapshot i sd s s')
  then show ?case by (rule quiet_snapshot)
qed (simp_all add: quiet_appendEntriesHandler quiet_installSnapshotHandler quiet_snapReply quiet_start
    appendEntries_finish_def heartbeat_def asyncInstallSnapshot_done_def apply_done_def kill_def)

section \<open>Votes are kept\<close>

text \<open>
  \<open>ballot T c s\<close>: the server can no longer vote for anybody but \<open>c\<close> in term \<open>T\<close>, neither
  from memory nor from what it has saved.
\<close>

definition ballot :: "u64 \<Rightarrow> string \<Rightarrow> raft \<Rightarrow> bool" where
  "ballot T c s \<longleftrightarrow>
     (T < currentTerm s \<or> currentTerm s = T \<and> votedFor s = Some c) \<and>
     (case saved s of None \<Rightarrow> False
      | Some ps \<Rightarrow> T < ps_currentTerm ps \<or> ps_currentTerm ps = T \<and> ps_votedFor ps = Some c)"

lemma ballot_quiet: "quiet s s' \<Longrightarrow> ballot T c s \<Longrightarrow> ballot T c s'"
  by (auto simp: quiet_def ballot_def synced_def split: option.splits)

lemma ballot_synced: "synced s \<Longrightarrow> ballot T c s \<longleftrightarrow> T < currentTerm s \<or> currentTerm s = T \<and> votedFor s = Some c"
  by (auto simp: ballot_def synced_def)

lemma ballot_term: "ballot T c s \<Longrightarrow> T \<le> currentTerm s"
  by (auto simp: ballot_def)

text \<open>What the vote handler does, branch by branch.\<close>

lemma requestVoteHandler_cases:
  assumes "requestVoteHandler t1 t2 arg s = (r, s')"
  obtains (refused) "\<not> rvr_voteGranted r" "quiet s s'"
  | (granted) "rvr_voteGranted r" "rvr_term r = rv_term arg" "currentTerm s' = rv_term arg"
      "votedFor s' = Some (rv_candidateId arg)" "role s' = Follower" "synced s'" "same_election s s'"
      "currentTerm s < rv_term arg \<or> currentTerm s = rv_term arg \<and> hasVote (rv_candidateId arg) s"
      "upToDate (rv_lastLogIndex arg) (rv_lastLogTerm arg) s"
proof -
  let ?s1 = "snd (becameFollower t1 (rv_term arg) (rv_candidateId arg) s)"
  have s1: "currentTerm s \<le> rv_term arg \<Longrightarrow> currentTerm ?s1 = rv_term arg"
    "mainLog ?s1 = mainLog s" "same_election s ?s1"
    using quiet_becameFollower [of s t1 "rv_term arg" "rv_candidateId arg"]
    by (auto simp: becameFollower_def Let_def quiet_def)
  have vote: "hasVote (rv_candidateId arg) ?s1 \<Longrightarrow> currentTerm s \<le> rv_term arg \<Longrightarrow>
      currentTerm s < rv_term arg \<or> currentTerm s = rv_term arg \<and> hasVote (rv_candidateId arg) s"
    by (auto simp: becameFollower_def)
  show thesis
  proof (cases "\<not> killed s \<and> \<not> rv_term arg < currentTerm s \<and> hasVote (rv_candidateId arg) ?s1 \<and>
      upToDate (rv_lastLogIndex arg) (rv_lastLogTerm arg) ?s1")
    case True
    with assms have r: "r = mk_RequestVoteReply True (currentTerm ?s1)"
      "s' = persist (?s1\<lparr>votedFor := Some (rv_candidateId arg), role := Follower, lastHeartbeat := t2\<rparr>)"
      by (auto simp: requestVoteHandler_def Let_def)
    show thesis
      by (rule granted) (use True r s1 vote in \<open>auto simp: mk_RequestVoteReply_def upToDate_def same_election_def\<close>)
  next
    case False
    with assms have "\<not> rvr_voteGranted r" "quiet s s'"
      using quiet_becameFollower [of s t1 "rv_term arg" "rv_candidateId arg"]
      by (auto simp: requestVoteHandler_def Let_def mk_RequestVoteReply_def split: if_splits)
    then show thesis by (rule refused)
  qed
qed

end
