(* ===== verification/RaftElection.thy ===== *)
theory RaftElection
  imports RaftNode
begin

text \<open>
  A cluster of servers that elect leaders over a network that loses, delays, reorders and
  duplicates messages, with servers that crash and restart from what they have saved. Vote
  requests and replies are modelled message by message; everything else a server does is a
  \<^const>\<open>local_step\<close> with an arbitrary message, so nothing is assumed of the other traffic.
  The fields \<open>ballots\<close> and \<open>elected\<close> record the votes that were cast and the elections
  that were won; no step reads them.
\<close>

section \<open>The cluster\<close>

record cluster =
  nodes :: "string \<Rightarrow> raft"
  calls :: "string \<times> string \<Rightarrow> RequestVoteArg option"
  requests :: "(string \<times> RequestVoteArg) set"
  replies :: "(string \<times> RequestVoteArg \<times> RequestVoteReply) set"
  ballots :: "(string \<times> u64 \<times> string) set"
  elected :: "(string \<times> u64) set"

text \<open>
  \<open>calls (i, j)\<close> is the call the thread \<open>requestVote(j)\<close> of server \<open>i\<close> is waiting for.
  A call can fail (\<open>reply = None\<close>), or return any reply server \<open>j\<close> ever made to that
  argument.
\<close>

inductive vote_step :: "string list \<Rightarrow> cluster \<Rightarrow> cluster \<Rightarrow> bool" for ids where
  timeout: "i \<in> set ids \<Longrightarrow> currentTerm (nodes C i) \<noteq> - 1 \<Longrightarrow> s' = initVote now (nodes C i) \<Longrightarrow>
     vote_step ids C (C\<lparr>nodes := (nodes C)(i := s'),
       ballots := ballots C \<union> (if currentTerm s' \<noteq> currentTerm (nodes C i) then {(i, currentTerm s', i)} else {})\<rparr>)"
| call: "i \<in> set ids \<Longrightarrow> j \<in> set (peers (nodes C i)) \<Longrightarrow> calls C (i, j) = None \<Longrightarrow>
     requestVote_begin j (nodes C i) = Inr (Some arg, s') \<Longrightarrow>
     vote_step ids C (C\<lparr>nodes := (nodes C)(i := s'),
       calls := (calls C)((i, j) := Some arg), requests := insert (j, arg) (requests C)\<rparr>)"
| deliver: "j \<in> set ids \<Longrightarrow> (j, arg) \<in> requests C \<Longrightarrow>
     requestVoteHandler t1 t2 arg (nodes C j) = (r, s') \<Longrightarrow>
     vote_step ids C (C\<lparr>nodes := (nodes C)(j := s'),
       replies := insert (j, arg, r) (replies C),
       ballots := ballots C \<union> (if rvr_voteGranted r then {(j, rv_term arg, rv_candidateId arg)} else {})\<rparr>)"
| return: "i \<in> set ids \<Longrightarrow> calls C (i, j) = Some arg \<Longrightarrow>
     (case reply of None \<Rightarrow> True | Some r \<Rightarrow> (j, arg, r) \<in> replies C) \<Longrightarrow>
     s' = requestVote_reply now j arg reply (nodes C i) \<Longrightarrow>
     vote_step ids C (C\<lparr>nodes := (nodes C)(i := s'), calls := (calls C)((i, j) := None),
       elected := elected C \<union> (if role s' = Leader \<and> role (nodes C i) \<noteq> Leader then {(i, currentTerm s')} else {})\<rparr>)"

inductive cluster_step :: "stable_load \<Rightarrow> (PersistentState \<Rightarrow> bool) \<Rightarrow> string list \<Rightarrow> RetryPolicy
    \<Rightarrow> cluster \<Rightarrow> cluster \<Rightarrow> bool" for load storable ids pol where
  local_op: "i \<in> set ids \<Longrightarrow> local_step load (nodes C i) s' \<Longrightarrow>
     cluster_step load storable ids pol C (C\<lparr>nodes := (nodes C)(i := s')\<rparr>)"
| voting: "vote_step ids C C' \<Longrightarrow> cluster_step load storable ids pol C C'"
| restart: "i \<in> set ids \<Longrightarrow> (case saved (nodes C i) of None \<Rightarrow> True | Some ps \<Rightarrow> storable ps) \<Longrightarrow>
     RaftImpl_new load ids i pol now (saved (nodes C i)) = Inr s' \<Longrightarrow>
     cluster_step load storable ids pol C (C\<lparr>nodes := (nodes C)(i := s'),
       calls := (\<lambda>(a, b). if a = i then None else calls C (a, b))\<rparr>)"

definition cluster_init :: "stable_load \<Rightarrow> string list \<Rightarrow> RetryPolicy \<Rightarrow> (string \<Rightarrow> int) \<Rightarrow> cluster \<Rightarrow> bool" where
  "cluster_init load ids pol now C \<longleftrightarrow>
     (\<forall>i \<in> set ids. RaftImpl_new load ids i pol (now i) None = Inr (nodes C i)) \<and>
     calls C = (\<lambda>_. None) \<and> requests C = {} \<and> replies C = {} \<and> ballots C = {} \<and> elected C = {}"

inductive cluster_reach :: "stable_load \<Rightarrow> (PersistentState \<Rightarrow> bool) \<Rightarrow> string list \<Rightarrow> RetryPolicy
    \<Rightarrow> cluster \<Rightarrow> bool" for load storable ids pol where
  reach_init: "cluster_init load ids pol now C \<Longrightarrow> cluster_reach load storable ids pol C"
| reach_step: "cluster_reach load storable ids pol C \<Longrightarrow> cluster_step load storable ids pol C C' \<Longrightarrow>
     cluster_reach load storable ids pol C'"

section \<open>The invariant\<close>

definition identity_ok :: "string list \<Rightarrow> string \<Rightarrow> raft \<Rightarrow> bool" where
  "identity_ok ids i s \<longleftrightarrow> selfId s = i \<and> set (peers s) = set ids - {i} \<and> clusterSize s = of_nat (length ids)"

text \<open>
  The votes a candidate has counted come from different servers: from each of them it holds a
  ballot, it asks none of them again in this term, and it waits for none of them.
\<close>

definition counted :: "string list \<Rightarrow> (string \<times> u64 \<times> string) set \<Rightarrow> (string \<Rightarrow> RequestVoteArg option)
    \<Rightarrow> raft \<Rightarrow> string set \<Rightarrow> bool" where
  "counted ids B cs s S \<longleftrightarrow> S \<subseteq> set ids - {selfId s} \<and> votesGranted s \<le> 1 + int (card S) \<and>
     (\<forall>j \<in> S. (j, currentTerm s, selfId s) \<in> B \<and> map_of (shouldStartElection s) j \<noteq> Some True \<and>
        (\<forall>arg. cs j = Some arg \<longrightarrow> rv_term arg \<noteq> currentTerm s))"

definition calls_ok :: "(string \<Rightarrow> RequestVoteArg option) \<Rightarrow> raft \<Rightarrow> bool" where
  "calls_ok cs s \<longleftrightarrow> (\<forall>j arg. cs j = Some arg \<longrightarrow>
     rv_candidateId arg = selfId s \<and> rv_term arg \<le> currentTerm s \<and> j \<in> set (peers s) \<and>
     (role s = Candidate \<and> rv_term arg = currentTerm s \<longrightarrow> map_of (shouldStartElection s) j = Some False))"

definition candidate_ok :: "string list \<Rightarrow> (string \<times> u64 \<times> string) set \<Rightarrow> (string \<Rightarrow> RequestVoteArg option)
    \<Rightarrow> raft \<Rightarrow> bool" where
  "candidate_ok ids B cs s \<longleftrightarrow> (role s = Candidate \<longrightarrow>
     rv_candidateId (requestVoteArg s) = selfId s \<and> rv_term (requestVoteArg s) = currentTerm s \<and>
     (\<exists>S. counted ids B cs s S))"

text \<open>What holds of one server, given the ballots \<open>B\<close>, the elections \<open>E\<close> and its calls.\<close>

definition server_ok :: "string list \<Rightarrow> (string \<times> u64 \<times> string) set \<Rightarrow> (string \<times> u64) set
    \<Rightarrow> (string \<Rightarrow> RequestVoteArg option) \<Rightarrow> string \<Rightarrow> raft \<Rightarrow> bool" where
  "server_ok ids B E cs i s \<longleftrightarrow> identity_ok ids i s \<and> calls_ok cs s \<and> candidate_ok ids B cs s \<and>
     (role s \<noteq> Follower \<longrightarrow> (i, currentTerm s, i) \<in> B) \<and>
     (role s = Leader \<longrightarrow> (i, currentTerm s) \<in> E) \<and>
     (\<forall>T c. (i, T, c) \<in> B \<longrightarrow> ballot T c s)"

definition quorum :: "string list \<Rightarrow> (string \<times> u64 \<times> string) set \<Rightarrow> string \<Rightarrow> u64 \<Rightarrow> bool" where
  "quorum ids B i T \<longleftrightarrow> (\<exists>Q \<subseteq> set ids. length ids < 2 * card Q \<and> (\<forall>j \<in> Q. (j, T, i) \<in> B))"

definition cluster_ok :: "string list \<Rightarrow> cluster \<Rightarrow> bool" where
  "cluster_ok ids C \<longleftrightarrow>
     (\<forall>i \<in> set ids. server_ok ids (ballots C) (elected C) (\<lambda>j. calls C (i, j)) i (nodes C i)) \<and>
     (\<forall>j T c c'. (j, T, c) \<in> ballots C \<longrightarrow> (j, T, c') \<in> ballots C \<longrightarrow> c = c') \<and>
     (\<forall>j arg r. (j, arg, r) \<in> replies C \<longrightarrow> rvr_voteGranted r \<longrightarrow>
        (j, rv_term arg, rv_candidateId arg) \<in> ballots C) \<and>
     (\<forall>i T. (i, T) \<in> elected C \<longrightarrow> quorum ids (ballots C) i T)"

section \<open>Monotonicity\<close>

lemma counted_mono: "counted ids B cs s S \<Longrightarrow> B \<subseteq> B' \<Longrightarrow> counted ids B' cs s S"
  unfolding counted_def by blast

lemma quorum_mono: "quorum ids B i T \<Longrightarrow> B \<subseteq> B' \<Longrightarrow> quorum ids B' i T"
  unfolding quorum_def by (meson subsetD)

text \<open>Another server's votes and elections do not touch this one.\<close>

lemma server_ok_mono:
  assumes "server_ok ids B E cs i s" and "B \<subseteq> B'" and "E \<subseteq> E'"
    and "\<And>T c. (i, T, c) \<in> B' \<Longrightarrow> (i, T, c) \<in> B"
  shows "server_ok ids B' E' cs i s"
  using assms counted_mono [OF _ assms(2)] unfolding server_ok_def candidate_ok_def by blast

section \<open>The steps keep the invariant\<close>

lemma server_ok_quiet:
  assumes "server_ok ids B E cs i s" and q: "quiet s s'"
  shows "server_ok ids B E cs i s'"
proof -
  have same: "same_election s s'" using q by (simp add: quiet_def)
  have ord: "currentTerm s \<le> currentTerm s'" using q by (auto simp: quiet_def)
  have role: "role s' \<noteq> Follower \<Longrightarrow> role s' = role s \<and> currentTerm s' = currentTerm s"
    using q by (auto simp: quiet_def)
  have "calls_ok cs s'"
    using assms(1) same ord role unfolding server_ok_def calls_ok_def same_election_def
    by (metis Role.distinct(1) order_trans)
  moreover have "candidate_ok ids B cs s'"
    using assms(1) same role unfolding server_ok_def candidate_ok_def counted_def same_election_def
    by (metis Role.distinct(1))
  moreover have "ballot T c s'" if "(i, T, c) \<in> B" for T c
    using that assms(1) ballot_quiet [OF q] by (simp add: server_ok_def)
  ultimately show ?thesis
    using assms(1) same role unfolding server_ok_def identity_ok_def same_election_def
    by (metis Role.distinct(3))
qed

lemma counted_drop_call: "counted ids B cs s S \<Longrightarrow> counted ids B (cs(j := None)) s S"
  by (simp add: counted_def)

lemma calls_ok_drop_call: "calls_ok cs s \<Longrightarrow> calls_ok (cs(j := None)) s"
  by (simp add: calls_ok_def)

lemma server_ok_drop_call: "server_ok ids B E cs i s \<Longrightarrow> server_ok ids B E (cs(j := None)) i s"
  unfolding server_ok_def candidate_ok_def
  using counted_drop_call calls_ok_drop_call by blast

text \<open>A timeout that starts an election.\<close>

lemma initVote_fields:
  assumes "currentTerm s \<noteq> - 1" and "currentTerm (initVote now s) \<noteq> currentTerm s"
  shows "role (initVote now s) = Candidate \<and> currentTerm s < currentTerm (initVote now s) \<and> votedFor (initVote now s) = Some (selfId s) \<and>
    synced (initVote now s) \<and> selfId (initVote now s) = selfId s \<and> peers (initVote now s) = peers s \<and>
    clusterSize (initVote now s) = clusterSize s \<and> votesGranted (initVote now s) = 1 \<and>
    rv_candidateId (requestVoteArg (initVote now s)) = selfId s \<and>
    rv_term (requestVoteArg (initVote now s)) = currentTerm (initVote now s)"
  using assms less_plus1 [OF assms(1)]
  by (auto simp: initVote_def Let_def mk_RequestVoteArg_def synced_def persist_def mk_PersistentState_def
      split: if_splits)

lemma initVote_same: "currentTerm (initVote now s) = currentTerm s \<Longrightarrow> initVote now s = s"
  by (auto simp: initVote_def Let_def split: if_splits)

lemma server_ok_initVote:
  assumes ok: "server_ok ids B E cs i s" and "currentTerm s \<noteq> - 1"
    and new: "currentTerm (initVote now s) \<noteq> currentTerm s"
  shows "server_ok ids (insert (i, currentTerm (initVote now s), i) B) E cs i (initVote now s)"
proof -
  let ?s = "initVote now s"
  note f = initVote_fields [OF assms(2) new]
  have self: "selfId s = i" using ok by (simp add: server_ok_def identity_ok_def)
  have "calls_ok cs s" using ok by (simp add: server_ok_def)
  then have "rv_candidateId arg = selfId s \<and> rv_term arg < currentTerm ?s \<and> j \<in> set (peers s)"
    if "cs j = Some arg" for j arg
    using that f unfolding calls_ok_def by (meson order.strict_trans1)
  then have "calls_ok cs ?s" using f unfolding calls_ok_def by fastforce
  moreover have "counted ids (insert (i, currentTerm ?s, i) B) cs ?s {}"
    using f by (simp add: counted_def)
  moreover have "ballot T c ?s" if "(i, T, c) \<in> insert (i, currentTerm ?s, i) B" for T c
  proof (cases "(i, T, c) \<in> B")
    case True
    then have "T \<le> currentTerm s" using ok by (auto simp: server_ok_def dest: ballot_term)
    with f have "T < currentTerm ?s" by (meson order.strict_trans1)
    with f show ?thesis by (simp add: ballot_synced)
  next
    case False
    with that f self show ?thesis by (simp add: ballot_synced)
  qed
  ultimately show ?thesis
    using ok f self by (auto simp: server_ok_def identity_ok_def candidate_ok_def)
qed

lemma server_ok_begin:
  assumes ok: "server_ok ids B E cs i s" and j: "j \<in> set (peers s)"
    and rb: "requestVote_begin j s = Inr (Some arg, s')"
  shows "server_ok ids B E (cs(j := Some arg)) i s'"
proof -
  from rb have c: "role s = Candidate" "map_of (shouldStartElection s) j = Some True"
    "arg = requestVoteArg s"
    "s' = s\<lparr>shouldStartElection := AList.update j False (shouldStartElection s)\<rparr>"
    by (auto simp: requestVote_begin_def map_at_def bind_outcome_Inr split: if_splits option.splits)
  have cand: "candidate_ok ids B cs s" and co: "calls_ok cs s" using ok by (simp_all add: server_ok_def)
  then obtain S where S: "counted ids B cs s S" and arg: "rv_candidateId arg = selfId s" "rv_term arg = currentTerm s"
    using c by (auto simp: candidate_ok_def)
  have "calls_ok (cs(j := Some arg)) s'"
    using co c j arg by (simp add: calls_ok_def)
  moreover have "j \<notin> S" using S c by (auto simp: counted_def)
  then have "counted ids B (cs(j := Some arg)) s' S"
    using S c unfolding counted_def by simp
  then have "candidate_ok ids B (cs(j := Some arg)) s'"
    using c arg by (auto simp: candidate_ok_def)
  moreover have "ballot T c' s' = ballot T c' s" for T c'
    using c by (simp add: ballot_def)
  ultimately show ?thesis
    using ok c by (simp add: server_ok_def identity_ok_def)
qed

lemma grant_unique:
  assumes ok: "server_ok ids B E cs j s"
    and free: "currentTerm s < T \<or> currentTerm s = T \<and> hasVote c s" and old: "(j, T, c') \<in> B"
  shows "c' = c"
proof -
  have "ballot T c' s" using ok old by (simp add: server_ok_def)
  with free show ?thesis by (auto simp: ballot_def hasVote_def)
qed

lemma server_ok_grant:
  assumes ok: "server_ok ids B E cs j s"
    and free: "currentTerm s < T \<or> currentTerm s = T \<and> hasVote c s"
    and s': "currentTerm s' = T" "votedFor s' = Some c" "role s' = Follower" "synced s'" "same_election s s'"
  shows "server_ok ids (insert (j, T, c) B) E cs j s'"
proof -
  have "ballot T' c' s'" if "(j, T', c') \<in> insert (j, T, c) B" for T' c'
  proof (cases "(j, T', c') \<in> B")
    case True
    then have "T' \<le> currentTerm s" using ok by (auto simp: server_ok_def dest: ballot_term)
    moreover have "T' = T \<Longrightarrow> c' = c" using grant_unique [OF ok free] True by simp
    ultimately show ?thesis using free s' by (auto simp: ballot_synced)
  next
    case False
    with that s' show ?thesis by (simp add: ballot_synced)
  qed
  moreover have le: "currentTerm s \<le> T" using free by auto
  have "calls_ok cs s" using ok by (simp add: server_ok_def)
  then have "calls_ok cs s'"
    using s' order_trans [OF _ le] by (simp add: calls_ok_def same_election_def)
  ultimately show ?thesis
    using ok s' by (simp add: server_ok_def identity_ok_def candidate_ok_def same_election_def)
qed

section \<open>Counting votes\<close>

lemma clusterSize_uint: "length ids < 256 \<Longrightarrow> uint (of_nat (length ids) :: u8) = int (length ids)"
  by (simp add: unsigned_of_nat take_bit_nat_eq_self)

text \<open>One more granted vote of the current term.\<close>

lemma counted_insert:
  assumes S: "counted ids B cs s S" and j: "j \<in> set ids - {selfId s}"
    and arg: "cs j = Some arg" "rv_term arg = currentTerm s"
    and "(j, currentTerm s, selfId s) \<in> B" and "map_of (shouldStartElection s) j = Some False"
  shows "counted ids B (cs(j := None)) (s\<lparr>votesGranted := votesGranted s + 1\<rparr>) (insert j S)"
proof -
  have "j \<notin> S" using S arg by (auto simp: counted_def)
  moreover have "finite S" using S by (auto simp: counted_def intro: finite_subset)
  ultimately show ?thesis using assms by (auto simp: counted_def)
qed

text \<open>A count that reaches the majority is backed by a quorum of ballots.\<close>

lemma counted_quorum:
  assumes S: "counted ids B cs s S" and "length ids < 256" and "clusterSize s = of_nat (length ids)"
    and "majority s \<le> votesGranted s" and self: "(selfId s, currentTerm s, selfId s) \<in> B" "selfId s \<in> set ids"
  shows "quorum ids B (selfId s) (currentTerm s)"
proof -
  let ?Q = "insert (selfId s) S"
  have fin: "finite S" and notin: "selfId s \<notin> S" using S by (auto simp: counted_def intro: finite_subset)
  have "int (length ids) div 2 + 1 \<le> 1 + int (card S)"
    using S assms(3,4) clusterSize_uint [OF assms(2)] by (auto simp: counted_def majority_def)
  then have "int (length ids) < 2 * (1 + int (card S))" by presburger
  then have "length ids < 2 * card ?Q" using fin notin by simp
  moreover have "?Q \<subseteq> set ids" "\<forall>j \<in> ?Q. (j, currentTerm s, selfId s) \<in> B"
    using S self by (auto simp: counted_def)
  ultimately show ?thesis unfolding quorum_def by blast
qed

definition count_vote :: "raft \<Rightarrow> raft" where
  "count_vote s = s\<lparr>votesGranted := votesGranted s + 1\<rparr>"

lemma requestVote_reply_cases:
  obtains (uncounted) "quiet s (requestVote_reply now j arg reply s)"
  | (counts) r where "reply = Some r" "rvr_voteGranted r" "role s = Candidate" "rv_term arg = currentTerm s"
      "requestVote_reply now j arg reply s =
        (if majority (count_vote s) \<le> votesGranted (count_vote s) then becomeLeader (count_vote s) else count_vote s)"
proof (cases "killed s \<or> role s \<noteq> Candidate \<or> reply = None")
  case True
  then have "quiet s (requestVote_reply now j arg reply s)"
    by (auto simp: requestVote_reply_def)
  then show thesis by (rule uncounted)
next
  case False
  then obtain r where r: "reply = Some r" "\<not> killed s" "role s = Candidate" by auto
  obtain b s1 where bf: "becameFollower now (rvr_term r) j s = (b, s1)" by fastforce
  note q = quiet_becameFollower_eq [OF bf]
  have s1: "\<not> b \<Longrightarrow> s1 = s" using bf by (auto simp: becameFollower_def Let_def split: if_splits)
  show thesis
  proof (cases "b \<or> rvr_term r < currentTerm s1 \<or> rv_term arg \<noteq> currentTerm s1 \<or> \<not> rvr_voteGranted r")
    case True
    with r bf q have "quiet s (requestVote_reply now j arg reply s)"
      by (auto simp: requestVote_reply_def split: bool.splits)
    then show thesis by (rule uncounted)
  next
    case False
    with r bf s1 show thesis by (intro counts [of r]) (simp_all add: requestVote_reply_def count_vote_def)
  qed
qed

lemma server_ok_counted:
  assumes ok: "server_ok ids B E cs i s" and cand: "role s = Candidate" and arg: "cs j = Some arg" "rv_term arg = currentTerm s"
    and b: "(j, rv_term arg, rv_candidateId arg) \<in> B"
  shows "\<exists>S. counted ids B (cs(j := None)) (count_vote s) S"
    and "server_ok ids B E (cs(j := None)) i (count_vote s)"
proof -
  have self: "selfId s = i" and pe: "set (peers s) = set ids - {i}"
    using ok by (simp_all add: server_ok_def identity_ok_def)
  have co: "calls_ok cs s" using ok by (simp add: server_ok_def)
  with arg cand self pe have c: "rv_candidateId arg = i" "j \<in> set ids - {i}" "map_of (shouldStartElection s) j = Some False"
    unfolding calls_ok_def by (metis, metis, metis)
  from ok cand obtain S where S: "counted ids B cs s S" by (auto simp: server_ok_def candidate_ok_def)
  have "counted ids B (cs(j := None)) (count_vote s) (insert j S)"
    unfolding count_vote_def by (rule counted_insert [OF S _ arg]) (use c self arg b in auto)
  then show S': "\<exists>S. counted ids B (cs(j := None)) (count_vote s) S" by blast
  have "ballot T c (count_vote s) = ballot T c s" for T c by (simp add: ballot_def count_vote_def)
  moreover have "calls_ok (cs(j := None)) (count_vote s)"
    using calls_ok_drop_call [OF co] by (simp add: calls_ok_def count_vote_def)
  ultimately show "server_ok ids B E (cs(j := None)) i (count_vote s)"
    using ok S' by (simp add: server_ok_def identity_ok_def candidate_ok_def count_vote_def)
qed

lemma becomeLeader_simps [simp]:
  "role (becomeLeader s) = Leader" "currentTerm (becomeLeader s) = currentTerm s"
  "selfId (becomeLeader s) = selfId s" "peers (becomeLeader s) = peers s"
  "clusterSize (becomeLeader s) = clusterSize s" "ballot T c (becomeLeader s) = ballot T c s"
  "mainLog (becomeLeader s) = mainLog s"
  by (simp_all add: becomeLeader_def ballot_def)

lemma server_ok_becomeLeader:
  assumes "server_ok ids B E cs i s" and "role s = Candidate"
  shows "server_ok ids B (insert (i, currentTerm s) E) cs i (becomeLeader s)"
proof -
  have "calls_ok cs s" using assms(1) by (simp add: server_ok_def)
  then have "calls_ok cs (becomeLeader s)" by (simp add: calls_ok_def)
  with assms show ?thesis by (simp add: server_ok_def identity_ok_def candidate_ok_def)
qed

text \<open>A restart from the saved state.\<close>

lemma RaftImpl_new_fields:
  assumes "RaftImpl_new load ids i pol now sv = Inr s'"
  shows "\<exists>ps. load sv = Inr ps \<and> currentTerm s' = ps_currentTerm ps \<and> votedFor s' = ps_votedFor ps \<and>
    role s' = Follower \<and> selfId s' = i \<and> set (peers s') = set ids - {i} \<and>
    clusterSize s' = of_nat (length ids) \<and> saved s' = sv"
  using assms
  by (auto simp: RaftImpl_new_def Let_def bind_outcome_Inr readPersist_def raft_members_def)

lemma ballot_restart:
  assumes p: "persister load storable" and new: "RaftImpl_new load ids i pol now (saved s) = Inr s'"
    and ok: "case saved s of None \<Rightarrow> True | Some ps \<Rightarrow> storable ps" and b: "ballot T c s"
  shows "ballot T c s'"
proof -
  from b obtain ps where ps: "saved s = Some ps" "T < ps_currentTerm ps \<or> ps_currentTerm ps = T \<and> ps_votedFor ps = Some c"
    by (auto simp: ballot_def split: option.splits)
  from RaftImpl_new_fields [OF new] ps obtain ps' where ps': "load (Some ps) = Inr ps'"
    "currentTerm s' = ps_currentTerm ps'" "votedFor s' = ps_votedFor ps'" "saved s' = Some ps" by auto
  have "storable ps" using ok ps by simp
  from persister.load_keeps_vote [OF p this ps'(1)] ps ps' show ?thesis
    by (auto simp: ballot_def)
qed

lemma server_ok_restart:
  assumes p: "persister load storable" and new: "RaftImpl_new load ids i pol now (saved s) = Inr s'"
    and st: "case saved s of None \<Rightarrow> True | Some ps \<Rightarrow> storable ps" and ok: "server_ok ids B E cs i s"
  shows "server_ok ids B E (\<lambda>_. None) i s'"
proof -
  have "ballot T c s'" if "(i, T, c) \<in> B" for T c
    using ballot_restart [OF p new st] ok that by (simp add: server_ok_def)
  with RaftImpl_new_fields [OF new] show ?thesis
    by (auto simp: server_ok_def identity_ok_def calls_ok_def candidate_ok_def)
qed

section \<open>Cluster steps\<close>

lemma cluster_okD:
  assumes "cluster_ok ids C"
  shows "i \<in> set ids \<Longrightarrow> server_ok ids (ballots C) (elected C) (\<lambda>j. calls C (i, j)) i (nodes C i)"
    and "(j, T, c) \<in> ballots C \<Longrightarrow> (j, T, c') \<in> ballots C \<Longrightarrow> c = c'"
    and "(j, arg, r) \<in> replies C \<Longrightarrow> rvr_voteGranted r \<Longrightarrow> (j, rv_term arg, rv_candidateId arg) \<in> ballots C"
    and "(k, T) \<in> elected C \<Longrightarrow> quorum ids (ballots C) k T"
  using assms unfolding cluster_ok_def by blast+

text \<open>A step of server \<open>i\<close> that may cast ballots of its own and win an election.\<close>

lemma cluster_okI:
  assumes C: "cluster_ok ids C"
    and own: "server_ok ids (ballots C') (elected C') (\<lambda>j. calls C' (i, j)) i (nodes C' i)"
    and others: "\<And>k. k \<noteq> i \<Longrightarrow> nodes C' k = nodes C k \<and> (\<lambda>j. calls C' (k, j)) = (\<lambda>j. calls C (k, j))"
    and B: "ballots C \<subseteq> ballots C'" "\<And>k T c. k \<noteq> i \<Longrightarrow> (k, T, c) \<in> ballots C' \<Longrightarrow> (k, T, c) \<in> ballots C"
    and uniq: "\<And>T c c'. (i, T, c) \<in> ballots C' \<Longrightarrow> (i, T, c') \<in> ballots C' \<Longrightarrow> c = c'"
    and R: "\<And>j arg r. (j, arg, r) \<in> replies C' \<Longrightarrow> rvr_voteGranted r \<Longrightarrow>
      (j, rv_term arg, rv_candidateId arg) \<in> ballots C'"
    and E: "elected C \<subseteq> elected C'" "\<And>k T. (k, T) \<in> elected C' \<Longrightarrow> (k, T) \<notin> elected C \<Longrightarrow> quorum ids (ballots C') k T"
  shows "cluster_ok ids C'"
proof -
  have "server_ok ids (ballots C') (elected C') (\<lambda>j. calls C' (k, j)) k (nodes C' k)" if "k \<in> set ids" for k
  proof (cases "k = i")
    case False
    with server_ok_mono [OF cluster_okD(1) [OF C that] B(1) E(1)] B(2) others [OF False] show ?thesis by simp
  qed (use own in simp)
  moreover have "c = c'" if "(j, T, c) \<in> ballots C'" "(j, T, c') \<in> ballots C'" for j T c c'
    using that uniq B(2) cluster_okD(2) [OF C] by (cases "j = i") blast+
  moreover have "quorum ids (ballots C') k T" if "(k, T) \<in> elected C'" for k T
    using that E(2) quorum_mono [OF cluster_okD(4) [OF C] B(1)] by blast
  ultimately show ?thesis unfolding cluster_ok_def using R by blast
qed

lemma cluster_ok_local:
  assumes C: "cluster_ok ids C" and i: "i \<in> set ids" and q: "quiet (nodes C i) s'"
  shows "cluster_ok ids (C\<lparr>nodes := (nodes C)(i := s')\<rparr>)"
  by (rule cluster_okI [OF C, where i = i])
    (use server_ok_quiet [OF cluster_okD(1) [OF C i] q] cluster_okD(2-4) [OF C] in auto)

lemma cluster_ok_timeout:
  assumes C: "cluster_ok ids C" and i: "i \<in> set ids" and t: "currentTerm (nodes C i) \<noteq> - 1"
    and s': "s' = initVote now (nodes C i)"
  shows "cluster_ok ids (C\<lparr>nodes := (nodes C)(i := s'),
    ballots := ballots C \<union> (if currentTerm s' \<noteq> currentTerm (nodes C i) then {(i, currentTerm s', i)} else {})\<rparr>)"
proof (cases "currentTerm s' = currentTerm (nodes C i)")
  case True
  with initVote_same [of now "nodes C i"] s' have "s' = nodes C i" by simp
  with C show ?thesis by simp
next
  case False
  note ok = cluster_okD(1) [OF C i]
  have new: "(i, currentTerm s', c) \<notin> ballots C" for c
    using ok ballot_term [of "currentTerm s'" c "nodes C i"] initVote_fields [OF t, of now] False s'
    unfolding server_ok_def by (meson leD)
  from False s' have n: "currentTerm (initVote now (nodes C i)) \<noteq> currentTerm (nodes C i)" by simp
  show ?thesis
    by (rule cluster_okI [OF C, where i = i])
      (use server_ok_initVote [OF ok t n] False s' new cluster_okD(2-4) [OF C] quorum_mono in auto)
qed

lemma cluster_ok_call:
  assumes C: "cluster_ok ids C" and i: "i \<in> set ids" and j: "j \<in> set (peers (nodes C i))"
    and rb: "requestVote_begin j (nodes C i) = Inr (Some arg, s')"
  shows "cluster_ok ids (C\<lparr>nodes := (nodes C)(i := s'), calls := (calls C)((i, j) := Some arg),
    requests := insert (j, arg) (requests C)\<rparr>)"
proof (rule cluster_okI [OF C, where i = i], goal_cases)
  case 1
  have "(\<lambda>k. ((calls C)((i, j) := Some arg)) (i, k)) = (\<lambda>k. calls C (i, k))(j := Some arg)" by auto
  with server_ok_begin [OF cluster_okD(1) [OF C i] j rb] show ?case by simp
qed (use cluster_okD(2-4) [OF C] in auto)

lemma cluster_ok_deliver:
  assumes C: "cluster_ok ids C" and j: "j \<in> set ids" and h: "requestVoteHandler t1 t2 arg (nodes C j) = (r, s')"
  shows "cluster_ok ids (C\<lparr>nodes := (nodes C)(j := s'), replies := insert (j, arg, r) (replies C),
    ballots := ballots C \<union> (if rvr_voteGranted r then {(j, rv_term arg, rv_candidateId arg)} else {})\<rparr>)"
proof -
  note ok = cluster_okD(1) [OF C j]
  from h show ?thesis
  proof (cases rule: requestVoteHandler_cases)
    case refused
    show ?thesis
      by (rule cluster_okI [OF C, where i = j])
        (use refused server_ok_quiet [OF ok refused(2)] cluster_okD(2-4) [OF C] in auto)
  next
    case granted
    have uniq: "c' = rv_candidateId arg" if "(j, rv_term arg, c') \<in> ballots C" for c'
      by (rule grant_unique [OF ok granted(8) that])
    show ?thesis
      by (rule cluster_okI [OF C, where i = j])
        (use granted server_ok_grant [OF ok granted(8,3-7)] uniq cluster_okD(2-4) [OF C]
           quorum_mono in auto)
  qed
qed

lemma cluster_ok_return:
  assumes C: "cluster_ok ids C" and i: "i \<in> set ids" and n: "length ids < 256" and arg: "calls C (i, j) = Some arg"
    and rep: "case reply of None \<Rightarrow> True | Some r \<Rightarrow> (j, arg, r) \<in> replies C"
    and s': "s' = requestVote_reply now j arg reply (nodes C i)"
  shows "cluster_ok ids (C\<lparr>nodes := (nodes C)(i := s'), calls := (calls C)((i, j) := None),
    elected := elected C \<union> (if role s' = Leader \<and> role (nodes C i) \<noteq> Leader then {(i, currentTerm s')} else {})\<rparr>)"
    (is "cluster_ok ids ?C")
proof -
  let ?s = "nodes C i" and ?cs = "\<lambda>k. calls C (i, k)"
  note ok = cluster_okD(1) [OF C i]
  have cs: "(\<lambda>k. ((calls C)((i, j) := None)) (i, k)) = ?cs(j := None)" by auto
  have main: "cluster_ok ids ?C"
    if "server_ok ids (ballots C) (elected ?C) (?cs(j := None)) i s'"
      "role s' = Leader \<Longrightarrow> role ?s \<noteq> Leader \<Longrightarrow> quorum ids (ballots C) i (currentTerm s')"
    by (rule cluster_okI [OF C, where i = i])
      (use that cs cluster_okD(2-4) [OF C] in \<open>auto split: if_splits\<close>)
  show ?thesis
  proof (cases rule: requestVote_reply_cases [of ?s now j arg reply])
    case uncounted
    then have "\<not> (role s' = Leader \<and> role ?s \<noteq> Leader)" using s' by (auto simp: quiet_def)
    with server_ok_drop_call [OF server_ok_quiet [OF ok uncounted]] s' show ?thesis
      by (intro main) auto
  next
    case (counts r)
    have b: "(j, rv_term arg, rv_candidateId arg) \<in> ballots C"
      using rep counts(1,2) cluster_okD(3) [OF C, of j arg r] by simp
    note cv = server_ok_counted [OF ok counts(3) arg counts(4) b]
    have id: "selfId (count_vote ?s) = i" "clusterSize (count_vote ?s) = of_nat (length ids)"
      "role (count_vote ?s) = Candidate" "currentTerm (count_vote ?s) = currentTerm ?s"
      "(i, currentTerm ?s, i) \<in> ballots C"
      using ok counts(3) by (auto simp: server_ok_def identity_ok_def count_vote_def)
    show ?thesis
    proof (cases "majority (count_vote ?s) \<le> votesGranted (count_vote ?s)")
      case True
      with counts s' have lead: "s' = becomeLeader (count_vote ?s)" by simp
      from cv(1) obtain S where "counted ids (ballots C) (?cs(j := None)) (count_vote ?s) S" by blast
      from counted_quorum [OF this n id(2) True] id i
      have "quorum ids (ballots C) i (currentTerm ?s)" by simp
      with server_ok_becomeLeader [OF cv(2) id(3)] lead id counts(3) show ?thesis
        by (intro main) auto
    next
      case False
      with counts s' have "s' = count_vote ?s" by simp
      with cv(2) id show ?thesis by (intro main) auto
    qed
  qed
qed

lemma cluster_ok_restart:
  assumes C: "cluster_ok ids C" and i: "i \<in> set ids" and p: "persister load storable"
    and st: "case saved (nodes C i) of None \<Rightarrow> True | Some ps \<Rightarrow> storable ps"
    and new: "RaftImpl_new load ids i pol now (saved (nodes C i)) = Inr s'"
  shows "cluster_ok ids (C\<lparr>nodes := (nodes C)(i := s'),
    calls := (\<lambda>(a, b). if a = i then None else calls C (a, b))\<rparr>)"
  by (rule cluster_okI [OF C, where i = i])
    (use server_ok_restart [OF p new st cluster_okD(1) [OF C i]] cluster_okD(2-4) [OF C] in auto)

lemma cluster_ok_vote:
  assumes "vote_step ids C C'" and "length ids < 256" and C: "cluster_ok ids C"
  shows "cluster_ok ids C'"
  using assms(1)
proof (cases rule: vote_step.cases)
  case (timeout i s' now)
  show ?thesis unfolding timeout(1) by (rule cluster_ok_timeout [OF C timeout(2-4)])
next
  case (call i j arg s')
  show ?thesis unfolding call(1) by (rule cluster_ok_call [OF C call(2,3,5)])
next
  case (deliver j arg t1 t2 r s')
  show ?thesis unfolding deliver(1) by (rule cluster_ok_deliver [OF C deliver(2,4)])
next
  case (return i j arg reply s' now)
  show ?thesis unfolding return(1) by (rule cluster_ok_return [OF C return(2) assms(2) return(3-5)])
qed

lemma cluster_ok_step:
  assumes "cluster_step load storable ids pol C C'" and "persister load storable" and "length ids < 256"
    and C: "cluster_ok ids C"
  shows "cluster_ok ids C'"
  using assms(1)
proof (cases rule: cluster_step.cases)
  case (local_op i s')
  show ?thesis
    unfolding local_op(1) by (rule cluster_ok_local [OF C local_op(2) local_step_quiet [OF local_op(3)]])
next
  case voting
  then show ?thesis by (rule cluster_ok_vote [OF _ assms(3) C])
next
  case (restart i now s')
  show ?thesis unfolding restart(1) by (rule cluster_ok_restart [OF C restart(2) assms(2) restart(3,4)])
qed

lemma cluster_ok_init:
  assumes "cluster_init load ids pol now C"
  shows "cluster_ok ids C"
proof -
  have "server_ok ids {} {} (\<lambda>_. None) i (nodes C i)" if "i \<in> set ids" for i
  proof -
    from assms that have "RaftImpl_new load ids i pol (now i) None = Inr (nodes C i)"
      unfolding cluster_init_def by blast
    from RaftImpl_new_fields [OF this] have "role (nodes C i) = Follower" "identity_ok ids i (nodes C i)"
      unfolding identity_ok_def by blast+
    then show ?thesis by (simp add: server_ok_def calls_ok_def candidate_ok_def)
  qed
  moreover have "calls C = (\<lambda>_. None)" "replies C = {}" "ballots C = {}" "elected C = {}"
    using assms unfolding cluster_init_def by blast+
  ultimately show ?thesis by (simp add: cluster_ok_def)
qed

lemma cluster_ok_reach:
  assumes "cluster_reach load storable ids pol C" and "persister load storable" and "length ids < 256"
  shows "cluster_ok ids C"
  using assms(1) by induction (use cluster_ok_init cluster_ok_step assms(2,3) in blast)+

definition majority_of :: "string list \<Rightarrow> string set \<Rightarrow> bool" where
  "majority_of ids Q \<longleftrightarrow> Q \<subseteq> set ids \<and> length ids < 2 * card Q"

lemma majorities_meet:
  assumes "majority_of ids Q" and "majority_of ids R"
  shows "\<exists>j. j \<in> Q \<and> j \<in> R"
proof -
  have sub: "Q \<subseteq> set ids" "R \<subseteq> set ids" and big: "length ids < 2 * card Q" "length ids < 2 * card R"
    using assms by (simp_all add: majority_of_def)
  have fin: "finite Q" "finite R" using sub finite_subset by blast+
  have "card (Q \<union> R) \<le> length ids"
    using sub card_mono [of "set ids" "Q \<union> R"] card_length [of ids] by simp
  then have "Q \<inter> R \<noteq> {}" using big card_Un_disjoint [OF fin] by fastforce
  then show ?thesis by blast
qed

text \<open>Two quorums share a server, and that server cast one ballot in the term.\<close>

lemma quorum_unique:
  assumes "quorum ids B i T" and "quorum ids B k T"
    and uniq: "\<And>j c c'. (j, T, c) \<in> B \<Longrightarrow> (j, T, c') \<in> B \<Longrightarrow> c = c'"
  shows "i = k"
proof -
  from assms(1,2) obtain Q R where "majority_of ids Q" "\<forall>j \<in> Q. (j, T, i) \<in> B"
    and "majority_of ids R" "\<forall>j \<in> R. (j, T, k) \<in> B"
    unfolding quorum_def majority_of_def by blast
  with majorities_meet uniq show ?thesis by blast
qed

section \<open>The properties\<close>

text \<open>
  C1: election safety. In a cluster of fewer than 256 servers whose stable storage keeps its
  contract, no two servers ever win an election for the same term, whatever the network does
  and however often servers crash and restart.
\<close>

theorem election_safety:
  assumes "cluster_reach load storable ids pol C" and "persister load storable" and "length ids < 256"
    and "(i, T) \<in> elected C" and "(k, T) \<in> elected C"
  shows "i = k"
proof (rule quorum_unique)
  note ok = cluster_ok_reach [OF assms(1-3)]
  show "quorum ids (ballots C) i T" "quorum ids (ballots C) k T" using cluster_okD(4) [OF ok] assms(4,5) by blast+
  show "c = c'" if "(j, T, c) \<in> ballots C" "(j, T, c') \<in> ballots C" for j c c'
    using cluster_okD(2) [OF ok] that by blast
qed

text \<open>A run of two servers in which the first one is elected.\<close>

abbreviation sample_load :: stable_load where
  "sample_load \<equiv> go_load (\<lambda>m. Some (enc_command m)) (whole dec_command) enc_persistent
     (whole dec_persistent) enc_raftstate (whole dec_raftstate)"

abbreviation sample_ok :: "PersistentState \<Rightarrow> bool" where
  "sample_ok \<equiv> go_storable (\<lambda>m. Some (enc_command m)) (whole dec_command) enc_persistent"

definition fresh :: "string \<Rightarrow> raft" where
  "fresh i = (let p = filter (\<lambda>a. a \<noteq> i) [''a'', ''b''] in
     (readPersist PersistentState_default ((raft_members [''a'', ''b''] i sample_policy 0 None)
        \<lparr>nextIndex := const_map p 1, matchIndex := const_map p 0\<rparr>))
        \<lparr>shouldStartHeartbeat := const_map p False, appendNow := const_map p False,
         shouldStartElection := const_map p False, peers := remdups p\<rparr>)"

lemma RaftImpl_new_fresh: "RaftImpl_new sample_load [''a'', ''b''] i sample_policy 0 None = Inr (fresh i)"
  by (simp add: RaftImpl_new_def fresh_def gop.go_load_fresh Let_def)

definition candidate_a :: raft where
  "candidate_a = initVote 1200000000 (fresh ''a'')"

definition vote_arg :: RequestVoteArg where
  "vote_arg = mk_RequestVoteArg ''a'' 1 0 0"

definition asking_a :: raft where
  "asking_a = candidate_a\<lparr>shouldStartElection := [(''b'', False)]\<rparr>"

lemmas fresh_defs = fresh_def raft_members_def readPersist_def PersistentState_default_def const_map_def
  log_new_def log_clear_def log_merge_def log_data_def log_setLastIncluded_def sample_policy_def

lemma fresh_fields:
  "currentTerm (fresh i) = 0" "votedFor (fresh i) = None" "role (fresh i) = Follower" "\<not> killed (fresh i)"
  "mainLog (fresh i) = log_new" "selfId (fresh i) = i" "clusterSize (fresh i) = 2" "lastHeartbeat (fresh i) = 0"
  "electionTimeout (fresh i) = 1200"
  by (simp_all add: fresh_defs Let_def)

lemma fresh_a: "peers (fresh ''a'') = [''b'']" "shouldStartElection (fresh ''a'') = [(''b'', False)]"
  by (simp_all add: fresh_defs)

lemma log_new_last: "log_lastIndex log_new = 0" "log_lastTerm log_new = 0"
  by (simp_all add: log_lastIndex_def log_lastTerm_def log_new_def)

lemma candidate_a_fields:
  "role candidate_a = Candidate" "currentTerm candidate_a = 1" "requestVoteArg candidate_a = vote_arg"
  "shouldStartElection candidate_a = [(''b'', True)]" "\<not> killed candidate_a" "votesGranted candidate_a = 1"
  "clusterSize candidate_a = 2" "peers candidate_a = [''b'']"
  by (simp_all add: candidate_a_def initVote_def Let_def fresh_fields fresh_a cast_ms_def vote_arg_def
      log_new_last set_values_def)

lemma candidate_a_asks: "requestVote_begin ''b'' candidate_a = Inr (Some vote_arg, asking_a)"
  by (simp add: requestVote_begin_def candidate_a_fields map_at_def asking_a_def)

lemma fresh_b_votes: "fst (requestVoteHandler 0 0 vote_arg (fresh ''b'')) = \<lparr>rvr_voteGranted = True, rvr_term = 1\<rparr>"
  by (simp add: requestVoteHandler_def vote_arg_def mk_RequestVoteArg_def fresh_fields becameFollower_def
      Let_def hasVote_def upToDate_def log_new_last mk_RequestVoteReply_def)

lemma a_wins:
  "role (requestVote_reply 0 ''b'' vote_arg (Some \<lparr>rvr_voteGranted = True, rvr_term = 1\<rparr>) asking_a) = Leader"
  "currentTerm (requestVote_reply 0 ''b'' vote_arg (Some \<lparr>rvr_voteGranted = True, rvr_term = 1\<rparr>) asking_a) = 1"
  by (simp_all add: requestVote_reply_def asking_a_def candidate_a_fields becameFollower_def vote_arg_def
      mk_RequestVoteArg_def majority_def Let_def)

lemma sample_run:
  "\<exists>C. cluster_reach sample_load sample_ok [''a'', ''b''] sample_policy C \<and> (''a'', 1) \<in> elected C \<and>
     role (nodes C ''a'') = Leader \<and> (''b'', vote_arg, \<lparr>rvr_voteGranted = True, rvr_term = 1\<rparr>) \<in> replies C"
proof -
  let ?step = "cluster_step sample_load sample_ok [''a'', ''b''] sample_policy"
  let ?C0 = "\<lparr>nodes = fresh, calls = (\<lambda>_. None), requests = {}, replies = {}, ballots = {}, elected = {}\<rparr>"
  have "cluster_init sample_load [''a'', ''b''] sample_policy (\<lambda>_. 0) ?C0"
    by (simp add: cluster_init_def RaftImpl_new_fresh)
  then have r0: "cluster_reach sample_load sample_ok [''a'', ''b''] sample_policy ?C0" by (rule reach_init)
  obtain C1 where s1: "?step ?C0 C1" and C1: "nodes C1 ''a'' = candidate_a" "nodes C1 ''b'' = fresh ''b''"
      "calls C1 = (\<lambda>_. None)"
    using voting [OF timeout [of "''a''" "[''a'', ''b'']" ?C0 candidate_a 1200000000], of sample_load sample_ok sample_policy]
    by (simp add: fresh_fields candidate_a_def)
  obtain C2 where s2: "?step C1 C2" and C2: "nodes C2 ''a'' = asking_a" "nodes C2 ''b'' = fresh ''b''"
      "calls C2 (''a'', ''b'') = Some vote_arg" "(''b'', vote_arg) \<in> requests C2"
    using voting [OF call [of "''a''" "[''a'', ''b'']" "''b''" C1 vote_arg asking_a], of sample_load sample_ok sample_policy]
    by (simp add: C1 candidate_a_fields candidate_a_asks)
  obtain C3 where s3: "?step C2 C3" and C3: "nodes C3 ''a'' = asking_a" "calls C3 (''a'', ''b'') = Some vote_arg"
      "(''b'', vote_arg, \<lparr>rvr_voteGranted = True, rvr_term = 1\<rparr>) \<in> replies C3"
  proof -
    obtain s' where h: "requestVoteHandler 0 0 vote_arg (nodes C2 ''b'') = (\<lparr>rvr_voteGranted = True, rvr_term = 1\<rparr>, s')"
      using fresh_b_votes C2(2) by (metis prod.collapse)
    from voting [OF deliver [OF _ C2(4) h, of "[''a'', ''b'']"], of sample_load sample_ok sample_policy] C2 that show ?thesis
      by fastforce
  qed
  let ?s = "requestVote_reply 0 ''b'' vote_arg (Some \<lparr>rvr_voteGranted = True, rvr_term = 1\<rparr>) asking_a"
  obtain C4 where s4: "?step C3 C4" and C4: "(''a'', 1) \<in> elected C4"
      "role (nodes C4 ''a'') = Leader" "(''b'', vote_arg, \<lparr>rvr_voteGranted = True, rvr_term = 1\<rparr>) \<in> replies C4"
    using voting [OF return [of "''a''" "[''a'', ''b'']" C3 "''b''" vote_arg
        "Some \<lparr>rvr_voteGranted = True, rvr_term = 1\<rparr>" ?s 0], of sample_load sample_ok sample_policy] a_wins C3
    by (simp add: asking_a_def candidate_a_fields)
  show ?thesis using reach_step [OF reach_step [OF reach_step [OF reach_step [OF r0 s1] s2] s3] s4] C4 by blast
qed

theorem election_safety_witness:
  "\<exists>C. cluster_reach sample_load sample_ok [''a'', ''b''] sample_policy C \<and> {k. (k, 1) \<in> elected C} = {''a''}"
proof -
  obtain C where C: "cluster_reach sample_load sample_ok [''a'', ''b''] sample_policy C" "(''a'', 1) \<in> elected C"
    using sample_run by blast
  have "k = ''a''" if "(k, 1) \<in> elected C" for k
    by (rule election_safety [OF C(1) gop.go.persister_axioms _ that C(2)]) simp
  with C show ?thesis by blast
qed

text \<open>
  C7: a server that leads its term was elected for it: a majority of the servers, itself among
  them, has cast its ballot for it, in memory and on disk, and can vote for nobody else in that
  term.
\<close>

theorem leader_has_quorum:
  assumes "cluster_reach load storable ids pol C" and "persister load storable" and "length ids < 256"
    and "i \<in> set ids" and "role (nodes C i) = Leader"
  shows "\<exists>Q \<subseteq> set ids. length ids < 2 * card Q \<and> (\<forall>j \<in> Q. ballot (currentTerm (nodes C i)) i (nodes C j))
    \<and> ballot (currentTerm (nodes C i)) i (nodes C i)"
proof -
  note ok = cluster_ok_reach [OF assms(1-3)]
  note srv = cluster_okD(1) [OF ok]
  have "(i, currentTerm (nodes C i)) \<in> elected C" and "(i, currentTerm (nodes C i), i) \<in> ballots C"
    using srv [OF assms(4)] assms(5) by (simp_all add: server_ok_def)
  moreover from cluster_okD(4) [OF ok this(1)] obtain Q where "Q \<subseteq> set ids" "length ids < 2 * card Q"
    "\<forall>j \<in> Q. (j, currentTerm (nodes C i), i) \<in> ballots C"
    unfolding quorum_def by blast
  moreover have "ballot T c (nodes C j)" if "j \<in> set ids" "(j, T, c) \<in> ballots C" for j T c
    using srv [OF that(1)] that(2) by (simp add: server_ok_def)
  ultimately show ?thesis using assms(4) by (metis subsetD)
qed

theorem leader_has_quorum_witness:
  "\<exists>C i. cluster_reach sample_load sample_ok [''a'', ''b''] sample_policy C \<and> role (nodes C i) = Leader \<and>
     (\<exists>Q \<subseteq> set [''a'', ''b'']. length [''a'', ''b''] < 2 * card Q \<and>
        (\<forall>j \<in> Q. ballot (currentTerm (nodes C i)) i (nodes C j)) \<and> ballot (currentTerm (nodes C i)) i (nodes C i))"
proof -
  obtain C where C: "cluster_reach sample_load sample_ok [''a'', ''b''] sample_policy C"
    "role (nodes C ''a'') = Leader"
    using sample_run by blast
  from leader_has_quorum [OF C(1) gop.go.persister_axioms _ _ C(2)]
  have "\<exists>Q \<subseteq> set [''a'', ''b'']. length [''a'', ''b''] < 2 * card Q \<and>
     (\<forall>j \<in> Q. ballot (currentTerm (nodes C ''a'')) ''a'' (nodes C j)) \<and>
     ballot (currentTerm (nodes C ''a'')) ''a'' (nodes C ''a'')" by simp
  with C show ?thesis by blast
qed



text \<open>
  C40: with the file persister the server binary uses, a server votes twice in one term: it
  grants its vote, restarts, and grants it to another candidate of the same term.
\<close>

theorem FilePersister_double_vote:
  "\<exists>r1 s1 s2 r2 s3. requestVoteHandler 0 0 (mk_RequestVoteArg ''b'' 1 0 0) (fresh ''a'') = (r1, s1) \<and>
     RaftImpl_new FilePersister_load [''a'', ''b''] ''a'' sample_policy 0 (saved s1) = Inr s2 \<and>
     requestVoteHandler 0 0 (mk_RequestVoteArg ''c'' 1 0 0) s2 = (r2, s3) \<and>
     rvr_voteGranted r1 \<and> rvr_voteGranted r2"
proof -
  have grant: "\<exists>r s'. requestVoteHandler 0 0 (mk_RequestVoteArg c 1 0 0) s = (r, s') \<and> rvr_voteGranted r"
    if "currentTerm s = 0" "\<not> killed s" "mainLog s = log_new" for s c
    using that by (simp add: requestVoteHandler_def mk_RequestVoteArg_def becameFollower_def Let_def
        hasVote_def upToDate_def log_new_last mk_RequestVoteReply_def)
  have new: "\<exists>s'. RaftImpl_new FilePersister_load [''a'', ''b''] ''a'' sample_policy 0 sv = Inr s' \<and>
      currentTerm s' = 0 \<and> \<not> killed s' \<and> mainLog s' = log_new" for sv
    by (simp add: RaftImpl_new_def FilePersister_load_def fresh_defs)
  from grant [of "fresh ''a''" "''b''"] obtain r1 s1
    where 1: "requestVoteHandler 0 0 (mk_RequestVoteArg ''b'' 1 0 0) (fresh ''a'') = (r1, s1)" "rvr_voteGranted r1"
    by (auto simp: fresh_fields)
  from new [of "saved s1"] obtain s2
    where 2: "RaftImpl_new FilePersister_load [''a'', ''b''] ''a'' sample_policy 0 (saved s1) = Inr s2"
      "currentTerm s2 = 0" "\<not> killed s2" "mainLog s2 = log_new" by blast
  from grant [OF 2(2-4), of "''c''"] 1 2(1) show ?thesis by blast
qed

text \<open>
  The only server of a one-server cluster never becomes leader: the role changes to leader
  only while a peer's vote is counted, and there is no peer.
\<close>

theorem single_server_never_leads:
  assumes "cluster_reach load storable [i] pol C" and "persister load storable"
  shows "role (nodes C i) \<noteq> Leader"
  using assms(1)
proof induction
  case (reach_init now C)
  then have "RaftImpl_new load [i] i pol (now i) None = Inr (nodes C i)" by (simp add: cluster_init_def)
  from RaftImpl_new_fields [OF this] show ?case by auto
next
  case (reach_step C C')
  note ok = cluster_okD(1) [OF cluster_ok_reach [OF reach_step.hyps(1) assms(2)], of i]
  have nocall: "calls C (i, j) = None" for j
    using ok unfolding server_ok_def calls_ok_def identity_ok_def by (cases "calls C (i, j)") auto
  from reach_step.hyps(2) show ?case
  proof (cases rule: cluster_step.cases)
    case (local_op k s')
    with local_step_quiet [OF local_op(3)] reach_step.IH show ?thesis by (auto simp: quiet_def)
  next
    case voting
    then show ?thesis
    proof (cases rule: vote_step.cases)
      case (timeout k s' now)
      with reach_step.IH show ?thesis by (auto simp: initVote_def Let_def)
    next
      case (call k j arg s')
      with reach_step.IH show ?thesis
        by (auto simp: requestVote_begin_def bind_outcome_Inr split: if_splits)
    next
      case (deliver j arg t1 t2 r s')
      from deliver(4) show ?thesis
        by (cases rule: requestVoteHandler_cases) (use deliver reach_step.IH in \<open>auto simp: quiet_def\<close>)
    next
      case (return k j arg reply s' now)
      with nocall show ?thesis by auto
    qed
  next
    case (restart k now s')
    with RaftImpl_new_fields [OF restart(4)] show ?thesis by auto
  qed
qed

theorem single_server_never_leads_witness:
  "\<exists>C. cluster_reach sample_load sample_ok [''a''] sample_policy C \<and> role (nodes C ''a'') \<noteq> Leader"
proof -
  define s where "s = projr (RaftImpl_new sample_load [''a''] ''a'' sample_policy 0 None)"
  have "RaftImpl_new sample_load [''a''] ''a'' sample_policy 0 None = Inr s"
    unfolding s_def by (simp add: RaftImpl_new_def gop.go_load_fresh Let_def)
  then have "cluster_init sample_load [''a''] sample_policy (\<lambda>_. 0)
      \<lparr>nodes = (\<lambda>_. s), calls = (\<lambda>_. None), requests = {}, replies = {}, ballots = {}, elected = {}\<rparr>"
    by (simp add: cluster_init_def)
  from reach_init [OF this] single_server_never_leads [OF reach_init [OF this] gop.go.persister_axioms]
  show ?thesis by blast
qed

text \<open>
  The cluster size is kept in eight bits. With 256 servers it is 0, and one vote is a
  majority.
\<close>

theorem clusterSize_wraps:
  assumes "length ids = 256" and "RaftImpl_new load ids i pol now sv = Inr s"
  shows "majority s = 1"
proof -
  have "clusterSize s = of_nat (length ids)" using RaftImpl_new_fields [OF assms(2)] by blast
  then have "clusterSize s = 0" unfolding assms(1) by simp
  then show ?thesis by (simp add: majority_def)
qed

lemma FilePersister_starts: "\<exists>s. RaftImpl_new FilePersister_load ids i pol now sv = Inr s"
  by (simp add: RaftImpl_new_def FilePersister_load_def Let_def)

theorem clusterSize_wraps_witness:
  "\<exists>s. RaftImpl_new FilePersister_load (map (\<lambda>n. replicate n CHR ''a'') [0..<256]) ''a'' sample_policy 0 None = Inr s \<and>
     majority s = 1"
proof -
  have n: "length (map (\<lambda>n. replicate n CHR ''a'') [0..<256]) = 256"
    unfolding length_map length_upt by simp
  from FilePersister_starts obtain s where
    s: "RaftImpl_new FilePersister_load (map (\<lambda>n. replicate n CHR ''a'') [0..<256]) ''a'' sample_policy 0 None = Inr s"
    by blast
  from clusterSize_wraps [OF n s] s show ?thesis by blast
qed

end
