(* ===== verification/RaftServer.thy ===== *)
theory RaftServer
  imports RaftNode
begin

text \<open>
  What the handlers and threads of \<open>src/include/raft/RaftImpl.hpp\<close> do to the log, the commit
  index and the state machine, branch by branch, and the invariant that ties the server's
  compaction point to its log.
\<close>

section \<open>The log invariant\<close>

definition raft_inv :: "raft \<Rightarrow> bool" where
  "raft_inv s \<longleftrightarrow> log_wf (mainLog s) \<and> log_lastIncludedIndex (mainLog s) = lastIncludedIndex s \<and>
     log_lastIncludedTerm (mainLog s) = lastIncludedTerm s"

text \<open>The parts of the state that only the log operations touch.\<close>

definition same_log :: "raft \<Rightarrow> raft \<Rightarrow> bool" where
  "same_log s s' \<longleftrightarrow> mainLog s' = mainLog s \<and> lastIncludedIndex s' = lastIncludedIndex s \<and>
     lastIncludedTerm s' = lastIncludedTerm s \<and> commitIndex s' = commitIndex s \<and>
     lastApplied s' = lastApplied s \<and> snapshotData s' = snapshotData s \<and> pendingSnapshot s' = pendingSnapshot s \<and>
     killed s' = killed s"

lemma same_log_refl [simp]: "same_log s s"
  by (simp add: same_log_def)

lemma same_log_inv: "same_log s s' \<Longrightarrow> raft_inv s' = raft_inv s"
  by (simp add: same_log_def raft_inv_def)

lemma raft_inv_persist [simp]: "raft_inv (persist s) = raft_inv s"
  by (simp add: raft_inv_def)

lemma becameFollower_same_log [simp]: "same_log s (snd (becameFollower now t p s))"
  by (simp add: becameFollower_def same_log_def Let_def)

lemma becameFollower_term: "\<not> t < currentTerm s \<Longrightarrow> currentTerm (snd (becameFollower now t p s)) = t"
  by (auto simp: becameFollower_def Let_def)

lemma log_base_inv: "raft_inv s \<Longrightarrow> log_base (mainLog s) = unat (lastIncludedIndex s)"
  by (simp add: raft_inv_def log_base_def)

section \<open>AppendEntries\<close>

text \<open>The state in which the handler looks at the previous entry.\<close>

definition ae_entered :: "int \<Rightarrow> int \<Rightarrow> AppendEntriesArg \<Rightarrow> raft \<Rightarrow> raft" where
  "ae_entered t1 t2 arg s = (snd (becameFollower t1 (ae_term arg) (ae_leaderId arg) s))\<lparr>lastHeartbeat := t2\<rparr>"

lemma ae_entered_same_log: "same_log s (ae_entered t1 t2 arg s)"
  using becameFollower_same_log [of s t1 "ae_term arg" "ae_leaderId arg"]
  by (simp add: ae_entered_def same_log_def)

lemma prev_matches_same_log: "same_log s s' \<Longrightarrow> prev_matches arg s' = prev_matches arg s"
  by (simp add: prev_matches_def same_log_def cong: option.case_cong)

lemma appendEntriesHandler_cases:
  assumes "appendEntriesHandler junk t1 t2 arg s = (r, ap, s')"
  obtains (busy) "killed s \<or> pendingSnapshot s \<or> ae_term arg < currentTerm s" "\<not> aer_success r" "\<not> ap" "s' = s"
      "aer_term r = currentTerm s"
  | (mismatch) "\<not> killed s" "\<not> pendingSnapshot s" "currentTerm s \<le> ae_term arg" "\<not> prev_matches arg s"
      "s' = ae_entered t1 t2 arg s" "r = ae_conflict arg s'" "\<not> ap" "aer_term r = ae_term arg"
  | (accept) "\<not> killed s" "\<not> pendingSnapshot s" "currentTerm s \<le> ae_term arg" "prev_matches arg s"
      "(r, ap, s') = ae_accept junk arg (ae_entered t1 t2 arg s)" "aer_success r" "aer_term r = ae_term arg"
      "currentTerm (ae_entered t1 t2 arg s) = ae_term arg"
proof (cases "killed s \<or> pendingSnapshot s \<or> ae_term arg < currentTerm s")
  case True
  then have "appendEntriesHandler junk t1 t2 arg s = (mk_AppendEntriesReply junk False (currentTerm s), False, s)"
    by (auto simp: appendEntriesHandler_def)
  with assms True show thesis by (intro busy) (auto simp: mk_AppendEntriesReply_def)
next
  case False
  let ?s1 = "ae_entered t1 t2 arg s"
  have t: "currentTerm ?s1 = ae_term arg" using False by (simp add: ae_entered_def becameFollower_term)
  have eq: "appendEntriesHandler junk t1 t2 arg s =
      (if prev_matches arg s then ae_accept junk arg ?s1 else (ae_conflict arg ?s1, False, ?s1))"
    using False prev_matches_same_log [OF ae_entered_same_log [of s t1 t2 arg], of arg]
    by (simp add: appendEntriesHandler_def ae_entered_def Let_def)
  show thesis
  proof (cases "prev_matches arg s")
    case True
    with eq assms have e: "(r, ap, s') = ae_accept junk arg ?s1" by simp
    then have "aer_success r" "aer_term r = ae_term arg"
      using t by (auto simp: ae_accept_def Let_def mk_AppendEntriesReply_def split: if_splits)
    with False True e t show thesis by (intro accept) auto
  next
    case mis: False
    with eq assms have "r = ae_conflict arg ?s1" "\<not> ap" "s' = ?s1" by auto
    moreover have "aer_term (ae_conflict arg ?s1) = ae_term arg"
      using t by (auto simp: ae_conflict_def mk_AppendEntriesReply_def split: option.splits)
    ultimately show thesis using False mis by (intro mismatch) auto
  qed
qed

text \<open>The batch fits the log where the previous entry matches.\<close>

lemma prev_matches_fits:
  assumes "raft_inv s" and "prev_matches arg s" and "ae_prevLogIndex arg = 0 \<Longrightarrow> lastIncludedIndex s = 0"
  shows "fits (log_base (mainLog s)) (log_entries (mainLog s)) (unat (ae_prevLogIndex arg))"
proof -
  have c: "contiguous (log_base (mainLog s)) (log_entries (mainLog s))"
    using assms(1) by (simp add: raft_inv_def log_wf_def)
  show ?thesis
  proof (cases "ae_prevLogIndex arg = 0 \<or> log_at (mainLog s) (ae_prevLogIndex arg) = None")
    case True
    with assms have "ae_prevLogIndex arg = lastIncludedIndex s" by (auto simp: prev_matches_def)
    with log_base_inv [OF assms(1)] show ?thesis by (simp add: fits_def)
  next
    case False
    then obtain e where "log_at (mainLog s) (ae_prevLogIndex arg) = Some e" by blast
    then show ?thesis by (auto simp: log_at_contiguous [OF c] fits_def split: if_splits)
  qed
qed

lemma persist_saved_log:
  "\<exists>ps. saved (persist s) = Some ps \<and> log_data (ps_log ps) = log_data (mainLog s) \<and> ps_currentTerm ps = currentTerm s"
  by (simp add: persist_def mk_PersistentState_def log_merge_def log_clear_def log_new_def log_data_def log_of_def)

lemma ae_accept_fields:
  assumes "(r, ap, s') = ae_accept junk arg s"
  shows "mainLog s' = log_merge (mainLog s) (log_data (ae_entries arg))" and "role s' = Follower"
    and "currentTerm s' = currentTerm s" and "lastIncludedIndex s' = lastIncludedIndex s"
    and "lastIncludedTerm s' = lastIncludedTerm s"
    and "commitIndex s' = (if commitIndex s < ae_leaderCommit arg
       then min (ae_leaderCommit arg) (log_lastIndex (mainLog s')) else commitIndex s)"
    and "\<exists>ps. saved s' = Some ps \<and> log_data (ps_log ps) = log_data (mainLog s') \<and> ps_currentTerm ps = currentTerm s"
proof -
  define s1 where "s1 = s\<lparr>mainLog := log_merge (mainLog s) (log_data (ae_entries arg)), role := Follower\<rparr>"
  have s': "s' = (if commitIndex s < ae_leaderCommit arg
      then (persist s1)\<lparr>commitIndex := min (ae_leaderCommit arg) (log_lastIndex (mainLog s1))\<rparr> else persist s1)"
    using assms by (auto simp: ae_accept_def Let_def s1_def split: if_splits)
  show "mainLog s' = log_merge (mainLog s) (log_data (ae_entries arg))" "role s' = Follower"
    "currentTerm s' = currentTerm s" "lastIncludedIndex s' = lastIncludedIndex s"
    "lastIncludedTerm s' = lastIncludedTerm s"
    "commitIndex s' = (if commitIndex s < ae_leaderCommit arg
       then min (ae_leaderCommit arg) (log_lastIndex (mainLog s')) else commitIndex s)"
    unfolding s' by (simp_all add: s1_def)
  show "\<exists>ps. saved s' = Some ps \<and> log_data (ps_log ps) = log_data (mainLog s') \<and> ps_currentTerm ps = currentTerm s"
    using persist_saved_log [of s1] unfolding s' by (simp add: s1_def)
qed


definition idle :: raft where
  "idle = raft_members [''a'', ''b''] ''b'' sample_policy 0 None"

lemma idle_inv: "raft_inv idle"
  by (simp add: raft_inv_def idle_def raft_members_def log_wf_def log_new_def)


text \<open>
  C19: RequestVote. A vote is granted exactly when the server is up, the term is newer, or the
  same with the vote free or already given to this candidate, and the candidate's log is at
  least as up to date; it is then saved before the reply is sent. The log is never touched, the
  term never goes back, and the reply carries the server's term.
\<close>

theorem requestVoteHandler_correct:
  assumes h: "requestVoteHandler t1 t2 arg s = (r, s')"
  shows "(rvr_voteGranted r \<longleftrightarrow> \<not> killed s \<and>
      (currentTerm s < rv_term arg \<or> currentTerm s = rv_term arg \<and> hasVote (rv_candidateId arg) s) \<and>
      upToDate (rv_lastLogIndex arg) (rv_lastLogTerm arg) s)
    \<and> (rvr_voteGranted r \<longrightarrow> ballot (rv_term arg) (rv_candidateId arg) s')
    \<and> same_log s s' \<and> currentTerm s \<le> currentTerm s' \<and> rvr_term r = currentTerm s'"
proof -
  let ?s1 = "snd (becameFollower t1 (rv_term arg) (rv_candidateId arg) s)"
  have bf: "same_log s ?s1" "currentTerm s \<le> currentTerm ?s1" by simp (auto simp: becameFollower_def Let_def)
  have up: "upToDate li lt ?s1 = upToDate li lt s" for li lt using bf(1) by (simp add: upToDate_def same_log_def)
  have hv: "\<not> rv_term arg < currentTerm s \<Longrightarrow> hasVote (rv_candidateId arg) ?s1 \<longleftrightarrow>
      currentTerm s < rv_term arg \<or> currentTerm s = rv_term arg \<and> hasVote (rv_candidateId arg) s"
    by (auto simp: becameFollower_def hasVote_def Let_def)
  show ?thesis
  proof (cases "\<not> killed s \<and> \<not> rv_term arg < currentTerm s \<and> hasVote (rv_candidateId arg) ?s1 \<and>
      upToDate (rv_lastLogIndex arg) (rv_lastLogTerm arg) ?s1")
    case True
    with h have r: "r = mk_RequestVoteReply True (currentTerm ?s1)"
      "s' = persist (?s1\<lparr>votedFor := Some (rv_candidateId arg), role := Follower, lastHeartbeat := t2\<rparr>)"
      by (auto simp: requestVoteHandler_def Let_def)
    from True have "currentTerm ?s1 = rv_term arg" by (simp add: becameFollower_term)
    then have "ballot (rv_term arg) (rv_candidateId arg) s'" using r(2) by (simp add: ballot_synced)
    with True r bf up hv show ?thesis by (simp add: mk_RequestVoteReply_def same_log_def)
  next
    case False
    with h bf up hv show ?thesis
      by (auto simp: requestVoteHandler_def Let_def mk_RequestVoteReply_def split: if_splits)
  qed
qed

theorem requestVoteHandler_correct_witness:
  "\<exists>r s'. requestVoteHandler 0 0 (mk_RequestVoteArg ''a'' 1 0 0) idle = (r, s') \<and> rvr_voteGranted r \<and>
     ballot 1 ''a'' s' \<and> same_log idle s'"
proof -
  obtain r s' where h: "requestVoteHandler 0 0 (mk_RequestVoteArg ''a'' 1 0 0) idle = (r, s')" by fastforce
  from requestVoteHandler_correct [OF h] h show ?thesis
    by (simp add: mk_RequestVoteArg_def idle_def raft_members_def upToDate_def log_lastTerm_def log_lastIndex_def
        log_new_def)
qed

section \<open>Applying\<close>

lemma apply_loop_unfold:
  "apply_loop send s c = (case apply_next s of None \<Rightarrow> (s, c) | Some (i, cmd) \<Rightarrow>
     if fst (send c cmd) then apply_loop send (apply_done i s) (snd (send c cmd)) else (s, snd (send c cmd)))"
  by (subst apply_loop.simps) (auto split: option.splits prod.splits bool.splits)

text \<open>The commands of the log after index \<open>a\<close>, up to index \<open>b\<close>.\<close>

definition commands_between :: "raft_log \<Rightarrow> u64 \<Rightarrow> u64 \<Rightarrow> command list" where
  "commands_between l a b =
     map le_command (take (unat b - unat a) (drop (unat a - log_base l) (log_entries l)))"

lemma commands_between_step:
  assumes "contiguous (log_base l) (log_entries l)" and "log_base l \<le> unat a" and "unat (a + 1) = Suc (unat a)"
    and "log_at l (a + 1) = Some e" and "a + 1 \<le> b"
  shows "commands_between l a b = le_command e # commands_between l (a + 1) b"
proof -
  from assms(1,3,4) have e: "unat a - log_base l < length (log_entries l)" "e = log_entries l ! (unat a - log_base l)"
    by (auto simp: log_at_contiguous [OF assms(1)] split: if_splits)
  have b: "unat b - unat a = Suc (unat b - unat (a + 1))" "unat (a + 1) - log_base l = Suc (unat a - log_base l)"
    using assms(2,3,5) by (auto simp: word_le_nat_alt)
  show ?thesis
    unfolding commands_between_def b using e by (simp add: Cons_nth_drop_Suc [symmetric])
qed

lemma apply_done_simps [simp]:
  "mainLog (apply_done i s) = mainLog s" "commitIndex (apply_done i s) = commitIndex s"
  "lastApplied (apply_done i s) = i"
  by (simp_all add: apply_done_def)

text \<open>What \<open>apply_loop\<close> has sent when it stops.\<close>

lemma apply_loop_sends:
  assumes "contiguous (log_base (mainLog s)) (log_entries (mainLog s))"
    and "log_base (mainLog s) \<le> unat (lastApplied s)" and "lastApplied s \<le> commitIndex s"
    and send: "\<And>c cmd. contents (snd (send c cmd)) = contents c @ (if fst (send c cmd) then [cmd] else [])"
    and res: "apply_loop send s c = (s', c')"
  shows "mainLog s' = mainLog s \<and> commitIndex s' = commitIndex s \<and> lastApplied s \<le> lastApplied s' \<and>
    lastApplied s' \<le> commitIndex s \<and>
    contents c' = contents c @ commands_between (mainLog s) (lastApplied s) (lastApplied s')"
  using assms(1-3) res
proof (induction "unat (commitIndex s) - unat (lastApplied s)" arbitrary: s c rule: less_induct)
  case less
  show ?case
  proof (cases "apply_next s")
    case None
    with less.prems(4) have "s' = s" "c' = c" by (simp_all add: apply_loop_unfold)
    then show ?thesis using less.prems(3) by (simp add: commands_between_def)
  next
    case (Some x)
    obtain i cmd where x: "x = (i, cmd)" by fastforce
    note nx = apply_next_Some [OF Some [unfolded x]]
    then obtain e where e: "i = lastApplied s + 1" "unat i = Suc (unat (lastApplied s))" "lastApplied s < commitIndex s"
      "log_at (mainLog s) i = Some e" "cmd = le_command e" by blast
    have le: "i \<le> commitIndex s" using e(2,3) by (simp add: word_le_nat_alt word_less_nat_alt)
    show ?thesis
    proof (cases "fst (send c cmd)")
      case False
      with Some x less.prems(4) have "s' = s" "c' = snd (send c cmd)" by (simp_all add: apply_loop_unfold)
      then show ?thesis using False send less.prems(3) by (simp add: commands_between_def)
    next
      case True
      let ?s = "apply_done i s" and ?c = "snd (send c cmd)"
      have run: "apply_loop send ?s ?c = (s', c')"
        using less.prems(4) Some x True by (simp add: apply_loop_unfold [of send s c])
      have m: "unat (commitIndex ?s) - unat (lastApplied ?s) < unat (commitIndex s) - unat (lastApplied s)"
        using e(2,3) unfolding word_less_nat_alt by simp
      have ih: "mainLog s' = mainLog s \<and> commitIndex s' = commitIndex s \<and> i \<le> lastApplied s' \<and>
        lastApplied s' \<le> commitIndex s \<and> contents c' = contents ?c @ commands_between (mainLog s) i (lastApplied s')"
        using less.hyps [OF m _ _ _ run] less.prems(1,2) e(2) le by simp
      have "commands_between (mainLog s) (lastApplied s) (lastApplied s') =
          cmd # commands_between (mainLog s) i (lastApplied s')"
        using commands_between_step [OF less.prems(1,2), of e "lastApplied s'"] e ih by simp
      moreover have "lastApplied s \<le> lastApplied s'"
        using e(2) ih by (simp add: word_le_nat_alt)
      ultimately show ?thesis using ih send True by simp
    qed
  qed
qed

lemma apply_loop_drains:
  assumes "\<And>c cmd. fst (send c cmd)"
  shows "apply_next (fst (apply_loop send s c)) = None"
proof (induction "unat (commitIndex s) - unat (lastApplied s)" arbitrary: s c rule: less_induct)
  case less
  show ?case
  proof (cases "apply_next s")
    case None
    then show ?thesis by (simp add: apply_loop_unfold)
  next
    case (Some x)
    obtain i cmd where x: "x = (i, cmd)" by fastforce
    have "unat (commitIndex (apply_done i s)) - unat (lastApplied (apply_done i s)) <
        unat (commitIndex s) - unat (lastApplied s)"
      using apply_next_Some [OF Some [unfolded x]] unfolding word_less_nat_alt by fastforce
    from less.hyps [OF this] Some x assms show ?thesis by (simp add: apply_loop_unfold [of send s])
  qed
qed

text \<open>
  C11: \<open>applyCommittedEntries\<close> returns and has sent to the state machine, in log order and each
  once, exactly the commands after the last applied index up to the new last applied index,
  which never passes the commit index; on a channel that accepts every command it reaches the
  commit index.
\<close>

theorem applyCommittedEntries_in_order:
  assumes inv: "raft_inv s" and "lastIncludedIndex s \<le> lastApplied s" and le: "lastApplied s \<le> commitIndex s"
    and last: "commitIndex s \<le> log_lastIndex (mainLog s)" and "\<not> pendingSnapshot s"
    and send: "\<And>c cmd. contents (snd (send c cmd)) = contents c @ (if fst (send c cmd) then [cmd] else [])"
  shows "\<exists>s' c'. applyCommittedEntries send s c = (s', c') \<and> lastApplied s \<le> lastApplied s' \<and>
    lastApplied s' \<le> commitIndex s \<and>
    contents c' = contents c @ commands_between (mainLog s) (lastApplied s) (lastApplied s') \<and>
    ((\<forall>c cmd. fst (send c cmd)) \<longrightarrow> lastApplied s' = commitIndex s)"
proof -
  have c: "contiguous (log_base (mainLog s)) (log_entries (mainLog s))" using inv by (simp add: raft_inv_def log_wf_def)
  have base: "log_base (mainLog s) \<le> unat (lastApplied s)"
    using assms(2) log_base_inv [OF inv] by (simp add: word_le_nat_alt)
  obtain s' c' where run: "apply_loop send s c = (s', c')" by fastforce
  note sent = apply_loop_sends [OF c base le send run]
  have "lastApplied s' = commitIndex s" if "\<forall>c cmd. fst (send c cmd)"
  proof (rule ccontr)
    assume "lastApplied s' \<noteq> commitIndex s"
    with sent have lt: "lastApplied s' < commitIndex s" by (meson order_le_neq_trans)
    from that apply_loop_drains [of send s c] run have none: "apply_next s' = None" by simp
    have "unat (lastApplied s' + 1) = Suc (unat (lastApplied s'))" using unat_plus1_less [OF lt] .
    moreover have "unat (commitIndex s) \<le> log_base (mainLog s) + length (log_entries (mainLog s))"
      using last log_lastIndex_unat [of "mainLog s"] inv by (simp add: raft_inv_def word_le_nat_alt)
    moreover have "log_base (mainLog s) \<le> unat (lastApplied s')" using base sent by (simp add: word_le_nat_alt)
    ultimately have "log_at (mainLog s') (lastApplied s' + 1) \<noteq> None"
      using lt sent by (simp add: log_at_contiguous [OF c] word_less_nat_alt)
    with none lt sent show False by (auto simp: apply_next_def split: if_splits option.splits)
  qed
  moreover have "applyCommittedEntries send s c = (s', c')"
  proof (cases "lastApplied s \<ge> commitIndex s")
    case True
    then have "apply_next s = None" by (simp add: apply_next_def)
    with run True show ?thesis by (simp add: applyCommittedEntries_def apply_loop_unfold)
  qed (use assms(5) run in \<open>simp add: applyCommittedEntries_def\<close>)
  ultimately show ?thesis using sent by blast
qed

definition replica :: raft where
  "replica = idle\<lparr>mainLog := log_of [noop_entry 1 1, noop_entry 2 1], commitIndex := 2\<rparr>"

theorem applyCommittedEntries_in_order_witness:
  "\<exists>s' c'. applyCommittedEntries (\<lambda>c cmd. (True, c @ [cmd])) replica [] = (s', c') \<and> lastApplied s' = 2 \<and>
     c' = [NoOp_new zero_uuid, NoOp_new zero_uuid]"
proof -
  have inv: "raft_inv replica"
    by (simp add: raft_inv_def replica_def idle_def raft_members_def log_wf_def log_of_def log_base_def
        contiguous_Cons noop_entry_def)
  have f: "lastIncludedIndex replica \<le> lastApplied replica" "lastApplied replica \<le> commitIndex replica"
    "commitIndex replica \<le> log_lastIndex (mainLog replica)" "\<not> pendingSnapshot replica"
    "commitIndex replica = 2" "lastApplied replica = 0"
    "mainLog replica = log_of [noop_entry 1 1, noop_entry 2 1]"
    by (simp_all add: replica_def idle_def raft_members_def log_lastIndex_def log_of_def noop_entry_def)
  from applyCommittedEntries_in_order [OF inv f(1-4), where contents = id and c = "[]"
      and send = "\<lambda>c cmd. (True, c @ [cmd])"] f(5-7)
  show ?thesis by (auto simp: commands_between_def log_of_def log_base_def noop_entry_def)
qed

section \<open>Committing\<close>

lemma commit_scan_Some:
  assumes "commit_scan s i = Inr (Some j)"
  shows "commitIndex s < j \<and> j \<le> i \<and> majority s \<le> matches s j \<and>
    (\<exists>e. log_at (mainLog s) j = Some e \<and> le_term e = currentTerm s)"
  using assms
proof (induction s i rule: commit_scan.induct)
  case (1 s i)
  from 1(2) obtain e where e: "i > commitIndex s" "log_at (mainLog s) i = Some e" "le_term e = currentTerm s"
    by (subst (asm) commit_scan.simps) (auto split: if_splits option.splits)
  show ?case
  proof (cases "majority s \<le> matches s i")
    case True
    with 1(2) e show ?thesis by (subst (asm) commit_scan.simps) auto
  next
    case False
    with 1(2) e have "commit_scan s (i - 1) = Inr (Some j)" by (subst (asm) commit_scan.simps) simp
    with 1(1) [OF e False] have ih: "commitIndex s < j" "j \<le> i - 1" "majority s \<le> matches s j"
      "\<exists>e. log_at (mainLog s) j = Some e \<and> le_term e = currentTerm s" by auto
    have "i \<noteq> 0" using e(1) by auto
    with ih(2) have "j \<le> i" using unat_minus1 [of i] by (simp add: word_le_nat_alt)
    with ih show ?thesis by blast
  qed
qed

lemma commit_scan_total:
  assumes "raft_inv s" and "lastIncludedIndex s \<le> commitIndex s" and "i \<le> log_lastIndex (mainLog s)"
  shows "\<exists>r. commit_scan s i = Inr r"
  using assms
proof (induction s i rule: commit_scan.induct)
  case (1 s i)
  show ?case
  proof (cases "i > commitIndex s")
    case True
    have c: "contiguous (log_base (mainLog s)) (log_entries (mainLog s))"
      using "1.prems"(1) by (simp add: raft_inv_def log_wf_def)
    have "log_base (mainLog s) < unat i"
      using True "1.prems"(1,2) by (simp add: log_base_inv word_le_nat_alt word_less_nat_alt)
    moreover have "unat i \<le> log_base (mainLog s) + length (log_entries (mainLog s))"
      using "1.prems"(1,3) log_lastIndex_unat [of "mainLog s"] by (simp add: raft_inv_def word_le_nat_alt)
    ultimately obtain e where e: "log_at (mainLog s) i = Some e" by (simp add: log_at_contiguous [OF c])
    have "i \<noteq> 0" using True by auto
    then have "i - 1 \<le> log_lastIndex (mainLog s)"
      using "1.prems"(3) unat_minus1 [of i] by (simp add: word_le_nat_alt)
    with 1 e True show ?thesis by (subst commit_scan.simps) auto
  qed (subst commit_scan.simps, simp)
qed



text \<open>
  The commit loop needs that bound. A leader that has taken over a snapshot it has not
  applied yet, with no entry after it, throws when a follower acknowledges: the loop reads the
  log at an index the snapshot has replaced.
\<close>

theorem commit_loop_throws:
  assumes "log_entries (mainLog s) = []" and "commitIndex s < log_lastIncludedIndex (mainLog s)"
  shows "ae_acknowledged peerId n arg s = Inl BadOptionalAccess"
proof -
  have "log_lastIndex (mainLog s) = log_lastIncludedIndex (mainLog s)" using assms(1) by (simp add: log_lastIndex_def)
  moreover have "log_at (mainLog s) i = None" for i using assms(1) by (simp add: log_at_def)
  ultimately show ?thesis
    using assms(2) by (simp add: ae_acknowledged_def Let_def commit_scan.simps)
qed

theorem commit_loop_throws_witness:
  "ae_acknowledged ''a'' 1 sample_arg (snd (installSnapshotHandler 0 0 (mk_InstallSnapshotArg ''a'' 1 5 1 ''img'') idle)) =
     Inl BadOptionalAccess"
  by (rule commit_loop_throws)
    (simp_all add: installSnapshotHandler_def mk_InstallSnapshotArg_def idle_def raft_members_def becameFollower_def
      Let_def log_trimPrefix_def log_atIter_def log_new_def)

section \<open>Client commands and compaction\<close>

text \<open>
  A command handed to the leader is appended behind the last index with the leader's term,
  saved before \<open>start\<close> returns, and its header tells the caller where it is; the log stays
  gap-free. Any other server refuses and keeps its log.
\<close>

theorem start_correct:
  assumes "raft_inv s" and "log_lastIndex (mainLog s) \<noteq> - 1" and r: "start c s = (ok, c', s')"
  shows "(ok \<longleftrightarrow> \<not> killed s \<and> role s = Leader \<and> \<not> pendingSnapshot s) \<and> raft_inv s' \<and> command_eq c c' \<and>
    (if ok
     then log_at (mainLog s') (log_lastIndex (mainLog s) + 1) =
          Some \<lparr>le_index = log_lastIndex (mainLog s) + 1, le_term = currentTerm s, le_command = c'\<rparr>
        \<and> hdr_index (cmd_header c') = log_lastIndex (mainLog s) + 1 \<and> hdr_term (cmd_header c') = currentTerm s
        \<and> (\<exists>ps. saved s' = Some ps \<and> log_data (ps_log ps) = log_data (mainLog s'))
     else mainLog s' = mainLog s)"
proof (cases "killed s \<or> role s \<noteq> Leader \<or> pendingSnapshot s")
  case True
  then have "ok = False \<and> c' = c \<and> same_log s s'" using r by (auto simp: start_def same_log_def split: if_splits)
  with True assms(1) show ?thesis using same_log_inv [of s s'] by (auto simp: same_log_def)
next
  case False
  let ?i = "log_lastIndex (mainLog s) + 1"
  let ?e = "\<lparr>le_index = ?i, le_term = currentTerm s, le_command = c'\<rparr>"
  have wf: "log_wf (mainLog s)" using assms(1) by (simp add: raft_inv_def)
  have c': "c' = with_header ((cmd_header c)\<lparr>hdr_term := currentTerm s, hdr_index := ?i\<rparr>) c"
    using r False by (auto simp: start_def Let_def)
  then have h: "hdr_index (cmd_header c') = ?i" "hdr_term (cmd_header c') = currentTerm s" "command_eq c c'"
    by (cases c; simp add: eq_defs)+
  have s': "ok" "mainLog s' = log_append (mainLog s) ?e" "lastIncludedIndex s' = lastIncludedIndex s"
    "lastIncludedTerm s' = lastIncludedTerm s"
    "\<exists>ps. saved s' = Some ps \<and> log_data (ps_log ps) = log_data (mainLog s')"
    using r False c' persist_saved_log [of "s\<lparr>mainLog := log_append (mainLog s) ?e\<rparr>"]
    by (auto simp: start_def Let_def)
  have i: "unat ?i = log_base (mainLog s) + length (log_entries (mainLog s)) + 1"
    using log_lastIndex_unat [OF wf] unat_plus1 [OF unat_not_max [OF assms(2)]] by simp
  have wf': "log_wf (log_append (mainLog s) ?e)"
    using wf i by (simp add: log_wf_def log_append_def log_base_def contiguous_append contiguous_Cons)
  then have at: "log_at (log_append (mainLog s) ?e) ?i = Some ?e"
    using i by (simp add: log_wf_def log_at_contiguous log_append_def log_base_def)
  have "raft_inv s'" using assms(1) wf' s' by (simp add: raft_inv_def log_append_def)
  with False h s' at show ?thesis by auto
qed

theorem start_correct_witness:
  "\<exists>c' s'. start (NoOp_new zero_uuid) (replica\<lparr>role := Leader\<rparr>) = (True, c', s') \<and> raft_inv s' \<and>
     hdr_index (cmd_header c') = 3"
proof -
  let ?s = "replica\<lparr>role := Leader\<rparr>"
  obtain ok c' s' where r: "start (NoOp_new zero_uuid) ?s = (ok, c', s')" by (metis prod_cases3)
  have f: "raft_inv ?s" "log_lastIndex (mainLog ?s) = 2" "\<not> killed ?s" "\<not> pendingSnapshot ?s"
    by (simp_all add: raft_inv_def replica_def idle_def raft_members_def log_wf_def log_of_def log_base_def
        contiguous_Cons noop_entry_def log_lastIndex_def)
  from start_correct [OF f(1) _ r] f r show ?thesis by auto
qed

text \<open>
  A snapshot the service took at an index of the log is saved with the compacted log: the
  compaction point moves to that index and its entry's term, later entries and the last index
  stay. An index behind the compaction point or beyond the log is ignored, and no index makes
  the call throw.
\<close>

theorem snapshot_correct:
  assumes inv: "raft_inv s" and up: "\<not> killed s" "\<not> pendingSnapshot s"
  shows "\<exists>s'. raft_snapshot i sd s = Inr s' \<and> raft_inv s' \<and> log_lastIndex (mainLog s') = log_lastIndex (mainLog s) \<and>
    (if lastIncludedIndex s \<le> i \<and> i \<le> log_lastIndex (mainLog s)
     then lastIncludedIndex s' = i \<and> snapshotData s' = sd \<and>
       (\<forall>j. i < j \<longrightarrow> log_at (mainLog s') j = log_at (mainLog s) j) \<and>
       (\<exists>ps. saved s' = Some ps \<and> ps_snapshotData ps = sd \<and> ps_lastIncludedIndex ps = i \<and>
          log_data (ps_log ps) = log_data (mainLog s'))
     else s' = s)"
proof -
  have wf: "log_wf (mainLog s)" and base: "log_base (mainLog s) = unat (lastIncludedIndex s)"
    using inv log_base_inv [OF inv] by (simp_all add: raft_inv_def)
  have c: "contiguous (log_base (mainLog s)) (log_entries (mainLog s))" using wf by (simp add: log_wf_def)
  have sv: "\<exists>ps. saved (persist t) = Some ps \<and> ps_snapshotData ps = snapshotData t \<and>
      ps_lastIncludedIndex ps = lastIncludedIndex t \<and> log_data (ps_log ps) = log_data (mainLog t)" for t
    by (simp add: persist_def mk_PersistentState_def log_merge_def log_clear_def log_new_def log_data_def log_of_def)
  consider "i < lastIncludedIndex s \<or> log_lastIndex (mainLog s) < i" | "i = lastIncludedIndex s" "i \<le> log_lastIndex (mainLog s)"
    | "lastIncludedIndex s < i" "i \<le> log_lastIndex (mainLog s)" by fastforce
  then show ?thesis
  proof cases
    case 1
    then show ?thesis using inv up by (auto simp: raft_snapshot_def)
  next
    case 2
    then have "raft_snapshot i sd s = Inr (persist (s\<lparr>snapshotData := sd\<rparr>))"
      using up by (simp add: raft_snapshot_def)
    moreover have "raft_inv (s\<lparr>snapshotData := sd\<rparr>)" using inv by (simp add: raft_inv_def)
    ultimately show ?thesis using 2 sv [of "s\<lparr>snapshotData := sd\<rparr>"] by simp
  next
    case 3
    then have b: "log_base (mainLog s) < unat i" "unat i \<le> unat (log_lastIndex (mainLog s))"
      using base by (simp_all add: word_less_nat_alt word_le_nat_alt)
    then obtain e where e: "log_at (mainLog s) i = Some e"
      using log_lastIndex_unat [OF wf] by (simp add: log_at_contiguous [OF c])
    let ?t = "s\<lparr>lastIncludedIndex := i, lastIncludedTerm := le_term e,
      mainLog := log_trimPrefix (mainLog s) i (le_term e), snapshotData := sd\<rparr>"
    have r: "raft_snapshot i sd s = Inr (persist ?t)" using 3 up e by (simp add: raft_snapshot_def not_less)
    have "raft_inv ?t" using log_wf_trimPrefix [OF wf] by (simp add: raft_inv_def log_trimPrefix_def)
    with r 3 sv [of ?t] log_lastIndex_trimPrefix [OF wf b] log_at_trimPrefix [OF wf b] show ?thesis by simp
  qed
qed

theorem snapshot_correct_witness:
  "\<exists>s'. raft_snapshot 1 ''img'' replica = Inr s' \<and> raft_inv s' \<and> lastIncludedIndex s' = 1 \<and>
     log_lastIndex (mainLog s') = 2"
proof -
  have f: "raft_inv replica" "\<not> killed replica" "\<not> pendingSnapshot replica" "lastIncludedIndex replica = 0"
    "log_lastIndex (mainLog replica) = 2"
    by (simp_all add: raft_inv_def replica_def idle_def raft_members_def log_wf_def log_of_def log_base_def
        contiguous_Cons noop_entry_def log_lastIndex_def)
  from snapshot_correct [OF f(1-3), of 1 "''img''"] f show ?thesis by auto
qed

text \<open>
  C34: a late InstallSnapshot loses committed entries. The handler does not compare the
  snapshot's index with its own: a server that has committed and applied an entry, and compacted
  beyond the snapshot, accepts an old snapshot of its leader, drops its whole log and moves its
  compaction point, and after the installation its commit index, back.
\<close>

theorem stale_snapshot_loses_commits:
  "\<exists>s arg r s1 s2. raft_inv s \<and> lastIncludedIndex s < commitIndex s \<and> lastApplied s = commitIndex s \<and>
     commitIndex s \<le> log_lastIndex (mainLog s) \<and> is_term arg = currentTerm s \<and>
     is_lastIncludedIndex arg < lastIncludedIndex s \<and>
     installSnapshotHandler 0 0 arg s = (r, s1) \<and> isr_success r \<and>
     log_entries (mainLog s1) = [] \<and> log_lastIndex (mainLog s1) < lastIncludedIndex s \<and>
     s2 = asyncInstallSnapshot_done (is_lastIncludedIndex arg) (is_lastIncludedTerm arg) s1 \<and>
     commitIndex s2 < commitIndex s"
proof -
  let ?s = "idle\<lparr>currentTerm := 1, mainLog := \<lparr>log_lastIncludedIndex = 2, log_lastIncludedTerm = 1,
      log_entries = [noop_entry 3 1]\<rparr>, lastIncludedIndex := 2, lastIncludedTerm := 1, commitIndex := 3, lastApplied := 3\<rparr>"
  let ?arg = "mk_InstallSnapshotArg ''a'' 1 1 1 ''old''"
  let ?s1 = "snd (installSnapshotHandler 0 0 ?arg ?s)"
  have "raft_inv ?s"
    by (simp add: raft_inv_def log_wf_def log_base_def contiguous_Cons noop_entry_def)
  moreover have "log_entries (mainLog ?s1) = []" "log_lastIndex (mainLog ?s1) = 1" "isr_success (fst (installSnapshotHandler 0 0 ?arg ?s))"
    "commitIndex (asyncInstallSnapshot_done 1 1 ?s1) = 1"
    by (simp_all add: installSnapshotHandler_def mk_InstallSnapshotArg_def idle_def raft_members_def
        becameFollower_def Let_def log_trimPrefix_def log_atIter_def noop_entry_def log_lastIndex_def
        asyncInstallSnapshot_done_def)
  moreover have "lastIncludedIndex ?s = 2" "commitIndex ?s = 3" "lastApplied ?s = 3" "log_lastIndex (mainLog ?s) = 3"
    by (simp_all add: log_lastIndex_def noop_entry_def)
  ultimately show ?thesis
    by (intro exI [of _ ?s] exI [of _ ?arg] exI [of _ "fst (installSnapshotHandler 0 0 ?arg ?s)"] exI [of _ ?s1]
        exI [of _ "asyncInstallSnapshot_done 1 1 ?s1"])
      (simp add: mk_InstallSnapshotArg_def)
qed

section \<open>Restart\<close>

text \<open>
  C20: a server restarted on a store that keeps its contract comes back as a follower in the
  term it had saved, with its vote, and with a gap-free log equal to the saved one entry by
  entry; a saved snapshot is pending again.
\<close>

theorem restart_restores:
  assumes p: "persister load storable" and st: "storable (ps :: PersistentState)"
    and wf: "contiguous (unat (ps_lastIncludedIndex ps)) (log_data (ps_log ps))"
    and new: "RaftImpl_new load ids i pol now (Some ps) = Inr s"
  shows "role s = Follower \<and> currentTerm s = ps_currentTerm ps \<and> raft_inv s \<and>
    (\<forall>v. ps_votedFor ps = Some v \<longrightarrow> votedFor s = Some v) \<and>
    list_all2 entry_eq (log_data (ps_log ps)) (log_data (mainLog s)) \<and>
    snapshotData s = ps_snapshotData ps \<and> pendingSnapshot s = (ps_snapshotData ps \<noteq> '''')"
proof -
  from persister.load_saved [OF p st] obtain ps' where ps': "load (Some ps) = Inr ps'" "same_state ps ps'" by blast
  then have eq: "list_all2 entry_eq (log_data (ps_log ps)) (log_data (ps_log ps'))"
    unfolding same_state_def by (metis wire_entries_eqD)
  let ?q = "filter (\<lambda>a. a \<noteq> i) ids"
  let ?m = "raft_members ids i pol now (Some ps)\<lparr>nextIndex := const_map ?q 1, matchIndex := const_map ?q 0\<rparr>"
  have s: "s = (readPersist ps' ?m)\<lparr>shouldStartHeartbeat := const_map ?q False, appendNow := const_map ?q False,
      shouldStartElection := const_map ?q False, peers := remdups ?q\<rparr>"
    using new ps'(1) by (simp add: RaftImpl_new_def Let_def)
  have "mainLog s = \<lparr>log_lastIncludedIndex = ps_lastIncludedIndex ps', log_lastIncludedTerm = ps_lastIncludedTerm ps',
      log_entries = log_data (ps_log ps')\<rparr>"
    unfolding s by (simp add: readPersist_def raft_members_def Let_def log_setLastIncluded_def log_merge_def
        log_clear_def log_new_def)
  moreover have "contiguous (unat (ps_lastIncludedIndex ps')) (log_data (ps_log ps'))"
    using wf ps'(2) eq by (auto simp: same_state_def contiguous_def list_all2_conv_all_nth entry_eq_def)
  moreover have "role s = Follower" "currentTerm s = ps_currentTerm ps'" "votedFor s = ps_votedFor ps'"
    "lastIncludedIndex s = ps_lastIncludedIndex ps'" "lastIncludedTerm s = ps_lastIncludedTerm ps'"
    "snapshotData s = ps_snapshotData ps'" "pendingSnapshot s = (ps_snapshotData ps' \<noteq> '''')"
    unfolding s by (simp_all add: readPersist_def raft_members_def Let_def)
  ultimately show ?thesis
    using ps'(2) eq by (simp add: raft_inv_def log_wf_def log_base_def same_state_def log_data_def)
qed

theorem restart_restores_witness:
  "\<exists>s. RaftImpl_new (go_load (\<lambda>m. Some (enc_command m)) (whole dec_command) enc_persistent (whole dec_persistent)
         enc_raftstate (whole dec_raftstate)) [''a'', ''b''] ''a'' sample_policy 0 (Some voted_state) = Inr s \<and>
     currentTerm s = 3 \<and> votedFor s = Some ''b''"
proof -
  let ?load = "go_load (\<lambda>m. Some (enc_command m)) (whole dec_command) enc_persistent (whole dec_persistent)
         enc_raftstate (whole dec_raftstate)"
  have v: "ps_log voted_state = log_new" "ps_votedFor voted_state = Some ''b''" "ps_currentTerm voted_state = 3"
    "ps_snapshotData voted_state = ''''" "ps_lastIncludedIndex voted_state = 0" "ps_lastIncludedTerm voted_state = 0"
    by (simp_all add: voted_state_def mk_PersistentState_def log_merge_def log_clear_def log_new_def log_data_def)
  have st: "go_storable (\<lambda>m. Some (enc_command m)) (whole dec_command) enc_persistent voted_state"
    by (rule sample_storable) (simp_all add: v)
  obtain s where s: "RaftImpl_new ?load [''a'', ''b''] ''a'' sample_policy 0 (Some voted_state) = Inr s"
    using gop.go_load_saved [OF st] by (simp add: RaftImpl_new_def Let_def)
  have "contiguous (unat (ps_lastIncludedIndex voted_state)) (log_data (ps_log voted_state))"
    by (simp add: v log_data_def log_new_def)
  from restart_restores [OF gop.go.persister_axioms st this s] s v show ?thesis by auto
qed

end
