(* ===== verification/RaftSpec.thy ===== *)
theory RaftSpec
  imports Prelude "HOL-Library.Sublist"
begin

text \<open>
  What the servers of \<open>src/include/raft/RaftImpl.hpp\<close> promise together, as a protocol on
  terms (natural numbers) and logs (lists): the specification that the theory \<open>Replication\<close>
  shows the handlers and threads of the code to implement. A leader sends its whole log, a
  follower takes it over unless its own log already continues it, and an index is committed
  once a majority has stored it in the leader's term. Some fields only record the past:
  \<open>p_stood\<close> and \<open>p_won\<close> the logs with which servers stood for and won an election,
  \<open>p_lead\<close> what the winner's log has grown to in its term, \<open>p_acks\<close> how much of it a server
  has stored while in that term, \<open>p_applied\<close> the entries handed to state machines.
\<close>

section \<open>The protocol\<close>

record ('p, 'e) protocol =
  p_term :: "'p \<Rightarrow> nat"
  p_log :: "'p \<Rightarrow> 'e list"
  p_commit :: "'p \<Rightarrow> nat"
  p_stood :: "'p \<times> nat \<Rightarrow> 'e list option"
  p_votes :: "('p \<times> nat \<times> 'p) set"
  p_won :: "'p \<times> nat \<Rightarrow> 'e list option"
  p_lead :: "'p \<times> nat \<Rightarrow> 'e list"
  p_sent :: "(('p \<times> nat) \<times> 'e list \<times> nat) set"
  p_acks :: "('p \<times> ('p \<times> nat) \<times> nat) set"
  p_applied :: "('p \<times> nat \<times> 'e) set"

definition last_term :: "('e \<Rightarrow> nat) \<Rightarrow> 'e list \<Rightarrow> nat" where
  "last_term et xs = (if xs = [] then 0 else et (last xs))"

text \<open>The log \<open>xs\<close> is at least as up to date as \<open>ys\<close>.\<close>

definition newer :: "('e \<Rightarrow> nat) \<Rightarrow> 'e list \<Rightarrow> 'e list \<Rightarrow> bool" where
  "newer et xs ys \<longleftrightarrow> last_term et ys < last_term et xs \<or>
     last_term et ys = last_term et xs \<and> length ys \<le> length xs"

definition take_over :: "'e list \<Rightarrow> 'e list \<Rightarrow> 'e list" where
  "take_over own sent = (if prefix sent own then own else sent)"

inductive protocol_step :: "('p set \<Rightarrow> bool) \<Rightarrow> ('e \<Rightarrow> nat) \<Rightarrow> ('p, 'e) protocol \<Rightarrow> ('p, 'e) protocol \<Rightarrow> bool"
  for maj et where
  advance: "p_term P i \<le> T \<Longrightarrow> protocol_step maj et P (P\<lparr>p_term := (p_term P)(i := T)\<rparr>)"
| stand: "p_term P i < T \<Longrightarrow>
     protocol_step maj et P (P\<lparr>p_term := (p_term P)(i := T), p_stood := (p_stood P)((i, T) := Some (p_log P i)),
       p_votes := insert (i, T, i) (p_votes P)\<rparr>)"
| vote: "p_term P j \<le> T \<Longrightarrow> (\<And>c'. (j, T, c') \<in> p_votes P \<Longrightarrow> c' = c) \<Longrightarrow>
     p_stood P (c, T) = Some xs \<Longrightarrow> newer et xs (p_log P j) \<Longrightarrow>
     protocol_step maj et P (P\<lparr>p_term := (p_term P)(j := T), p_votes := insert (j, T, c) (p_votes P)\<rparr>)"
| win: "p_term P i = T \<Longrightarrow> p_won P (i, T) = None \<Longrightarrow> p_stood P (i, T) = Some (p_log P i) \<Longrightarrow>
     maj Q \<Longrightarrow> (\<And>j. j \<in> Q \<Longrightarrow> (j, T, i) \<in> p_votes P) \<Longrightarrow>
     protocol_step maj et P (P\<lparr>p_won := (p_won P)((i, T) := Some (p_log P i)),
       p_lead := (p_lead P)((i, T) := p_log P i),
       p_acks := insert (i, (i, T), length (p_log P i)) (p_acks P)\<rparr>)"
| propose: "p_term P i = T \<Longrightarrow> p_won P (i, T) = Some ws \<Longrightarrow> et e = T \<Longrightarrow> xs = p_log P i @ [e] \<Longrightarrow>
     protocol_step maj et P (P\<lparr>p_log := (p_log P)(i := xs), p_lead := (p_lead P)((i, T) := xs),
       p_acks := insert (i, (i, T), length xs) (p_acks P)\<rparr>)"
| send: "p_term P i = T \<Longrightarrow> p_won P (i, T) = Some ws \<Longrightarrow>
     protocol_step maj et P (P\<lparr>p_sent := insert ((i, T), p_log P i, p_commit P i) (p_sent P)\<rparr>)"
| accept: "((i, T), xs, c) \<in> p_sent P \<Longrightarrow> p_term P j \<le> T \<Longrightarrow>
     protocol_step maj et P (P\<lparr>p_term := (p_term P)(j := T), p_log := (p_log P)(j := take_over (p_log P j) xs),
       p_commit := (p_commit P)(j := max (p_commit P j) c),
       p_acks := insert (j, (i, T), length xs) (p_acks P)\<rparr>)"
| commit: "p_term P i = T \<Longrightarrow> p_won P (i, T) = Some ws \<Longrightarrow> 0 < k \<Longrightarrow> k \<le> length (p_log P i) \<Longrightarrow>
     et (p_log P i ! (k - 1)) = T \<Longrightarrow> maj Q \<Longrightarrow> (\<And>j. j \<in> Q \<Longrightarrow> \<exists>k' \<ge> k. (j, (i, T), k') \<in> p_acks P) \<Longrightarrow>
     protocol_step maj et P (P\<lparr>p_commit := (p_commit P)(i := k)\<rparr>)"
| deliver: "k < p_commit P i \<Longrightarrow>
     protocol_step maj et P (P\<lparr>p_applied := insert (i, k, p_log P i ! k) (p_applied P)\<rparr>)"
| reboot: "protocol_step maj et P (P\<lparr>p_commit := (p_commit P)(i := 0)\<rparr>)"

definition protocol_init :: "('p, 'e) protocol" where
  "protocol_init = \<lparr>p_term = \<lambda>_. 0, p_log = \<lambda>_. [], p_commit = \<lambda>_. 0, p_stood = \<lambda>_. None, p_votes = {},
     p_won = \<lambda>_. None, p_lead = \<lambda>_. [], p_sent = {}, p_acks = {}, p_applied = {}\<rparr>"

inductive protocol_reach :: "('p set \<Rightarrow> bool) \<Rightarrow> ('e \<Rightarrow> nat) \<Rightarrow> ('p, 'e) protocol \<Rightarrow> bool" for maj et where
  protocol_start: "protocol_reach maj et protocol_init"
| protocol_next: "protocol_reach maj et P \<Longrightarrow> protocol_step maj et P P' \<Longrightarrow> protocol_reach maj et P'"

section \<open>The invariant\<close>

text \<open>
  \<open>held\<close>: every entry of the log stands where the winner of its term put it, behind the log
  the winner started with, and the log agrees with the winner's up to there.
\<close>

definition held :: "('e \<Rightarrow> nat) \<Rightarrow> ('p \<times> nat \<Rightarrow> 'e list option) \<Rightarrow> ('p \<times> nat \<Rightarrow> 'e list) \<Rightarrow> 'e list \<Rightarrow> bool" where
  "held et won ld xs \<longleftrightarrow> (\<forall>k < length xs. \<exists>i ws. won (i, et (xs ! k)) = Some ws \<and> length ws \<le> k \<and>
     take (Suc k) xs = take (Suc k) (ld (i, et (xs ! k))))"

text \<open>
  The server \<open>j\<close> has stored the first \<open>k\<close> entries of the log of the winner \<open>x\<close>, the last of
  them an entry of the winner's own term.
\<close>

definition stored_by :: "('p, 'e) protocol \<Rightarrow> 'p \<Rightarrow> 'p \<times> nat \<Rightarrow> nat \<Rightarrow> bool" where
  "stored_by P j x k \<longleftrightarrow> (\<exists>k' \<ge> k. (j, x, k') \<in> p_acks P) \<and> (\<exists>ws. p_won P x = Some ws \<and> length ws < k)"

text \<open>Between the term of \<open>x\<close> and \<open>U\<close> somebody has won without these \<open>k\<close> entries.\<close>

definition overridden :: "('p \<times> nat \<Rightarrow> 'e list option) \<Rightarrow> ('p \<times> nat \<Rightarrow> 'e list) \<Rightarrow> 'p \<times> nat \<Rightarrow> nat \<Rightarrow> nat \<Rightarrow> bool" where
  "overridden won ld x k U \<longleftrightarrow> (\<exists>l V ws. snd x < V \<and> V < U \<and> won (l, V) = Some ws \<and> \<not> prefix (take k (ld x)) ws)"

definition votes_inv :: "('p, 'e) protocol \<Rightarrow> bool" where
  "votes_inv P \<longleftrightarrow>
     (\<forall>j T c. (j, T, c) \<in> p_votes P \<longrightarrow> T \<le> p_term P j \<and> p_stood P (c, T) \<noteq> None) \<and>
     (\<forall>j T c c'. (j, T, c) \<in> p_votes P \<longrightarrow> (j, T, c') \<in> p_votes P \<longrightarrow> c' = c) \<and>
     (\<forall>i T xs. p_stood P (i, T) = Some xs \<longrightarrow> T \<le> p_term P i)"

definition won_inv :: "('p set \<Rightarrow> bool) \<Rightarrow> ('e \<Rightarrow> nat) \<Rightarrow> ('p, 'e) protocol \<Rightarrow> bool" where
  "won_inv maj et P \<longleftrightarrow> (\<forall>i T ws. p_won P (i, T) = Some ws \<longrightarrow>
     T \<le> p_term P i \<and> prefix ws (p_lead P (i, T)) \<and> (\<forall>e \<in> set ws. et e < T) \<and>
     (\<forall>e \<in> set (drop (length ws) (p_lead P (i, T))). et e = T) \<and>
     (p_term P i = T \<longrightarrow> p_log P i = p_lead P (i, T)) \<and>
     (\<exists>Q. maj Q \<and> (\<forall>j \<in> Q. (j, T, i) \<in> p_votes P)))"

definition held_inv :: "('e \<Rightarrow> nat) \<Rightarrow> ('p, 'e) protocol \<Rightarrow> bool" where
  "held_inv et P \<longleftrightarrow>
     (\<forall>i. held et (p_won P) (p_lead P) (p_log P i) \<and> (\<forall>e \<in> set (p_log P i). et e \<le> p_term P i)) \<and>
     (\<forall>i T xs. p_stood P (i, T) = Some xs \<longrightarrow> held et (p_won P) (p_lead P) xs \<and> (\<forall>e \<in> set xs. et e < T)) \<and>
     (\<forall>x ws. p_won P x = Some ws \<longrightarrow> held et (p_won P) (p_lead P) (p_lead P x))"

definition sent_inv :: "('p, 'e) protocol \<Rightarrow> bool" where
  "sent_inv P \<longleftrightarrow> (\<forall>x xs c. (x, xs, c) \<in> p_sent P \<longrightarrow>
     (\<exists>ws. p_won P x = Some ws \<and> prefix ws xs) \<and> prefix xs (p_lead P x) \<and> c \<le> length xs)"

definition acks_inv :: "('p, 'e) protocol \<Rightarrow> bool" where
  "acks_inv P \<longleftrightarrow>
     (\<forall>j x k. (j, x, k) \<in> p_acks P \<longrightarrow> snd x \<le> p_term P j \<and> p_won P x \<noteq> None \<and> k \<le> length (p_lead P x)) \<and>
     (\<forall>j x k. stored_by P j x k \<longrightarrow>
        prefix (take k (p_lead P x)) (p_log P j) \<or> overridden (p_won P) (p_lead P) x k (Suc (p_term P j)))"

text \<open>What a vote in an election that is not decided yet, and a won election, say of stored entries.\<close>

definition ballots_inv :: "('p, 'e) protocol \<Rightarrow> bool" where
  "ballots_inv P \<longleftrightarrow> (\<forall>j U c xs x k. (j, U, c) \<in> p_votes P \<longrightarrow> (\<forall>l. p_won P (l, U) = None) \<longrightarrow>
     p_stood P (c, U) = Some xs \<longrightarrow> stored_by P j x k \<longrightarrow> snd x < U \<longrightarrow>
     prefix (take k (p_lead P x)) xs \<or> overridden (p_won P) (p_lead P) x k U)"

definition winners_inv :: "('p set \<Rightarrow> bool) \<Rightarrow> ('p, 'e) protocol \<Rightarrow> bool" where
  "winners_inv maj P \<longleftrightarrow> (\<forall>l U ws. p_won P (l, U) = Some ws \<longrightarrow>
     (\<exists>Q. maj Q \<and> (\<forall>j \<in> Q. U \<le> p_term P j \<and> (\<forall>x k. stored_by P j x k \<longrightarrow> snd x < U \<longrightarrow>
        prefix (take k (p_lead P x)) ws \<or> overridden (p_won P) (p_lead P) x k U))))"

definition committed :: "('p set \<Rightarrow> bool) \<Rightarrow> ('p, 'e) protocol \<Rightarrow> 'p \<times> nat \<Rightarrow> nat \<Rightarrow> bool" where
  "committed maj P x k \<longleftrightarrow> (\<exists>Q. maj Q \<and> (\<forall>j \<in> Q. stored_by P j x k))"

text \<open>The first \<open>c\<close> entries of \<open>xs\<close> were committed by a winner of a term up to \<open>T\<close>.\<close>

definition committed_prefix :: "('p set \<Rightarrow> bool) \<Rightarrow> ('p, 'e) protocol \<Rightarrow> nat \<Rightarrow> 'e list \<Rightarrow> nat \<Rightarrow> bool" where
  "committed_prefix maj P T xs c \<longleftrightarrow> c \<le> length xs \<and>
     (c = 0 \<or> (\<exists>x k. committed maj P x k \<and> snd x \<le> T \<and> c \<le> k \<and> take c xs = take c (p_lead P x)))"

definition commit_inv :: "('p set \<Rightarrow> bool) \<Rightarrow> ('p, 'e) protocol \<Rightarrow> bool" where
  "commit_inv maj P \<longleftrightarrow>
     (\<forall>j. committed_prefix maj P (p_term P j) (p_log P j) (p_commit P j)) \<and>
     (\<forall>x xs c. (x, xs, c) \<in> p_sent P \<longrightarrow> committed_prefix maj P (snd x) xs c) \<and>
     (\<forall>j n e. (j, n, e) \<in> p_applied P \<longrightarrow> (\<exists>x k. committed maj P x k \<and> n < k \<and> e = p_lead P x ! n))"

definition protocol_inv :: "('p set \<Rightarrow> bool) \<Rightarrow> ('e \<Rightarrow> nat) \<Rightarrow> ('p, 'e) protocol \<Rightarrow> bool" where
  "protocol_inv maj et P \<longleftrightarrow> votes_inv P \<and> won_inv maj et P \<and> held_inv et P \<and> sent_inv P \<and> acks_inv P \<and>
     ballots_inv P \<and> winners_inv maj P \<and> commit_inv maj P"

section \<open>Growing records\<close>

definition grows :: "('p \<times> nat \<Rightarrow> 'e list option) \<Rightarrow> ('p \<times> nat \<Rightarrow> 'e list)
    \<Rightarrow> ('p \<times> nat \<Rightarrow> 'e list option) \<Rightarrow> ('p \<times> nat \<Rightarrow> 'e list) \<Rightarrow> bool" where
  "grows won ld won' ld' \<longleftrightarrow> (\<forall>x ws. won x = Some ws \<longrightarrow> won' x = Some ws \<and> prefix (ld x) (ld' x))"

lemma grows_refl [simp]: "grows won ld won ld"
  by (simp add: grows_def)

lemma take_prefix: "prefix xs ys \<Longrightarrow> k \<le> length xs \<Longrightarrow> take k ys = take k xs"
  by (auto simp: prefix_def)

lemma prefix_take_iff: "k \<le> length xs \<Longrightarrow> prefix (take k xs) ys \<longleftrightarrow> k \<le> length ys \<and> take k ys = take k xs"
  by (metis append_eq_conv_conj length_take min.absorb2 prefix_def prefix_length_le take_is_prefix)

lemma held_grows:
  assumes "grows won ld won' ld'" and "held et won ld xs"
  shows "held et won' ld' xs"
  unfolding held_def
proof (intro allI impI)
  fix k assume k: "k < length xs"
  with assms(2) obtain i ws where w: "won (i, et (xs ! k)) = Some ws" "length ws \<le> k"
    and eq: "take (Suc k) xs = take (Suc k) (ld (i, et (xs ! k)))" unfolding held_def by blast
  have "Suc k \<le> length (ld (i, et (xs ! k)))" using arg_cong [OF eq, of length] k by simp
  with assms(1) w have "won' (i, et (xs ! k)) = Some ws"
    "take (Suc k) (ld' (i, et (xs ! k))) = take (Suc k) (ld (i, et (xs ! k)))"
    unfolding grows_def by (blast, blast intro: take_prefix)
  with w eq show "\<exists>i ws. won' (i, et (xs ! k)) = Some ws \<and> length ws \<le> k \<and>
      take (Suc k) xs = take (Suc k) (ld' (i, et (xs ! k)))" by metis
qed

lemma held_prefix:
  assumes "held et won ld ys" and "prefix xs ys"
  shows "held et won ld xs"
proof -
  from assms(2) have "k < length xs \<Longrightarrow> xs ! k = ys ! k" "k < length xs \<Longrightarrow> take (Suc k) xs = take (Suc k) ys" for k
    by (auto simp: prefix_def nth_append)
  moreover have "length xs \<le> length ys" using assms(2) by (rule prefix_length_le)
  ultimately show ?thesis using assms(1) unfolding held_def by (metis order_less_le_trans)
qed

lemma held_Nil [simp]: "held et won ld []"
  by (simp add: held_def)

lemma held_snoc:
  assumes "held et won ld xs" and "won (i, et e) = Some ws" and "length ws \<le> length xs"
    and "ld (i, et e) = xs @ [e]"
  shows "held et won ld (xs @ [e])"
  unfolding held_def
proof (intro allI impI)
  fix k assume "k < length (xs @ [e])"
  then consider "k < length xs" | "k = length xs" by fastforce
  then show "\<exists>i ws. won (i, et ((xs @ [e]) ! k)) = Some ws \<and> length ws \<le> k \<and>
      take (Suc k) (xs @ [e]) = take (Suc k) (ld (i, et ((xs @ [e]) ! k)))"
  proof cases
    case 1
    with assms(1) show ?thesis unfolding held_def by (auto simp: nth_append)
  next
    case 2
    with assms(2-4) show ?thesis by (intro exI [of _ i] exI [of _ ws]) simp
  qed
qed

lemma overridden_grows:
  assumes "overridden won ld x k U" and "grows won ld won' ld'" and "U \<le> U'"
    and "take k (ld' x) = take k (ld x)"
  shows "overridden won' ld' x k U'"
proof -
  from assms(1) obtain l V ws where w: "snd x < V" "V < U" "won (l, V) = Some ws" "\<not> prefix (take k (ld x)) ws"
    unfolding overridden_def by blast
  moreover have "won' (l, V) = Some ws" using assms(2) w(3) unfolding grows_def by blast
  ultimately show ?thesis using assms(3,4) unfolding overridden_def
    by (metis order_less_le_trans)
qed

lemma overriddenI:
  "snd x < V \<Longrightarrow> V < U \<Longrightarrow> won (l, V) = Some ws \<Longrightarrow> \<not> prefix (take k (ld x)) ws \<Longrightarrow> overridden won ld x k U"
  unfolding overridden_def by blast

section \<open>Consequences of the invariant\<close>

locale quorums =
  fixes maj :: "'p set \<Rightarrow> bool"
  assumes meet: "maj Q \<Longrightarrow> maj R \<Longrightarrow> \<exists>j. j \<in> Q \<and> j \<in> R"
begin

lemma winner_unique:
  assumes "votes_inv P" and "won_inv maj et P" and "p_won P (i, T) = Some ws" and "p_won P (l, T) = Some ws'"
  shows "l = i"
proof -
  from assms(2-4) obtain Q R where "maj Q" "\<forall>j \<in> Q. (j, T, i) \<in> p_votes P" "maj R" "\<forall>j \<in> R. (j, T, l) \<in> p_votes P"
    unfolding won_inv_def by meson
  with meet obtain j where "(j, T, i) \<in> p_votes P" "(j, T, l) \<in> p_votes P" by blast
  with assms(1) show ?thesis unfolding votes_inv_def by blast
qed

lemma held_same:
  assumes "votes_inv P" and "won_inv maj et P"
    and "held et (p_won P) (p_lead P) xs" and "held et (p_won P) (p_lead P) ys"
    and "k < length xs" and "k < length ys" and "et (xs ! k) = et (ys ! k)"
  shows "take (Suc k) xs = take (Suc k) ys"
proof -
  from assms(3,5) obtain i ws where i: "p_won P (i, et (xs ! k)) = Some ws"
    "take (Suc k) xs = take (Suc k) (p_lead P (i, et (xs ! k)))" unfolding held_def by blast
  from assms(4,6) obtain l vs where l: "p_won P (l, et (ys ! k)) = Some vs"
    "take (Suc k) ys = take (Suc k) (p_lead P (l, et (ys ! k)))" unfolding held_def by blast
  from winner_unique [OF assms(1,2) i(1)] l(1) assms(7) have "l = i" by simp
  with i(2) l(2) assms(7) show ?thesis by simp
qed

lemma lead_terms:
  assumes "won_inv maj et P" and "p_won P (i, T) = Some ws" and "e \<in> set (p_lead P (i, T))"
  shows "et e \<le> T"
proof -
  have p: "prefix ws (p_lead P (i, T))" "\<forall>e \<in> set ws. et e < T"
    "\<forall>e \<in> set (drop (length ws) (p_lead P (i, T))). et e = T"
    using assms(1,2) unfolding won_inv_def by blast+
  from p(1) obtain zs where z: "p_lead P (i, T) = ws @ zs" by (auto simp: prefix_def)
  with assms(3) consider "e \<in> set ws" | "e \<in> set zs" by auto
  then show ?thesis
  proof cases
    case 1
    with p(2) show ?thesis by (simp add: less_imp_le)
  next
    case 2
    with p(3) z show ?thesis by simp
  qed
qed

lemma held_sorted:
  assumes "won_inv maj et P" and "held et (p_won P) (p_lead P) xs" and "k \<le> n" and "n < length xs"
  shows "et (xs ! k) \<le> et (xs ! n)"
proof -
  from assms(2,4) obtain i ws where w: "p_won P (i, et (xs ! n)) = Some ws"
    "take (Suc n) xs = take (Suc n) (p_lead P (i, et (xs ! n)))" unfolding held_def by blast
  have "xs ! k \<in> set (take (Suc n) xs)"
    using assms(3,4) by (auto simp: in_set_conv_nth intro!: exI [of _ k])
  then have "xs ! k \<in> set (p_lead P (i, et (xs ! n)))" unfolding w(2) by (rule in_set_takeD)
  then show ?thesis by (rule lead_terms [OF assms(1) w(1)])
qed

lemma held_last:
  assumes "won_inv maj et P" and "held et (p_won P) (p_lead P) xs" and "xs \<noteq> []"
  obtains i ws where "p_won P (i, last_term et xs) = Some ws" "prefix ws xs" "prefix xs (p_lead P (i, last_term et xs))"
proof -
  let ?k = "length xs - 1"
  have k: "?k < length xs" "Suc ?k = length xs" "et (xs ! ?k) = last_term et xs"
    using assms(3) by (auto simp: last_term_def last_conv_nth)
  with assms(2) obtain i ws where w: "p_won P (i, last_term et xs) = Some ws" "length ws \<le> ?k"
    "take (length xs) xs = take (length xs) (p_lead P (i, last_term et xs))" unfolding held_def by metis
  have px: "prefix xs (p_lead P (i, last_term et xs))" using w(3) by (metis take_all_iff order_refl take_is_prefix)
  moreover have "prefix ws (p_lead P (i, last_term et xs))" using assms(1) w(1) unfolding won_inv_def by blast
  ultimately have "prefix ws xs" using w(2) k(1) by (metis less_imp_le order_le_less_trans prefix_length_prefix)
  with w(1) px show thesis using that by blast
qed

end

context quorums
begin

lemma stored_facts:
  assumes "acks_inv P" and "won_inv maj et P" and "stored_by P j (i, T) k"
  shows "0 < k" and "k \<le> length (p_lead P (i, T))" and "et (p_lead P (i, T) ! (k - 1)) = T" and "T \<le> p_term P j"
proof -
  from assms(3) obtain k' ws where a: "(j, (i, T), k') \<in> p_acks P" "k \<le> k'" "p_won P (i, T) = Some ws" "length ws < k"
    unfolding stored_by_def by blast
  have b: "T \<le> p_term P j" "k' \<le> length (p_lead P (i, T))"
    using assms(1) a(1) unfolding acks_inv_def by fastforce+
  with a(2,4) show "0 < k" "k \<le> length (p_lead P (i, T))" "T \<le> p_term P j" by auto
  have "p_lead P (i, T) ! (k - 1) = drop (length ws) (p_lead P (i, T)) ! (k - 1 - length ws)"
    "k - 1 - length ws < length (drop (length ws) (p_lead P (i, T)))"
    using a(2,4) b(2) by auto
  then have "p_lead P (i, T) ! (k - 1) \<in> set (drop (length ws) (p_lead P (i, T)))" by (metis nth_mem)
  then show "et (p_lead P (i, T) ! (k - 1)) = T" using assms(2) a(3) unfolding won_inv_def by blast
qed

text \<open>
  The argument behind the vote: a log that is at least as up to date as one with the stored
  entries has them too, or somebody has won in between without them.
\<close>

lemma newer_keeps:
  assumes v: "votes_inv P" and w: "won_inv maj et P" and a: "acks_inv P" and st: "stored_by P j x k"
    and ys: "held et (p_won P) (p_lead P) ys" "prefix (take k (p_lead P x)) ys"
    and xs: "held et (p_won P) (p_lead P) xs" "newer et xs ys" "\<And>e. e \<in> set xs \<Longrightarrow> et e < U"
  shows "prefix (take k (p_lead P x)) xs \<or> overridden (p_won P) (p_lead P) x k U"
proof -
  obtain i T where x: "x = (i, T)" by fastforce
  note f = stored_facts [OF a w st [unfolded x]]
  have ys_take: "k \<le> length ys" "take k ys = take k (p_lead P x)"
    using ys(2) f(2) by (simp_all add: prefix_take_iff x)
  have "ys ! (k - 1) = p_lead P x ! (k - 1)" using arg_cong [OF ys_take(2), of "\<lambda>zs. zs ! (k - 1)"] f(1) by simp
  then have "et (ys ! (k - 1)) = T" using f(3) by (simp add: x)
  moreover have ne: "ys \<noteq> []" using ys_take(1) f(1) by auto
  ultimately have T: "T \<le> last_term et ys"
    using held_sorted [OF w ys(1), of "k - 1" "length ys - 1"] ys_take(1) f(1)
    by (auto simp: last_term_def last_conv_nth)
  have xne: "xs \<noteq> []" using xs(2) ne by (auto simp: newer_def last_term_def)
  then have U: "last_term et xs < U" using xs(3) by (simp add: last_term_def)
  obtain l ws where l: "p_won P (l, last_term et xs) = Some ws" "prefix ws xs"
    "prefix xs (p_lead P (l, last_term et xs))" by (rule held_last [OF w xs(1) xne])
  obtain m vs where m: "p_won P (m, last_term et ys) = Some vs" "prefix ys (p_lead P (m, last_term et ys))"
    by (rule held_last [OF w ys(1) ne])
  from xs(2) consider (eq) "last_term et ys = last_term et xs" "length ys \<le> length xs"
    | (less) "last_term et ys < last_term et xs" unfolding newer_def by blast
  then show ?thesis
  proof cases
    case eq
    then have "m = l" using winner_unique [OF v w l(1)] m(1) by simp
    with m(2) l(3) eq have "prefix ys xs" by (metis prefix_length_prefix)
    with ys(2) show ?thesis using prefix_order.trans by blast
  next
    case less
    show ?thesis
    proof (cases "prefix (take k (p_lead P x)) ws")
      case True
      with l(2) show ?thesis using prefix_order.trans by blast
    next
      case False
      have "snd x < last_term et xs" using T less by (simp add: x)
      with False U l(1) show ?thesis by (blast intro: overriddenI)
    qed
  qed
qed

text \<open>Whoever wins later has what was committed.\<close>

lemma leader_complete:
  assumes win: "winners_inv maj P" and com: "committed maj P x k" and "p_won P (l, U) = Some ws" and "snd x < U"
  shows "prefix (take k (p_lead P x)) ws"
  using assms(3,4)
proof (induction U arbitrary: l ws rule: less_induct)
  case (less U)
  from com obtain Q where Q: "maj Q" "\<forall>j \<in> Q. stored_by P j x k" unfolding committed_def by blast
  from win less.prems(1) obtain R where R: "maj R" "\<forall>j \<in> R. \<forall>x k. stored_by P j x k \<longrightarrow> snd x < U \<longrightarrow>
      prefix (take k (p_lead P x)) ws \<or> overridden (p_won P) (p_lead P) x k U" unfolding winners_inv_def by meson
  from meet [OF Q(1) R(1)] obtain j where "j \<in> Q" "j \<in> R" by blast
  with Q(2) R(2) less.prems(2) have "prefix (take k (p_lead P x)) ws \<or> overridden (p_won P) (p_lead P) x k U" by blast
  moreover have "\<not> overridden (p_won P) (p_lead P) x k U"
    using less.IH unfolding overridden_def by blast
  ultimately show ?case by blast
qed

lemma committed_facts:
  assumes "acks_inv P" and "won_inv maj et P" and "committed maj P (i, T) k"
  shows "k \<le> length (p_lead P (i, T))" and "0 < k" and "\<exists>ws. p_won P (i, T) = Some ws"
proof -
  from assms(3) obtain Q where Q: "maj Q" "\<forall>j \<in> Q. stored_by P j (i, T) k" unfolding committed_def by blast
  from meet [OF Q(1) Q(1)] Q(2) obtain j where j: "stored_by P j (i, T) k" by blast
  from stored_facts [OF assms(1,2) j] show "k \<le> length (p_lead P (i, T))" "0 < k" by blast+
  from j show "\<exists>ws. p_won P (i, T) = Some ws" unfolding stored_by_def by blast
qed

text \<open>Two committed prefixes agree where both reach.\<close>

lemma committed_agree:
  assumes "protocol_inv maj et P" and "committed maj P x k" and "committed maj P y n" and "snd x \<le> snd y"
    and "m \<le> k" and "m \<le> n"
  shows "take m (p_lead P x) = take m (p_lead P y)"
proof -
  obtain i T where x: "x = (i, T)" by fastforce
  obtain l U where y: "y = (l, U)" by fastforce
  have inv: "votes_inv P" "won_inv maj et P" "acks_inv P" "winners_inv maj P"
    using assms(1) by (simp_all add: protocol_inv_def)
  note cx = committed_facts [OF inv(3,2) assms(2) [unfolded x]] and cy = committed_facts [OF inv(3,2) assms(3) [unfolded y]]
  from cy(3) obtain ws where ws: "p_won P (l, U) = Some ws" by blast
  show ?thesis
  proof (cases "T = U")
    case True
    with cx(3) winner_unique [OF inv(1,2) ws] have "i = l" by blast
    with True x y show ?thesis by simp
  next
    case False
    with assms(4) x y have lt: "snd x < U" by simp
    from leader_complete [OF inv(4) assms(2) ws lt] have "prefix (take k (p_lead P x)) ws" .
    moreover have "prefix ws (p_lead P y)" using inv(2) ws unfolding won_inv_def y by blast
    ultimately have "prefix (take k (p_lead P x)) (p_lead P y)" using prefix_order.trans by blast
    then have "take k (p_lead P y) = take k (p_lead P x)" using cx(1) by (simp add: prefix_take_iff x)
    from arg_cong [OF this, of "take m"] assms(5) show ?thesis by (simp add: min_absorb1)
  qed
qed

end

section \<open>The steps keep the invariant\<close>

lemma stored_by_fields:
  "p_acks P' = p_acks P \<Longrightarrow> p_won P' = p_won P \<Longrightarrow> stored_by P' j x k = stored_by P j x k"
  by (simp add: stored_by_def)

lemma committed_fields:
  "p_acks P' = p_acks P \<Longrightarrow> p_won P' = p_won P \<Longrightarrow> committed maj P' x k = committed maj P x k"
  by (simp add: committed_def stored_by_def)

lemma committed_prefix_fields:
  "p_acks P' = p_acks P \<Longrightarrow> p_won P' = p_won P \<Longrightarrow> p_lead P' = p_lead P \<Longrightarrow>
   committed_prefix maj P' T xs c = committed_prefix maj P T xs c"
  by (simp add: committed_prefix_def committed_def stored_by_def)

lemma committed_prefix_later: "committed_prefix maj P T xs c \<Longrightarrow> T \<le> T' \<Longrightarrow> committed_prefix maj P T' xs c"
  unfolding committed_prefix_def by (meson order_trans)

lemma committed_prefix_longer: "committed_prefix maj P T xs c \<Longrightarrow> prefix xs ys \<Longrightarrow> committed_prefix maj P T ys c"
  unfolding committed_prefix_def by (metis order_trans prefix_length_le take_prefix)

lemma overridden_later: "overridden won ld x k U \<Longrightarrow> U \<le> U' \<Longrightarrow> overridden won ld x k U'"
  unfolding overridden_def by (meson order_less_le_trans)

lemma overridden_before:
  "overridden won ld x k (Suc U) \<Longrightarrow> (\<And>l. won (l, U) = None) \<Longrightarrow> overridden won ld x k U"
  unfolding overridden_def by (metis less_Suc_eq option.distinct(1))

lemma protocol_invD:
  assumes "protocol_inv maj et P"
  shows "votes_inv P" "won_inv maj et P" "held_inv et P" "sent_inv P" "acks_inv P" "ballots_inv P"
    "winners_inv maj P" "commit_inv maj P"
  using assms by (simp_all add: protocol_inv_def)

lemmas frame_simps = stored_by_fields committed_fields committed_prefix_fields

lemma inv_raise:
  assumes inv: "protocol_inv maj et P" and T: "p_term P i \<le> T"
  shows "protocol_inv maj et (P\<lparr>p_term := (p_term P)(i := T)\<rparr>)" (is "protocol_inv maj et ?P")
proof -
  have le: "p_term P j \<le> ((p_term P)(i := T)) j" for j using T by simp
  have st: "stored_by ?P j x k = stored_by P j x k" for j x k by (rule stored_by_fields) simp_all
  have cp: "committed_prefix maj ?P U xs c = committed_prefix maj P U xs c" for U xs c
    by (rule committed_prefix_fields) simp_all
  have co: "committed maj ?P x k = committed maj P x k" for x k by (rule committed_fields) simp_all
  note I = protocol_invD [OF inv]
  have "votes_inv ?P" using I(1) unfolding votes_inv_def by (auto intro: order_trans [OF _ T])
  moreover have "p_log P i = p_lead P (i, T)" if "p_won P (i, T) = Some ws" for ws
    using I(2) that order_antisym [OF T] unfolding won_inv_def by blast
  then have "won_inv maj et ?P" using I(2) unfolding won_inv_def by (auto intro: order_trans [OF _ T])
  moreover have "held_inv et ?P" using I(3) unfolding held_inv_def by (auto intro: order_trans [OF _ T])
  moreover have "sent_inv ?P" using I(4) by (simp add: sent_inv_def)
  moreover have "acks_inv ?P"
    using I(5) le unfolding acks_inv_def st
    by (simp del: fun_upd_apply) (meson Suc_le_mono order_trans overridden_later)
  moreover have "ballots_inv ?P" using I(6) unfolding ballots_inv_def st by simp
  moreover have "winners_inv maj ?P"
    using I(7) le unfolding winners_inv_def st by (simp del: fun_upd_apply) (meson order_trans)
  moreover have "commit_inv maj ?P"
    using I(8) le unfolding commit_inv_def cp co by (simp del: fun_upd_apply) (meson committed_prefix_later)
  ultimately show ?thesis by (simp add: protocol_inv_def)
qed

lemma inv_vote:
  assumes q: "quorums maj" and inv: "protocol_inv maj et P" and T: "p_term P j = T"
    and uniq: "\<And>c'. (j, T, c') \<in> p_votes P \<Longrightarrow> c' = c" and xs: "p_stood P (c, T) = Some xs"
    and new: "newer et xs (p_log P j)"
  shows "protocol_inv maj et (P\<lparr>p_votes := insert (j, T, c) (p_votes P)\<rparr>)" (is "protocol_inv maj et ?P")
proof -
  have st: "stored_by ?P j x k = stored_by P j x k" for j x k by (rule stored_by_fields) simp_all
  have cp: "committed_prefix maj ?P U xs c = committed_prefix maj P U xs c" for U xs c
    by (rule committed_prefix_fields) simp_all
  have co: "committed maj ?P x k = committed maj P x k" for x k by (rule committed_fields) simp_all
  note I = protocol_invD [OF inv]
  have "votes_inv ?P" using I(1) T uniq xs unfolding votes_inv_def by auto
  moreover have "won_inv maj et ?P" using I(2) unfolding won_inv_def by simp (meson)
  moreover have "held_inv et ?P" using I(3) by (simp add: held_inv_def)
  moreover have "sent_inv ?P" using I(4) by (simp add: sent_inv_def)
  moreover have "acks_inv ?P" using I(5) unfolding acks_inv_def st by simp
  moreover have "ballots_inv ?P"
  proof -
    have "prefix (take k (p_lead P x)) xs \<or> overridden (p_won P) (p_lead P) x k T"
      if st: "stored_by P j x k" and un: "\<And>l. p_won P (l, T) = None" for x k
    proof -
      have "prefix (take k (p_lead P x)) (p_log P j) \<or> overridden (p_won P) (p_lead P) x k (Suc T)"
        using I(5) st T unfolding acks_inv_def by blast
      then show ?thesis
      proof
        assume "prefix (take k (p_lead P x)) (p_log P j)"
        moreover have "held et (p_won P) (p_lead P) (p_log P j)" "held et (p_won P) (p_lead P) xs"
          "\<And>e. e \<in> set xs \<Longrightarrow> et e < T" using I(3) xs unfolding held_inv_def by blast+
        ultimately show ?thesis by (intro quorums.newer_keeps [OF q I(1,2,5) st _ _ _ new])
      next
        assume "overridden (p_won P) (p_lead P) x k (Suc T)"
        with un show ?thesis using overridden_before by blast
      qed
    qed
    with I(6) xs show ?thesis unfolding ballots_inv_def st by auto
  qed
  moreover have "winners_inv maj ?P" using I(7) unfolding winners_inv_def st by simp
  moreover have "commit_inv maj ?P" using I(8) unfolding commit_inv_def cp co by simp
  ultimately show ?thesis by (simp add: protocol_inv_def)
qed

lemma inv_stood:
  assumes inv: "protocol_inv maj et P" and T: "p_term P i = T" and none: "p_stood P (i, T) = None"
    and old: "\<And>e. e \<in> set (p_log P i) \<Longrightarrow> et e < T"
  shows "protocol_inv maj et (P\<lparr>p_stood := (p_stood P)((i, T) := Some (p_log P i))\<rparr>)" (is "protocol_inv maj et ?P")
proof -
  have st: "stored_by ?P j x k = stored_by P j x k" for j x k by (rule stored_by_fields) simp_all
  have cp: "committed_prefix maj ?P U xs c = committed_prefix maj P U xs c" for U xs c
    by (rule committed_prefix_fields) simp_all
  have co: "committed maj ?P x k = committed maj P x k" for x k by (rule committed_fields) simp_all
  note I = protocol_invD [OF inv]
  have "votes_inv ?P" using I(1) T unfolding votes_inv_def by auto
  moreover have "won_inv maj et ?P" using I(2) by (simp add: won_inv_def)
  moreover have "held_inv et ?P" using I(3) old unfolding held_inv_def by auto
  moreover have "sent_inv ?P" using I(4) by (simp add: sent_inv_def)
  moreover have "acks_inv ?P" using I(5) unfolding acks_inv_def st by simp
  moreover have "ballots_inv ?P"
  proof -
    have "(j, T, i) \<notin> p_votes P" for j using I(1) none unfolding votes_inv_def by blast
    with I(6) show ?thesis unfolding ballots_inv_def st by (auto split: if_splits)
  qed
  moreover have "winners_inv maj ?P" using I(7) unfolding winners_inv_def st by simp
  moreover have "commit_inv maj ?P" using I(8) unfolding commit_inv_def cp co by simp
  ultimately show ?thesis by (simp add: protocol_inv_def)
qed

subsection \<open>Steps that store entries\<close>

text \<open>
  The server \<open>j\<close> stores \<open>k\<close> entries of the winner \<open>x\<close> of its current term, while the
  records of the winners may grow.
\<close>

definition stores :: "('p, 'e) protocol \<Rightarrow> ('p, 'e) protocol \<Rightarrow> 'p \<Rightarrow> 'p \<times> nat \<Rightarrow> nat \<Rightarrow> bool" where
  "stores P P' j x k \<longleftrightarrow> p_term P' = p_term P \<and> p_votes P' = p_votes P \<and> p_stood P' = p_stood P \<and>
     p_acks P' = insert (j, x, k) (p_acks P) \<and> snd x = p_term P j \<and>
     grows (p_won P) (p_lead P) (p_won P') (p_lead P')"

lemma storesD:
  assumes "stores P P' j x k"
  shows "p_term P' = p_term P" "p_votes P' = p_votes P" "p_stood P' = p_stood P"
    "p_acks P' = insert (j, x, k) (p_acks P)" "snd x = p_term P j"
    "grows (p_won P) (p_lead P) (p_won P') (p_lead P')"
  using assms by (simp_all add: stores_def)

lemma stored_cases:
  assumes s: "stores P P' j x k" and a: "acks_inv P" and st: "stored_by P' j' x' k'"
  obtains (old) "stored_by P j' x' k'" | (new) "j' = j" "x' = x" "k' \<le> k"
proof -
  from st obtain n ws where n: "k' \<le> n" "(j', x', n) \<in> p_acks P'" and ws: "p_won P' x' = Some ws" "length ws < k'"
    unfolding stored_by_def by blast
  show thesis
  proof (cases "(j', x', n) \<in> p_acks P")
    case True
    with a obtain ws' where "p_won P x' = Some ws'" unfolding acks_inv_def by blast
    with storesD(6) [OF s] ws have "p_won P x' = Some ws" unfolding grows_def by fastforce
    with True n ws have "stored_by P j' x' k'" unfolding stored_by_def by blast
    then show thesis by (rule old)
  next
    case False
    with n storesD(4) [OF s] show thesis by (intro new) auto
  qed
qed

lemma stored_grows:
  assumes s: "stores P P' j x k" and a: "acks_inv P" and st: "stored_by P j' x' k'"
  shows "stored_by P' j' x' k'" and "take k' (p_lead P' x') = take k' (p_lead P x')"
proof -
  from st obtain n ws where n: "k' \<le> n" "(j', x', n) \<in> p_acks P" and ws: "p_won P x' = Some ws" "length ws < k'"
    unfolding stored_by_def by blast
  have g: "p_won P' x' = Some ws" "prefix (p_lead P x') (p_lead P' x')"
    using storesD(6) [OF s] ws(1) unfolding grows_def by blast+
  with n ws storesD(4) [OF s] show "stored_by P' j' x' k'" unfolding stored_by_def by blast
  have "n \<le> length (p_lead P x')" using a n(2) unfolding acks_inv_def by blast
  with g(2) n(1) show "take k' (p_lead P' x') = take k' (p_lead P x')" by (intro take_prefix) auto
qed

lemma overridden_stores:
  assumes "stores P P' j x k" and "acks_inv P" and "stored_by P j' x' k'" and "overridden (p_won P) (p_lead P) x' k' U"
  shows "overridden (p_won P') (p_lead P') x' k' U"
  by (rule overridden_grows [OF assms(4) storesD(6) [OF assms(1)]]) (simp_all add: stored_grows [OF assms(1-3)])

lemma ballots_stores:
  assumes s: "stores P P' j x k" and inv: "votes_inv P" "acks_inv P" "ballots_inv P"
  shows "ballots_inv P'"
  unfolding ballots_inv_def
proof (intro allI impI)
  fix j' U c xs x' k'
  assume v: "(j', U, c) \<in> p_votes P'" and none: "\<forall>l. p_won P' (l, U) = None" and xs: "p_stood P' (c, U) = Some xs"
    and st: "stored_by P' j' x' k'" and lt: "snd x' < U"
  note s' = storesD [OF s]
  have "U \<le> p_term P j'" using inv(1) v s'(2) unfolding votes_inv_def by auto
  with st lt s'(5) have old: "stored_by P j' x' k'" by (cases rule: stored_cases [OF s inv(2)]) auto
  have "p_won P (l, U) = None" for l using none s'(6) unfolding grows_def by (metis option.exhaust option.distinct(1))
  with inv(3) v xs old lt s'(2,3)
  have "prefix (take k' (p_lead P x')) xs \<or> overridden (p_won P) (p_lead P) x' k' U" unfolding ballots_inv_def by metis
  with overridden_stores [OF s inv(2) old] stored_grows(2) [OF s inv(2) old]
  show "prefix (take k' (p_lead P' x')) xs \<or> overridden (p_won P') (p_lead P') x' k' U" by metis
qed

text \<open>What \<open>winners_inv\<close> says of a server in the quorum of the winner with log \<open>ws\<close>.\<close>

definition bound_by :: "('p, 'e) protocol \<Rightarrow> nat \<Rightarrow> 'e list \<Rightarrow> 'p \<Rightarrow> bool" where
  "bound_by P U ws j \<longleftrightarrow> U \<le> p_term P j \<and> (\<forall>x k. stored_by P j x k \<longrightarrow> snd x < U \<longrightarrow>
     prefix (take k (p_lead P x)) ws \<or> overridden (p_won P) (p_lead P) x k U)"

lemma winners_inv_bound:
  "winners_inv maj P \<longleftrightarrow> (\<forall>l U ws. p_won P (l, U) = Some ws \<longrightarrow> (\<exists>Q. maj Q \<and> (\<forall>j \<in> Q. bound_by P U ws j)))"
  by (simp add: winners_inv_def bound_by_def)

lemma bound_stores:
  assumes s: "stores P P' j x k" and a: "acks_inv P" and b: "bound_by P U ws j'"
  shows "bound_by P' U ws j'"
  unfolding bound_by_def
proof (intro conjI allI impI)
  show le: "U \<le> p_term P' j'" using b storesD(1) [OF s] by (simp add: bound_by_def)
  fix x' k' assume st: "stored_by P' j' x' k'" and lt: "snd x' < U"
  from st lt le storesD(1,5) [OF s] have old: "stored_by P j' x' k'" by (cases rule: stored_cases [OF s a]) auto
  with b lt have "prefix (take k' (p_lead P x')) ws \<or> overridden (p_won P) (p_lead P) x' k' U"
    unfolding bound_by_def by blast
  with overridden_stores [OF s a old] stored_grows(2) [OF s a old]
  show "prefix (take k' (p_lead P' x')) ws \<or> overridden (p_won P') (p_lead P') x' k' U" by metis
qed

lemma committed_stores:
  assumes "stores P P' j x k" and "acks_inv P" and "committed maj P y n"
  shows "committed maj P' y n"
  using assms(3) stored_grows(1) [OF assms(1,2)] unfolding committed_def by blast

lemma committed_take:
  assumes "quorums maj" and "stores P P' j x k" and "acks_inv P" and "committed maj P y n" and "m \<le> n"
  shows "take m (p_lead P' y) = take m (p_lead P y)"
proof -
  from assms(4) obtain Q where Q: "maj Q" "\<forall>j \<in> Q. stored_by P j y n" unfolding committed_def by blast
  from quorums.meet [OF assms(1) Q(1) Q(1)] Q(2) obtain l where "stored_by P l y n" by blast
  from arg_cong [OF stored_grows(2) [OF assms(2,3) this], of "take m"] assms(5) show ?thesis by (simp add: min_absorb1)
qed

lemma committed_prefix_stores:
  assumes "quorums maj" and "stores P P' j x k" and "acks_inv P" and "committed_prefix maj P U xs c"
  shows "committed_prefix maj P' U xs c"
  using assms(4) committed_stores [OF assms(2,3)] committed_take [OF assms(1-3)]
  unfolding committed_prefix_def by metis

lemma applied_stores:
  assumes "quorums maj" and "stores P P' j x k" and "acks_inv P" and "committed maj P y m" and "n < m"
  shows "committed maj P' y m \<and> p_lead P' y ! n = p_lead P y ! n"
  using committed_stores [OF assms(2-4)] arg_cong [OF committed_take [OF assms(1-4) order_refl], of "\<lambda>xs. xs ! n"] assms(5)
  by simp

lemma inv_stores:
  assumes q: "quorums maj" and inv: "protocol_inv maj et P" and s: "stores P P' j x k"
    and parts: "won_inv maj et P'" "held_inv et P'" "sent_inv P'"
    and new: "p_won P' x \<noteq> None" "k \<le> length (p_lead P' x)"
    and frame: "p_sent P' = p_sent P" "p_applied P' = p_applied P"
      "\<And>l. l \<noteq> j \<Longrightarrow> p_log P' l = p_log P l \<and> p_commit P' l = p_commit P l"
    and own: "\<And>y n. stored_by P' j y n \<Longrightarrow> prefix (take n (p_lead P' y)) (p_log P' j) \<or>
      overridden (p_won P') (p_lead P') y n (Suc (p_term P j))"
      "committed_prefix maj P' (p_term P j) (p_log P' j) (p_commit P' j)"
    and wins: "\<And>l U ws. p_won P' (l, U) = Some ws \<Longrightarrow> p_won P (l, U) = None \<Longrightarrow> \<exists>Q. maj Q \<and> (\<forall>j \<in> Q. bound_by P U ws j)"
  shows "protocol_inv maj et P'"
proof -
  note I = protocol_invD [OF inv] and s' = storesD [OF s]
  have "votes_inv P'" using I(1) s'(1-3) by (simp add: votes_inv_def)
  moreover have "acks_inv P'"
    unfolding acks_inv_def
  proof (intro conjI allI impI)
    fix l y n assume "(l, y, n) \<in> p_acks P'"
    then consider "(l, y, n) \<in> p_acks P" | "l = j" "y = x" "n = k" using s'(4) by blast
    then have "snd y \<le> p_term P l \<and> p_won P' y \<noteq> None \<and> n \<le> length (p_lead P' y)"
    proof cases
      case 1
      with I(5) have "snd y \<le> p_term P l" "p_won P y \<noteq> None" "n \<le> length (p_lead P y)"
        unfolding acks_inv_def by blast+
      with s'(6) show ?thesis unfolding grows_def by (metis option.exhaust option.distinct(1) order_trans prefix_length_le)
    qed (use new s'(5) in simp)
    then show "snd y \<le> p_term P' l" "p_won P' y \<noteq> None" "n \<le> length (p_lead P' y)" using s'(1) by simp_all
  next
    fix l y n assume st: "stored_by P' l y n"
    show "prefix (take n (p_lead P' y)) (p_log P' l) \<or> overridden (p_won P') (p_lead P') y n (Suc (p_term P' l))"
    proof (cases "l = j")
      case False
      from st False have old: "stored_by P l y n" by (cases rule: stored_cases [OF s I(5)]) auto
      with I(5) have "prefix (take n (p_lead P y)) (p_log P l) \<or> overridden (p_won P) (p_lead P) y n (Suc (p_term P l))"
        unfolding acks_inv_def by blast
      with overridden_stores [OF s I(5) old] stored_grows(2) [OF s I(5) old] frame(3) [OF False] s'(1) show ?thesis by metis
    qed (use own(1) st s'(1) in simp)
  qed
  moreover have "ballots_inv P'" by (rule ballots_stores [OF s I(1,5,6)])
  moreover have "winners_inv maj P'"
    using I(7) wins bound_stores [OF s I(5)] s'(6) unfolding winners_inv_bound grows_def
    by (metis option.exhaust option.inject)
  moreover have "commit_inv maj P'"
  proof -
    have "committed_prefix maj P' (p_term P' l) (p_log P' l) (p_commit P' l)" for l
      using I(8) committed_prefix_stores [OF q s I(5)] own(2) frame(3) [of l] s'(1) unfolding commit_inv_def by metis
    moreover have "\<exists>x k. committed maj P' x k \<and> n < k \<and> e = p_lead P' x ! n" if "(l, n, e) \<in> p_applied P" for l n e
      using I(8) that applied_stores [OF q s I(5)] unfolding commit_inv_def by metis
    ultimately show ?thesis
      using I(8) committed_prefix_stores [OF q s I(5)] frame(1,2) unfolding commit_inv_def by metis
  qed
  ultimately show ?thesis using parts by (simp add: protocol_inv_def)
qed

lemma inv_win:
  assumes q: "quorums maj" and inv: "protocol_inv maj et P" and T: "p_term P i = T" and none: "p_won P (i, T) = None"
    and so: "p_stood P (i, T) = Some (p_log P i)" and Q: "maj Q" "\<And>j. j \<in> Q \<Longrightarrow> (j, T, i) \<in> p_votes P"
  shows "protocol_inv maj et (P\<lparr>p_won := (p_won P)((i, T) := Some (p_log P i)),
      p_lead := (p_lead P)((i, T) := p_log P i),
      p_acks := insert (i, (i, T), length (p_log P i)) (p_acks P)\<rparr>)" (is "protocol_inv maj et ?P")
proof -
  note I = protocol_invD [OF inv]
  have g: "grows (p_won P) (p_lead P) (p_won ?P) (p_lead ?P)" using none by (auto simp: grows_def)
  then have s: "stores P ?P i (i, T) (length (p_log P i))" using T by (simp add: stores_def)
  have others: "p_won P (l, T) = None" for l
  proof (rule ccontr)
    assume "p_won P (l, T) \<noteq> None"
    then obtain R where R: "maj R" "\<forall>j \<in> R. (j, T, l) \<in> p_votes P" using I(2) unfolding won_inv_def by blast
    from quorums.meet [OF q Q(1) R(1)] Q(2) R(2) obtain j where "(j, T, i) \<in> p_votes P" "(j, T, l) \<in> p_votes P" by blast
    then have "l = i" using I(1) unfolding votes_inv_def by blast
    with none \<open>p_won P (l, T) \<noteq> None\<close> show False by simp
  qed
  have "bound_by P T (p_log P i) j" if "j \<in> Q" for j
    using I(1,6) Q(2) [OF that] others so unfolding bound_by_def votes_inv_def ballots_inv_def by blast
  moreover have st: "stored_by P i y n" if "stored_by ?P i y n" for y n
    using that by (cases rule: stored_cases [OF s I(5)]) (auto simp: stored_by_def)
  ultimately show ?thesis
  proof (intro inv_stores [OF q inv s], goal_cases)
    case 1 then show ?case using I(2,3) so T Q unfolding won_inv_def held_inv_def by auto
  next
    case 2 then show ?case using I(3) held_grows [OF g] unfolding held_inv_def by auto
  next
    case 3 then show ?case using I(4) none unfolding sent_inv_def by fastforce
  next
    case (9 y n)
    note old = st [OF 9(3)]
    have "prefix (take n (p_lead P y)) (p_log P i) \<or> overridden (p_won P) (p_lead P) y n (Suc (p_term P i))"
      using I(5) old unfolding acks_inv_def by blast
    with overridden_stores [OF s I(5) old] stored_grows(2) [OF s I(5) old] show ?case by auto
  next
    case 10
    then show ?case using committed_prefix_stores [OF q s I(5)] I(8) unfolding commit_inv_def by simp
  next
    case (11 l U ws)
    then have "l = i" "U = T" "ws = p_log P i" by (auto split: if_splits)
    with 11(1) Q(1) show ?case by blast
  qed simp_all
qed

lemma inv_propose:
  assumes q: "quorums maj" and inv: "protocol_inv maj et P" and T: "p_term P i = T" and won: "p_won P (i, T) = Some ws"
    and e: "et e = T" and xs: "xs = p_log P i @ [e]"
  shows "protocol_inv maj et (P\<lparr>p_log := (p_log P)(i := xs), p_lead := (p_lead P)((i, T) := xs),
      p_acks := insert (i, (i, T), length xs) (p_acks P)\<rparr>)" (is "protocol_inv maj et ?P")
proof -
  note I = protocol_invD [OF inv]
  have ld: "p_lead P (i, T) = p_log P i" and ws: "prefix ws (p_log P i)"
    using I(2) won T unfolding won_inv_def by fastforce+
  have g: "grows (p_won P) (p_lead P) (p_won ?P) (p_lead ?P)" using ld xs by (auto simp: grows_def)
  then have s: "stores P ?P i (i, T) (length xs)" using T by (simp add: stores_def)
  have "held et (p_won ?P) (p_lead ?P) (p_log P i)" using held_grows [OF g] I(3) unfolding held_inv_def by blast
  then have hx: "held et (p_won ?P) (p_lead ?P) xs"
    unfolding xs by (rule held_snoc [of _ _ _ _ i _ ws]) (use won e xs prefix_length_le [OF ws] in simp_all)
  show ?thesis
  proof (rule inv_stores [OF q inv s], goal_cases)
    case 1
    have "drop (length ws) xs = drop (length ws) (p_lead P (i, T)) @ [e]"
      using prefix_length_le [OF ws] by (simp add: xs ld)
    moreover have "prefix ws xs" using ws by (simp add: xs)
    moreover have "\<forall>e \<in> set (drop (length ws) (p_lead P (i, T))). et e = T" using I(2) won unfolding won_inv_def by blast
    ultimately have new: "prefix ws xs" "\<forall>e \<in> set (drop (length ws) xs). et e = T" using e by auto
    show ?case
      unfolding won_inv_def
    proof (intro allI impI)
      fix l U vs assume "p_won ?P (l, U) = Some vs"
      then have w: "p_won P (l, U) = Some vs" by simp
      note f = I(2) [unfolded won_inv_def, rule_format, OF w]
      from f w new won T show "U \<le> p_term ?P l \<and> prefix vs (p_lead ?P (l, U)) \<and> (\<forall>e \<in> set vs. et e < U) \<and>
          (\<forall>e \<in> set (drop (length vs) (p_lead ?P (l, U))). et e = U) \<and>
          (p_term ?P l = U \<longrightarrow> p_log ?P l = p_lead ?P (l, U)) \<and> (\<exists>Q. maj Q \<and> (\<forall>j \<in> Q. (j, U, l) \<in> p_votes ?P))"
        by (cases "l = i"; cases "U = T") simp_all
    qed
  next
    case 2
    have "\<forall>e \<in> set (p_log P i). et e \<le> T" using I(3) T unfolding held_inv_def by blast
    then show ?case using I(3) held_grows [OF g] hx xs e T unfolding held_inv_def by auto
  next
    case 3
    have "prefix zs xs" if "((i, T), zs, c) \<in> p_sent P" for zs c
      using I(4) that ld unfolding sent_inv_def xs by (metis prefix_snoc)
    then show ?case using I(4) unfolding sent_inv_def by auto
  next
    case (9 y n)
    show ?case
    proof (cases rule: stored_cases [OF s I(5) 9, case_names old new])
      case old
      then have "prefix (take n (p_lead P y)) (p_log P i) \<or> overridden (p_won P) (p_lead P) y n (Suc (p_term P i))"
        using I(5) unfolding acks_inv_def by blast
      then have "prefix (take n (p_lead P y)) (p_log ?P i) \<or> overridden (p_won P) (p_lead P) y n (Suc (p_term P i))"
        by (auto simp: xs)
      with overridden_stores [OF s I(5) old] show ?thesis unfolding stored_grows(2) [OF s I(5) old] by blast
    qed (simp add: take_is_prefix)
  next
    case 10
    have "committed_prefix maj ?P (p_term P i) (p_log P i) (p_commit P i)"
      using committed_prefix_stores [OF q s I(5)] I(8) unfolding commit_inv_def by blast
    then show ?case using committed_prefix_longer [of maj ?P "p_term P i" "p_log P i" "p_commit P i" xs] xs by simp
  qed (use won in \<open>simp_all split: if_splits\<close>)
qed

text \<open>Taking over the log of the winner of the current term loses nothing that is committed or stored.\<close>

lemma prefix_take_over: "prefix xs (take_over ys xs)"
  by (simp add: take_over_def)

lemma take_over_stored:
  assumes q: "quorums maj" and inv: "protocol_inv maj et P" and T: "p_term P j = T"
    and won: "p_won P (i, T) = Some ws" "prefix ws xs" "prefix xs (p_lead P (i, T))"
    and st: "stored_by P j y n" and pre: "prefix (take n (p_lead P y)) (p_log P j)"
  shows "prefix (take n (p_lead P y)) (take_over (p_log P j) xs) \<or> overridden (p_won P) (p_lead P) y n (Suc T)"
proof -
  note I = protocol_invD [OF inv]
  obtain l U where y: "y = (l, U)" by fastforce
  note f = quorums.stored_facts [OF q I(5,2) st [unfolded y]]
  show ?thesis
  proof (cases "U = T")
    case True
    from st y obtain vs where "p_won P (l, U) = Some vs" unfolding stored_by_def by blast
    with True quorums.winner_unique [OF q I(1,2) won(1)] have l: "y = (i, T)" using y by blast
    have "prefix (take n (p_lead P y)) xs \<or> prefix xs (take n (p_lead P y))"
      using won(3) l prefix_same_cases take_is_prefix by blast
    with pre show ?thesis unfolding take_over_def using prefix_order.trans by (smt (verit))
  next
    case False
    with f(4) T have "snd y < T" using y by simp
    with won show ?thesis using prefix_take_over prefix_order.trans overriddenI [of y T "Suc T" "p_won P" i ws n "p_lead P"]
      by blast
  qed
qed

lemma take_over_committed:
  assumes q: "quorums maj" and inv: "protocol_inv maj et P" and T: "p_term P j = T"
    and won: "p_won P (i, T) = Some ws" "prefix ws xs" "prefix xs (p_lead P (i, T))"
  shows "committed_prefix maj P T (take_over (p_log P j) xs) (p_commit P j)"
proof (cases "prefix xs (p_log P j) \<or> p_commit P j = 0")
  case True
  with T protocol_invD(8) [OF inv] show ?thesis
    unfolding take_over_def commit_inv_def committed_prefix_def by auto
next
  case False
  note I = protocol_invD [OF inv]
  from False I(8) T obtain x k where x: "committed maj P x k" "snd x \<le> T" "p_commit P j \<le> k"
    "p_commit P j \<le> length (p_log P j)" "take (p_commit P j) (p_log P j) = take (p_commit P j) (p_lead P x)"
    unfolding commit_inv_def committed_prefix_def by metis
  obtain l U where y: "x = (l, U)" by fastforce
  note f = quorums.committed_facts [OF q I(5,2) x(1) [unfolded y]]
  have "p_commit P j \<le> length xs \<and> take (p_commit P j) xs = take (p_commit P j) (p_lead P x)"
  proof (cases "U = T")
    case True
    with f(3) quorums.winner_unique [OF q I(1,2) won(1)] have l: "x = (i, T)" using y by blast
    have "prefix (take (p_commit P j) (p_lead P x)) (p_log P j)" using x(5) by (metis take_is_prefix)
    then have no: "\<not> prefix xs (take (p_commit P j) (p_lead P x))" using False prefix_order.trans by blast
    have "p_commit P j \<le> length xs"
    proof (rule ccontr)
      assume "\<not> p_commit P j \<le> length xs"
      moreover have "length (take (p_commit P j) (p_lead P x)) = p_commit P j" using x(3) f(1) y by simp
      ultimately show False using no prefix_length_prefix [OF won(3) take_is_prefix] l by simp
    qed
    with won(3) l show ?thesis by (simp add: take_prefix)
  next
    case False
    with x(2) y have "snd x < T" by simp
    from quorums.leader_complete [OF q I(7) x(1) won(1) this] won(2)
    have "prefix (take k (p_lead P x)) xs" using prefix_order.trans by blast
    then have k: "k \<le> length xs" "take k xs = take k (p_lead P x)" using f(1) by (simp_all add: prefix_take_iff y)
    from arg_cong [OF k(2), of "take (p_commit P j)"] k(1) x(3) show ?thesis by (simp add: min_absorb1)
  qed
  moreover have "take_over (p_log P j) xs = xs" using False by (simp add: take_over_def)
  ultimately show ?thesis using x(1-3) unfolding committed_prefix_def by metis
qed

lemma inv_accept:
  assumes q: "quorums maj" and inv: "protocol_inv maj et P" and T: "p_term P j = T" and m: "((i, T), xs, c) \<in> p_sent P"
  shows "protocol_inv maj et (P\<lparr>p_log := (p_log P)(j := take_over (p_log P j) xs),
      p_commit := (p_commit P)(j := max (p_commit P j) c), p_acks := insert (j, (i, T), length xs) (p_acks P)\<rparr>)"
    (is "protocol_inv maj et ?P")
proof -
  note I = protocol_invD [OF inv]
  from I(4) m obtain ws where won: "p_won P (i, T) = Some ws" "prefix ws xs" "prefix xs (p_lead P (i, T))"
    unfolding sent_inv_def by blast
  have s: "stores P ?P j (i, T) (length xs)" using T by (simp add: stores_def)
  have hx: "held et (p_won P) (p_lead P) xs" "\<forall>e \<in> set xs. et e \<le> T"
    using held_prefix [OF _ won(3)] I(3) won(1) quorums.lead_terms [OF q I(2) won(1)] set_mono_prefix [OF won(3)]
    unfolding held_inv_def by blast+
  have own: "take_over (p_log P j) xs = p_log P j" if "p_won P (j, T) = Some vs" for vs
  proof -
    have "j = i" using quorums.winner_unique [OF q I(1,2) won(1) that] .
    moreover have "p_log P j = p_lead P (j, T)" using I(2) that T unfolding won_inv_def by blast
    ultimately show ?thesis using won(3) by (simp add: take_over_def)
  qed
  show ?thesis
  proof (rule inv_stores [OF q inv s], goal_cases)
    case 1
    then show ?case using I(2) own T unfolding won_inv_def by fastforce
  next
    case 2
    have "\<forall>e \<in> set (p_log P j). et e \<le> T" using I(3) T unfolding held_inv_def by blast
    then show ?case using I(3) hx T unfolding held_inv_def take_over_def by simp
  next
    case 3
    then show ?case using I(4) by (simp add: sent_inv_def)
  next
    case 5
    then show ?case using prefix_length_le [OF won(3)] by simp
  next
    case (9 y n)
    show ?case
    proof (cases rule: stored_cases [OF s I(5) 9, case_names old new])
      case old
      have "prefix (take n (p_lead P y)) (p_log P j) \<or> overridden (p_won P) (p_lead P) y n (Suc T)"
        using I(5) old T unfolding acks_inv_def by blast
      with take_over_stored [OF q inv T won old] T show ?thesis by auto
    next
      case new
      then have "take n (p_lead P y) = take n xs" using take_prefix [OF won(3)] by simp
      then have "prefix (take n (p_lead P y)) xs" using take_is_prefix by simp
      then show ?thesis using prefix_order.trans prefix_take_over by fastforce
    qed
  next
    case 10
    have "committed_prefix maj P T xs c" using I(8) m unfolding commit_inv_def by fastforce
    from committed_prefix_longer [OF this prefix_take_over] take_over_committed [OF q inv T won]
    have "committed_prefix maj P T (take_over (p_log P j) xs) (max (p_commit P j) c)" by (simp add: max_def)
    from committed_prefix_stores [OF q s I(5) this] T show ?case by simp
  qed (use won(1) in simp_all)
qed

subsection \<open>The other steps\<close>

lemma inv_send:
  assumes inv: "protocol_inv maj et P" and T: "p_term P i = T" and won: "p_won P (i, T) = Some ws"
  shows "protocol_inv maj et (P\<lparr>p_sent := insert ((i, T), p_log P i, p_commit P i) (p_sent P)\<rparr>)"
    (is "protocol_inv maj et ?P")
proof -
  note I = protocol_invD [OF inv]
  have st: "stored_by ?P j x k = stored_by P j x k" for j x k by (rule stored_by_fields) simp_all
  have cp: "committed_prefix maj ?P U xs c = committed_prefix maj P U xs c" for U xs c
    by (rule committed_prefix_fields) simp_all
  have co: "committed maj ?P x k = committed maj P x k" for x k by (rule committed_fields) simp_all
  have own: "p_log P i = p_lead P (i, T)" "prefix ws (p_lead P (i, T))"
    using I(2) won T unfolding won_inv_def by blast+
  have c: "committed_prefix maj P T (p_log P i) (p_commit P i)" using I(8) T unfolding commit_inv_def by blast
  then have "p_commit P i \<le> length (p_log P i)" by (simp add: committed_prefix_def)
  with I(4) won own have "sent_inv ?P" unfolding sent_inv_def by auto
  moreover have "commit_inv maj ?P" using I(8) c unfolding commit_inv_def cp co by auto
  moreover have "votes_inv ?P" using I(1) by (simp add: votes_inv_def)
  moreover have "won_inv maj et ?P" using I(2) by (simp add: won_inv_def)
  moreover have "held_inv et ?P" using I(3) by (simp add: held_inv_def)
  moreover have "acks_inv ?P" using I(5) unfolding acks_inv_def st by simp
  moreover have "ballots_inv ?P" using I(6) unfolding ballots_inv_def st by simp
  moreover have "winners_inv maj ?P" using I(7) unfolding winners_inv_def st by simp
  ultimately show ?thesis by (simp add: protocol_inv_def)
qed

text \<open>Steps that change only commit indices and what was applied.\<close>

lemma inv_commits:
  assumes inv: "protocol_inv maj et P"
    and c: "\<And>j. committed_prefix maj P (p_term P j) (p_log P j) (f j)"
    and a: "\<And>j n e. (j, n, e) \<in> A \<Longrightarrow> \<exists>x k. committed maj P x k \<and> n < k \<and> e = p_lead P x ! n"
  shows "protocol_inv maj et (P\<lparr>p_commit := f, p_applied := A\<rparr>)" (is "protocol_inv maj et ?P")
proof -
  note I = protocol_invD [OF inv]
  have st: "stored_by ?P j x k = stored_by P j x k" for j x k by (rule stored_by_fields) simp_all
  have cp: "committed_prefix maj ?P U xs c = committed_prefix maj P U xs c" for U xs c
    by (rule committed_prefix_fields) simp_all
  have co: "committed maj ?P x k = committed maj P x k" for x k by (rule committed_fields) simp_all
  have "commit_inv maj ?P" using I(8) c a unfolding commit_inv_def cp co by simp
  moreover have "votes_inv ?P" using I(1) by (simp add: votes_inv_def)
  moreover have "won_inv maj et ?P" using I(2) by (simp add: won_inv_def)
  moreover have "held_inv et ?P" using I(3) by (simp add: held_inv_def)
  moreover have "sent_inv ?P" using I(4) by (simp add: sent_inv_def)
  moreover have "acks_inv ?P" using I(5) unfolding acks_inv_def st by simp
  moreover have "ballots_inv ?P" using I(6) unfolding ballots_inv_def st by simp
  moreover have "winners_inv maj ?P" using I(7) unfolding winners_inv_def st by simp
  ultimately show ?thesis by (simp add: protocol_inv_def)
qed

lemma commit_is_committed:
  assumes inv: "protocol_inv maj et P" and T: "p_term P i = T" and won: "p_won P (i, T) = Some ws"
    and k: "0 < k" "k \<le> length (p_log P i)" "et (p_log P i ! (k - 1)) = T"
    and Q: "maj Q" "\<And>j. j \<in> Q \<Longrightarrow> \<exists>k' \<ge> k. (j, (i, T), k') \<in> p_acks P"
  shows "committed_prefix maj P T (p_log P i) k"
proof -
  have own: "p_log P i = p_lead P (i, T)" "prefix ws (p_lead P (i, T))" "\<forall>e \<in> set ws. et e < T"
    using protocol_invD(2) [OF inv] won T unfolding won_inv_def by blast+
  have "length ws < k"
  proof (rule ccontr)
    assume "\<not> length ws < k"
    then have "k - 1 < length ws" using k(1) by simp
    moreover from this own(1,2) have "p_log P i ! (k - 1) = ws ! (k - 1)" by (auto simp: prefix_def nth_append)
    ultimately show False using own(3) k(3) by (metis nth_mem order_less_irrefl)
  qed
  with Q won have "committed maj P (i, T) k" unfolding committed_def stored_by_def by blast
  with k(2) own(1) show ?thesis unfolding committed_prefix_def by (metis order_refl snd_conv)
qed

lemma inv_commit_one:
  assumes inv: "protocol_inv maj et P" and c: "committed_prefix maj P (p_term P i) (p_log P i) k"
  shows "protocol_inv maj et (P\<lparr>p_commit := (p_commit P)(i := k)\<rparr>)"
proof -
  have "committed_prefix maj P (p_term P j) (p_log P j) (((p_commit P)(i := k)) j)" for j
    using c protocol_invD(8) [OF inv] unfolding commit_inv_def by simp
  then have "protocol_inv maj et (P\<lparr>p_commit := (p_commit P)(i := k), p_applied := p_applied P\<rparr>)"
    by (rule inv_commits [OF inv]) (use protocol_invD(8) [OF inv] in \<open>unfold commit_inv_def, blast\<close>)
  then show ?thesis by simp
qed

lemma inv_deliver:
  assumes inv: "protocol_inv maj et P" and k: "k < p_commit P i"
  shows "protocol_inv maj et (P\<lparr>p_applied := insert (i, k, p_log P i ! k) (p_applied P)\<rparr>)"
proof -
  have I: "\<And>j. committed_prefix maj P (p_term P j) (p_log P j) (p_commit P j)"
    "\<And>j n e. (j, n, e) \<in> p_applied P \<Longrightarrow> \<exists>x k. committed maj P x k \<and> n < k \<and> e = p_lead P x ! n"
    using protocol_invD(8) [OF inv] unfolding commit_inv_def by blast+
  have "p_commit P i \<noteq> 0" using k by simp
  with I(1) [of i] obtain x n where x: "committed maj P x n" "p_commit P i \<le> n"
    "take (p_commit P i) (p_log P i) = take (p_commit P i) (p_lead P x)" unfolding committed_prefix_def by blast
  have "p_log P i ! k = p_lead P x ! k" using arg_cong [OF x(3), of "\<lambda>xs. xs ! k"] k by simp
  moreover have "k < n" using k x(2) by simp
  ultimately have "\<exists>x n. committed maj P x n \<and> k < n \<and> p_log P i ! k = p_lead P x ! k" using x(1) by blast
  then have "\<exists>x k. committed maj P x k \<and> m < k \<and> e = p_lead P x ! m"
    if "(j, m, e) \<in> insert (i, k, p_log P i ! k) (p_applied P)" for j m e
    using that I(2) by (cases "(j, m, e) \<in> p_applied P") (blast, simp)
  then have "protocol_inv maj et (P\<lparr>p_commit := p_commit P, p_applied := insert (i, k, p_log P i ! k) (p_applied P)\<rparr>)"
    by (rule inv_commits [OF inv I(1)])
  then show ?thesis by simp
qed

section \<open>The invariant holds\<close>

lemma protocol_inv_step:
  assumes q: "quorums maj" and "protocol_step maj et P P'" and inv: "protocol_inv maj et P"
  shows "protocol_inv maj et P'"
  using assms(2)
proof (cases rule: protocol_step.cases)
  case (advance i T)
  show ?thesis unfolding advance(1) by (rule inv_raise [OF inv advance(2)])
next
  case (stand i T)
  let ?R = "P\<lparr>p_term := (p_term P)(i := T)\<rparr>"
  have R: "protocol_inv maj et ?R" by (rule inv_raise [OF inv less_imp_le [OF stand(2)]])
  have "p_stood P (i, T) = None"
    using protocol_invD(1) [OF inv] stand(2) unfolding votes_inv_def by (metis leD option.exhaust)
  moreover have "(i, T, c) \<notin> p_votes P" for c
    using protocol_invD(1) [OF inv] stand(2) unfolding votes_inv_def by (metis leD)
  moreover have "et e < T" if "e \<in> set (p_log P i)" for e
    using protocol_invD(3) [OF inv] stand(2) that unfolding held_inv_def by (meson order_le_less_trans)
  ultimately have new: "p_stood P (i, T) = None" "\<And>c. (i, T, c) \<notin> p_votes P"
    "\<And>e. e \<in> set (p_log P i) \<Longrightarrow> et e < T" by blast+
  from inv_stood [OF R, of i T] new
  have "protocol_inv maj et (?R\<lparr>p_stood := (p_stood P)((i, T) := Some (p_log P i))\<rparr>)" by simp
  from inv_vote [OF q this, of i T i "p_log P i"] new show ?thesis unfolding stand(1) by (simp add: newer_def)
next
  case (vote j T c xs)
  from inv_vote [OF q inv_raise [OF inv vote(2)], of j T c xs] vote(3-5) show ?thesis unfolding vote(1) by simp
next
  case (win i T Q)
  show ?thesis unfolding win(1) by (rule inv_win [OF q inv win(2-6)])
next
  case (propose i T ws e xs)
  show ?thesis unfolding propose(1) by (rule inv_propose [OF q inv propose(2-5)])
next
  case (send i T ws)
  show ?thesis unfolding send(1) by (rule inv_send [OF inv send(2,3)])
next
  case (accept i T xs c j)
  from inv_accept [OF q inv_raise [OF inv accept(3)], of j T i xs c] accept(2) show ?thesis unfolding accept(1) by simp
next
  case (commit i T ws k Q)
  have "committed_prefix maj P (p_term P i) (p_log P i) k"
    using commit_is_committed [OF inv commit(2-8)] commit(2) by simp
  then show ?thesis unfolding commit(1) by (rule inv_commit_one [OF inv])
next
  case (deliver k i)
  show ?thesis unfolding deliver(1) by (rule inv_deliver [OF inv deliver(2)])
next
  case (reboot i)
  have "committed_prefix maj P (p_term P i) (p_log P i) 0" by (simp add: committed_prefix_def)
  then show ?thesis unfolding reboot by (rule inv_commit_one [OF inv])
qed

lemma protocol_inv_init: "protocol_inv maj et protocol_init"
  by (simp add: protocol_inv_def protocol_init_def votes_inv_def won_inv_def held_inv_def sent_inv_def acks_inv_def
      ballots_inv_def winners_inv_def commit_inv_def committed_prefix_def stored_by_def)

lemma protocol_inv_reach:
  assumes q: "quorums maj" and "protocol_reach maj et P"
  shows "protocol_inv maj et P"
  using assms(2)
proof induction
  case protocol_start
  show ?case by (rule protocol_inv_init)
next
  case (protocol_next P P')
  show ?case by (rule protocol_inv_step [OF q protocol_next(2,3)])
qed

section \<open>What the protocol promises\<close>

context quorums
begin

lemma logs_match:
  assumes "protocol_inv maj et P" and "k < length (p_log P i)" and "k < length (p_log P j)"
    and "et (p_log P i ! k) = et (p_log P j ! k)"
  shows "take (Suc k) (p_log P i) = take (Suc k) (p_log P j)"
  using held_same [OF protocol_invD(1,2) [OF assms(1)] _ _ assms(2-4)] protocol_invD(3) [OF assms(1)]
  unfolding held_inv_def by blast

text \<open>Two committed prefixes of any two logs agree.\<close>

lemma committed_prefixes:
  assumes inv: "protocol_inv maj et P" and a: "committed_prefix maj P T xs c" and b: "committed_prefix maj P U ys d"
    and m: "m \<le> c" "m \<le> d"
  shows "take m xs = take m ys"
proof (cases "m = 0")
  case False
  with m have ne: "c \<noteq> 0" "d \<noteq> 0" by auto
  from a ne(1) obtain x k where x: "committed maj P x k" "c \<le> k" "take c xs = take c (p_lead P x)"
    unfolding committed_prefix_def by blast
  from b ne(2) obtain y n where y: "committed maj P y n" "d \<le> n" "take d ys = take d (p_lead P y)"
    unfolding committed_prefix_def by blast
  have mk: "m \<le> k" "m \<le> n" using m x(2) y(2) by auto
  have "take m (p_lead P x) = take m (p_lead P y)"
  proof (cases "snd x \<le> snd y")
    case True
    then show ?thesis by (rule committed_agree [OF inv x(1) y(1) _ mk])
  next
    case False
    then have "snd y \<le> snd x" by simp
    from committed_agree [OF inv y(1) x(1) this mk(2,1)] show ?thesis by simp
  qed
  with arg_cong [OF x(3), of "take m"] arg_cong [OF y(3), of "take m"] m show ?thesis by (simp add: min_absorb1)
qed simp

lemma commits_agree:
  assumes "protocol_inv maj et P" and "m \<le> p_commit P i" and "m \<le> p_commit P j"
  shows "take m (p_log P i) = take m (p_log P j)"
  by (rule committed_prefixes [OF assms(1) _ _ assms(2,3)])
    (use protocol_invD(8) [OF assms(1)] in \<open>unfold commit_inv_def, blast+\<close>)

lemma applied_agree:
  assumes inv: "protocol_inv maj et P" and "(i, n, e) \<in> p_applied P" and "(j, n, e') \<in> p_applied P"
  shows "e' = e"
proof -
  obtain x k where x: "committed maj P x k" "n < k" "e = p_lead P x ! n"
    using protocol_invD(8) [OF inv] assms(2) unfolding commit_inv_def by blast
  obtain y m where y: "committed maj P y m" "n < m" "e' = p_lead P y ! n"
    using protocol_invD(8) [OF inv] assms(3) unfolding commit_inv_def by blast
  have "take (Suc n) (p_lead P x) = take (Suc n) (p_lead P y)"
  proof (cases "snd x \<le> snd y")
    case True
    then show ?thesis by (rule committed_agree [OF inv x(1) y(1)]) (use x(2) y(2) in simp_all)
  next
    case False
    then have "snd y \<le> snd x" by simp
    from committed_agree [OF inv y(1) x(1) this, of "Suc n"] x(2) y(2) show ?thesis by simp
  qed
  from arg_cong [OF this, of "\<lambda>xs. xs ! n"] x(3) y(3) show ?thesis by simp
qed

text \<open>A leader holds what any server up to its term has committed.\<close>

lemma leader_holds:
  assumes inv: "protocol_inv maj et P" and won: "p_won P (i, p_term P i) = Some ws" and le: "p_term P j \<le> p_term P i"
  shows "prefix (take (p_commit P j) (p_log P j)) (p_log P i)"
proof (cases "p_commit P j = 0")
  case False
  note I = protocol_invD [OF inv]
  have own: "p_log P i = p_lead P (i, p_term P i)" "prefix ws (p_log P i)"
    using I(2) won unfolding won_inv_def by force+
  from I(8) False obtain x k where x: "committed maj P x k" "snd x \<le> p_term P j" "p_commit P j \<le> k"
    "take (p_commit P j) (p_log P j) = take (p_commit P j) (p_lead P x)"
    unfolding commit_inv_def committed_prefix_def by metis
  obtain l U where y: "x = (l, U)" by fastforce
  have pre: "prefix (take (p_commit P j) (p_lead P x)) (take k (p_lead P x))"
    using x(3) by (metis min.absorb1 take_is_prefix take_take)
  show ?thesis
  proof (cases "U = p_term P i")
    case True
    with committed_facts(3) [OF I(5,2) x(1) [unfolded y]] winner_unique [OF I(1,2) won] have "x = (i, p_term P i)"
      using y by blast
    with own(1) x(4) show ?thesis using take_is_prefix by simp
  next
    case False
    with x(2) le y have "snd x < p_term P i" by simp
    from leader_complete [OF I(7) x(1) won this] own(2) pre x(4) show ?thesis
      using prefix_order.trans by metis
  qed
qed simp

end

end
