(* ===== verification/Replication.thy ===== *)
theory Replication
  imports RaftElection RaftServer RaftSpec
begin

text \<open>
  Log replication in a cluster: the elections of the theory \<open>RaftElection\<close> together with
  the AppendEntries traffic of \<open>src/include/raft/RaftImpl.hpp\<close>, message by message, over the
  same network and with the same crashes. The application takes no snapshots, as the key-value
  server, which never calls \<open>Raft::snapshot\<close>. Every step of this system is a step of the
  protocol of the theory \<open>RaftSpec\<close>, so its guarantees hold of the code: logs match, leaders
  hold what is committed, and state machines are fed the same commands.
\<close>

section \<open>The cluster with its AppendEntries messages\<close>

text \<open>
  \<open>ae_calls (i, j)\<close> is the call the thread \<open>appendEntries(j)\<close> of server \<open>i\<close> is waiting for,
  with the index it starts from, and \<open>sending (i, j)\<close> the thread's variable \<open>sendSnapshot\<close>.
  \<open>appends\<close> and \<open>ae_replies\<close> are the messages ever sent, \<open>applied\<close> records the commands
  servers have handed to their state machines; no step reads it.
\<close>

record repl =
  core :: cluster
  ae_calls :: "string \<times> string \<Rightarrow> (u64 \<times> AppendEntriesArg) option"
  sending :: "string \<times> string \<Rightarrow> bool"
  appends :: "(string \<times> AppendEntriesArg) set"
  ae_replies :: "(string \<times> AppendEntriesArg \<times> AppendEntriesReply) set"
  applied :: "(string \<times> u64 \<times> command) set"

abbreviation node :: "repl \<Rightarrow> string \<Rightarrow> raft" where
  "node R i \<equiv> nodes (core R) i"

definition set_node :: "string \<Rightarrow> raft \<Rightarrow> repl \<Rightarrow> repl" where
  "set_node i s R = R\<lparr>core := (core R)\<lparr>nodes := (nodes (core R))(i := s)\<rparr>\<rparr>"

text \<open>What arrives of the arguments: the entries have lost the header fields the wire drops.\<close>

definition wire_arg :: "AppendEntriesArg \<Rightarrow> AppendEntriesArg" where
  "wire_arg a = a\<lparr>ae_entries := log_of (map wire_entry (log_data (ae_entries a)))\<rparr>"

inductive repl_step :: "stable_load \<Rightarrow> (PersistentState \<Rightarrow> bool) \<Rightarrow> string list \<Rightarrow> RetryPolicy
    \<Rightarrow> repl \<Rightarrow> repl \<Rightarrow> bool" for load storable ids pol where
  voting: "vote_step ids (core R) C \<Longrightarrow> repl_step load storable ids pol R (R\<lparr>core := C\<rparr>)"
| reboot: "i \<in> set ids \<Longrightarrow> (case saved (node R i) of None \<Rightarrow> True | Some ps \<Rightarrow> storable ps) \<Longrightarrow>
     RaftImpl_new load ids i pol now (saved (node R i)) = Inr s \<Longrightarrow>
     repl_step load storable ids pol R
       (R\<lparr>core := (core R)\<lparr>nodes := (nodes (core R))(i := s),
            calls := (\<lambda>(a, b). if a = i then None else calls (core R) (a, b))\<rparr>,
          ae_calls := (\<lambda>(a, b). if a = i then None else ae_calls R (a, b)),
          sending := (\<lambda>(a, b). if a = i then False else sending R (a, b))\<rparr>)"
| idle_turn: "i \<in> set ids \<Longrightarrow> j \<in> set (peers (node R i)) \<Longrightarrow> ae_calls R (i, j) = None \<Longrightarrow>
     appendEntries_begin load j (sending R (i, j)) (node R i) = Inr (AeContinue, b, s) \<Longrightarrow>
     repl_step load storable ids pol R (set_node i s (R\<lparr>sending := (sending R)((i, j) := b)\<rparr>))"
| send: "i \<in> set ids \<Longrightarrow> j \<in> set (peers (node R i)) \<Longrightarrow> ae_calls R (i, j) = None \<Longrightarrow>
     appendEntries_begin load j (sending R (i, j)) (node R i) = Inr (AeAppend n arg, b, s) \<Longrightarrow>
     repl_step load storable ids pol R (set_node i s (R\<lparr>sending := (sending R)((i, j) := b),
       ae_calls := (ae_calls R)((i, j) := Some (n, arg)), appends := insert (j, arg) (appends R)\<rparr>))"
| receive: "j \<in> set ids \<Longrightarrow> (j, arg) \<in> appends R \<Longrightarrow>
     appendEntriesHandler junk t1 t2 (wire_arg arg) (node R j) = (r, ap, s) \<Longrightarrow>
     repl_step load storable ids pol R (set_node j s (R\<lparr>ae_replies := insert (j, arg, r) (ae_replies R)\<rparr>))"
| answered: "i \<in> set ids \<Longrightarrow> ae_calls R (i, j) = Some (n, arg) \<Longrightarrow>
     (case reply of None \<Rightarrow> True | Some r \<Rightarrow> (j, arg, r) \<in> ae_replies R) \<Longrightarrow>
     appendEntries_reply now j n arg reply (node R i) = Inr (nx, s) \<Longrightarrow>
     repl_step load storable ids pol R (set_node i s (R\<lparr>ae_calls := (ae_calls R)((i, j) := None)\<rparr>))"
| finished: "i \<in> set ids \<Longrightarrow> repl_step load storable ids pol R (set_node i (appendEntries_finish j (node R i)) R)"
| tick: "i \<in> set ids \<Longrightarrow> repl_step load storable ids pol R (set_node i (heartbeat (node R i)) R)"
| submit: "i \<in> set ids \<Longrightarrow> log_lastIndex (mainLog (node R i)) < - 2 \<Longrightarrow> start c (node R i) = (ok, c', s) \<Longrightarrow>
     repl_step load storable ids pol R (set_node i s R)"
| feed: "i \<in> set ids \<Longrightarrow> apply_next (node R i) = Some (k, c) \<Longrightarrow>
     repl_step load storable ids pol R (R\<lparr>applied := insert (i, k, c) (applied R)\<rparr>)"
| fed: "i \<in> set ids \<Longrightarrow> repl_step load storable ids pol R (set_node i (apply_done k (node R i)) R)"
| stop: "i \<in> set ids \<Longrightarrow> repl_step load storable ids pol R (set_node i (kill (node R i)) R)"

definition repl_init :: "stable_load \<Rightarrow> string list \<Rightarrow> RetryPolicy \<Rightarrow> (string \<Rightarrow> int) \<Rightarrow> repl \<Rightarrow> bool" where
  "repl_init load ids pol now R \<longleftrightarrow> cluster_init load ids pol now (core R) \<and> ae_calls R = (\<lambda>_. None) \<and>
     sending R = (\<lambda>_. False) \<and> appends R = {} \<and> ae_replies R = {} \<and> applied R = {}"

inductive repl_reach :: "stable_load \<Rightarrow> (PersistentState \<Rightarrow> bool) \<Rightarrow> string list \<Rightarrow> RetryPolicy \<Rightarrow> repl \<Rightarrow> bool"
  for load storable ids pol where
  repl_start: "repl_init load ids pol now R \<Longrightarrow> repl_reach load storable ids pol R"
| repl_next: "repl_reach load storable ids pol R \<Longrightarrow> repl_step load storable ids pol R R' \<Longrightarrow>
     repl_reach load storable ids pol R'"

section \<open>Its elections are those of the cluster\<close>

lemma core_set_node [simp]: "core (set_node i s R) = (core R)\<lparr>nodes := (nodes (core R))(i := s)\<rparr>"
  by (simp add: set_node_def)

lemma repl_step_core:
  assumes "repl_step load storable ids pol R R'"
  shows "core R' = core R \<or> cluster_step load storable ids pol (core R) (core R')"
  using assms
proof (cases rule: repl_step.cases)
  case (voting C)
  then show ?thesis using cluster_step.voting by simp
next
  case (reboot i now s)
  then show ?thesis using cluster_step.restart [OF reboot(2-4)] by simp
next
  case (idle_turn i j b s)
  from local_op [OF idle_turn(2) append_begin [OF idle_turn(5)]] idle_turn(1) show ?thesis by simp
next
  case (send i j n arg b s)
  from local_op [OF send(2) append_begin [OF send(5)]] send(1) show ?thesis by simp
next
  case (receive j arg junk t1 t2 r ap s)
  have "local_step load (node R j) s" using append_handler [of load "node R j" junk t1 t2 "wire_arg arg"] receive(4) by simp
  from local_op [OF receive(2) this] receive(1) show ?thesis by simp
next
  case (answered i j n arg reply now nx s)
  from local_op [OF answered(2) append_reply [OF answered(5)]] answered(1) show ?thesis by simp
next
  case (finished i j)
  from local_op [OF finished(2) append_finish] finished(1) show ?thesis by simp
next
  case (tick i)
  from local_op [OF tick(2) heartbeat_tick] tick(1) show ?thesis by simp
next
  case (submit i c ok c' s)
  have "local_step load (node R i) s" using client_start [of load "node R i" c] submit(4) by simp
  from local_op [OF submit(2) this] submit(1) show ?thesis by simp
next
  case (feed i k c)
  then show ?thesis by simp
next
  case (fed i k)
  from local_op [OF fed(2) entry_applied] fed(1) show ?thesis by simp
next
  case (stop i)
  from local_op [OF stop(2) killing] stop(1) show ?thesis by simp
qed

lemma repl_reach_core: "repl_reach load storable ids pol R \<Longrightarrow> cluster_reach load storable ids pol (core R)"
proof (induction rule: repl_reach.induct)
  case (repl_start now R)
  then show ?case by (auto simp: repl_init_def intro: reach_init)
next
  case (repl_next R R')
  from repl_step_core [OF repl_next.hyps(2)] repl_next.IH show ?case using reach_step by metis
qed

section \<open>The protocol the code implements\<close>

text \<open>The log as the protocol sees it, and the term of an entry.\<close>

definition wlog :: "raft \<Rightarrow> log_entry list" where
  "wlog s = map wire_entry (log_entries (mainLog s))"

definition eterm :: "log_entry \<Rightarrow> nat" where
  "eterm e = unat (le_term e)"

text \<open>A server that has never seen a snapshot, with room for the next index.\<close>

definition plain :: "raft \<Rightarrow> bool" where
  "plain s \<longleftrightarrow> log_lastIncludedIndex (mainLog s) = 0 \<and> log_lastIncludedTerm (mainLog s) = 0 \<and>
     lastIncludedIndex s = 0 \<and> lastIncludedTerm s = 0 \<and> \<not> pendingSnapshot s \<and> snapshotData s = '''' \<and>
     contiguous 0 (log_entries (mainLog s)) \<and> length (log_entries (mainLog s)) < 2 ^ 64 - 1"

definition on_disk :: "raft \<Rightarrow> bool" where
  "on_disk s \<longleftrightarrow> (case saved s of
     None \<Rightarrow> currentTerm s = 0 \<and> log_entries (mainLog s) = []
   | Some ps \<Rightarrow> ps_currentTerm ps = currentTerm s \<and> map wire_entry (log_data (ps_log ps)) = wlog s \<and>
       ps_snapshotData ps = '''' \<and> ps_lastIncludedIndex ps = 0 \<and> ps_lastIncludedTerm ps = 0)"

definition peer_maps :: "raft \<Rightarrow> bool" where
  "peer_maps s \<longleftrightarrow> distinct (map fst (matchIndex s)) \<and> dom (map_of (matchIndex s)) \<subseteq> set (peers s) \<and>
     dom (map_of (nextIndex s)) \<subseteq> set (peers s)"

text \<open>What a leader believes of its peers is backed by what they have stored in its term.\<close>

definition leader_sim :: "(string, log_entry) protocol \<Rightarrow> string \<Rightarrow> raft \<Rightarrow> bool" where
  "leader_sim P i s \<longleftrightarrow> (\<exists>ws. p_won P (i, p_term P i) = Some ws) \<and>
     (\<exists>k \<ge> length (p_log P i). (i, (i, p_term P i), k) \<in> p_acks P) \<and>
     (\<forall>j m. map_of (matchIndex s) j = Some m \<longrightarrow> m = 0 \<or> (\<exists>k \<ge> unat m. (j, (i, p_term P i), k) \<in> p_acks P)) \<and>
     (\<forall>j n. map_of (nextIndex s) j = Some n \<longrightarrow> 0 < unat n \<and> unat n \<le> Suc (length (p_log P i)))"

definition node_sim :: "(string, log_entry) protocol \<Rightarrow> string \<Rightarrow> raft \<Rightarrow> bool" where
  "node_sim P i s \<longleftrightarrow> plain s \<and> on_disk s \<and> peer_maps s \<and> unat (currentTerm s) = p_term P i \<and> wlog s = p_log P i \<and>
     unat (commitIndex s) = p_commit P i \<and>
     (role s = Candidate \<longrightarrow> p_stood P (i, p_term P i) = Some (p_log P i) \<and> p_won P (i, p_term P i) = None \<and>
        rv_lastLogIndex (requestVoteArg s) = log_lastIndex (mainLog s) \<and>
        rv_lastLogTerm (requestVoteArg s) = log_lastTerm (mainLog s)) \<and>
     (role s = Leader \<longrightarrow> leader_sim P i s)"

definition request_sim :: "(string, log_entry) protocol \<Rightarrow> RequestVoteArg \<Rightarrow> bool" where
  "request_sim P arg \<longleftrightarrow> (\<exists>xs. p_stood P (rv_candidateId arg, unat (rv_term arg)) = Some xs \<and>
     unat (rv_lastLogIndex arg) = length xs \<and> unat (rv_lastLogTerm arg) = last_term eterm xs)"

text \<open>The arguments carry the part of the leader's log behind \<open>prevLogIndex\<close>, to its end.\<close>

definition append_sim :: "(string, log_entry) protocol \<Rightarrow> AppendEntriesArg \<Rightarrow> bool" where
  "append_sim P arg \<longleftrightarrow> (\<exists>xs.
     ((ae_leaderId arg, unat (ae_term arg)), xs, unat (ae_leaderCommit arg)) \<in> p_sent P \<and>
     length xs < 2 ^ 64 - 1 \<and> contiguous 0 xs \<and> unat (ae_prevLogIndex arg) \<le> length xs \<and>
     (ae_prevLogIndex arg \<noteq> 0 \<longrightarrow> unat (ae_prevLogTerm arg) = eterm (xs ! (unat (ae_prevLogIndex arg) - 1))) \<and>
     map wire_entry (log_data (ae_entries arg)) = drop (unat (ae_prevLogIndex arg)) xs)"

definition reply_sim :: "(string, log_entry) protocol \<Rightarrow> string \<Rightarrow> AppendEntriesArg \<Rightarrow> AppendEntriesReply \<Rightarrow> bool" where
  "reply_sim P j arg r \<longleftrightarrow> (aer_success r \<longrightarrow>
     (\<exists>k \<ge> unat (ae_prevLogIndex arg) + length (log_data (ae_entries arg)).
        (j, (ae_leaderId arg, unat (ae_term arg)), k) \<in> p_acks P))"

definition votes_sim :: "(string, log_entry) protocol \<Rightarrow> cluster \<Rightarrow> bool" where
  "votes_sim P C \<longleftrightarrow> (\<forall>j arg. (j, arg) \<in> requests C \<longrightarrow> request_sim P arg) \<and>
     p_votes P = (\<lambda>(j, T, c). (j, unat T, c)) ` ballots C \<and>
     (\<forall>i T. p_won P (i, unat T) \<noteq> None \<longleftrightarrow> (i, T) \<in> elected C)"

definition appends_sim :: "(string, log_entry) protocol \<Rightarrow> repl \<Rightarrow> bool" where
  "appends_sim P R \<longleftrightarrow> (\<forall>j arg. (j, arg) \<in> appends R \<longrightarrow> append_sim P arg) \<and>
     (\<forall>j arg r. (j, arg, r) \<in> ae_replies R \<longrightarrow> reply_sim P j arg r) \<and>
     (\<forall>i j n arg. ae_calls R (i, j) = Some (n, arg) \<longrightarrow> ae_leaderId arg = i \<and> append_sim P arg \<and>
        unat n = Suc (unat (ae_prevLogIndex arg)) \<and> j \<in> set (peers (node R i))) \<and>
     (\<forall>x. \<not> sending R x)"

definition applied_sim :: "(string, log_entry) protocol \<Rightarrow> repl \<Rightarrow> bool" where
  "applied_sim P R \<longleftrightarrow> (\<forall>i k c. (i, k, c) \<in> applied R \<longrightarrow> 0 < unat k \<and>
     (\<exists>e. (i, unat k - 1, wire_entry e) \<in> p_applied P \<and> le_command e = c))"

definition sim :: "string list \<Rightarrow> repl \<Rightarrow> (string, log_entry) protocol \<Rightarrow> bool" where
  "sim ids R P \<longleftrightarrow> (\<forall>i \<in> set ids. node_sim P i (node R i)) \<and> votes_sim P (core R) \<and> appends_sim P R \<and> applied_sim P R"

interpretation mj: quorums "majority_of ids" for ids
  by unfold_locales (rule majorities_meet)

section \<open>Steps of a server\<close>

lemma plain_fields:
  assumes "plain s"
  shows "log_wf (mainLog s)" "unat (log_lastIndex (mainLog s)) = length (log_entries (mainLog s))"
    "unat (log_lastTerm (mainLog s)) = last_term eterm (wlog s)"
proof -
  show wf: "log_wf (mainLog s)" using assms by (simp add: plain_def log_wf_def log_base_def)
  show "unat (log_lastIndex (mainLog s)) = length (log_entries (mainLog s))"
    using log_lastIndex_unat [OF wf] assms by (simp add: plain_def log_base_def)
  show "unat (log_lastTerm (mainLog s)) = last_term eterm (wlog s)"
    using assms by (simp add: plain_def log_lastTerm_def last_term_def wlog_def eterm_def last_map)
qed

lemma length_wlog [simp]: "length (wlog s) = length (log_entries (mainLog s))"
  by (simp add: wlog_def)

lemma on_disk_persist: "plain s \<Longrightarrow> on_disk (persist s)"
  by (simp add: on_disk_def persist_def mk_PersistentState_def plain_def wlog_def log_data_def log_of_def
      log_merge_def log_clear_def log_new_def)

text \<open>Changes the protocol does not see.\<close>

definition unseen :: "raft \<Rightarrow> raft \<Rightarrow> bool" where
  "unseen s s' \<longleftrightarrow> mainLog s' = mainLog s \<and> currentTerm s' = currentTerm s \<and> commitIndex s' = commitIndex s \<and>
     saved s' = saved s \<and> lastIncludedIndex s' = lastIncludedIndex s \<and> lastIncludedTerm s' = lastIncludedTerm s \<and>
     pendingSnapshot s' = pendingSnapshot s \<and> snapshotData s' = snapshotData s \<and> peers s' = peers s \<and>
     matchIndex s' = matchIndex s \<and> nextIndex s' = nextIndex s \<and> requestVoteArg s' = requestVoteArg s \<and>
     (role s' = role s \<or> role s' = Follower)"

lemma node_sim_unseen:
  assumes "unseen s s'" and "node_sim P i s"
  shows "node_sim P i s'"
proof -
  have "plain s' = plain s" "on_disk s' = on_disk s" "peer_maps s' = peer_maps s" "wlog s' = wlog s"
    "leader_sim P i s' = leader_sim P i s"
    using assms(1) by (simp_all add: unseen_def plain_def on_disk_def peer_maps_def wlog_def leader_sim_def cong: option.case_cong)
  with assms show ?thesis unfolding node_sim_def unseen_def by auto
qed

lemma unseen_refl [simp]: "unseen s s"
  by (simp add: unseen_def)

lemma unseen_simps [simp]:
  "unseen s (appendEntries_finish j s)" "unseen s (heartbeat s)" "unseen s (apply_done k s)" "unseen s (kill s)"
  "unseen s (ae_step_down j s)" "unseen s (s\<lparr>appendNow := m\<rparr>)" "unseen s (s\<lparr>stopCalls := b\<rparr>)"
  "unseen s (s\<lparr>shouldStartElection := m\<rparr>)" "unseen s (count_vote s)"
  by (simp_all add: unseen_def appendEntries_finish_def heartbeat_def apply_done_def kill_def ae_step_down_def
      count_vote_def)

section \<open>Growing the protocol state\<close>

definition later :: "(string, log_entry) protocol \<Rightarrow> (string, log_entry) protocol \<Rightarrow> bool" where
  "later P P' \<longleftrightarrow> (\<forall>x xs. p_stood P x = Some xs \<longrightarrow> p_stood P' x = Some xs) \<and>
     (\<forall>x ws. p_won P x = Some ws \<longrightarrow> p_won P' x = Some ws) \<and> p_sent P \<subseteq> p_sent P' \<and> p_acks P \<subseteq> p_acks P' \<and>
     p_applied P \<subseteq> p_applied P'"

definition same_at :: "(string, log_entry) protocol \<Rightarrow> (string, log_entry) protocol \<Rightarrow> string \<Rightarrow> bool" where
  "same_at P P' l \<longleftrightarrow> p_term P' l = p_term P l \<and> p_log P' l = p_log P l \<and> p_commit P' l = p_commit P l \<and>
     p_won P' (l, p_term P l) = p_won P (l, p_term P l)"

lemma later_refl [simp]: "later P P" and same_at_refl [simp]: "same_at P P l"
  by (simp_all add: later_def same_at_def)

lemma leader_sim_later:
  assumes "later P P'" and "p_term P' i = p_term P i" and "p_log P' i = p_log P i" and "leader_sim P i s"
  shows "leader_sim P' i s"
  using assms(1,4) unfolding leader_sim_def later_def assms(2,3) by (meson subsetD)

lemma node_sim_later:
  assumes "later P P'" and "same_at P P' i" and "node_sim P i s"
  shows "node_sim P' i s"
proof -
  have eq: "p_term P' i = p_term P i" "p_log P' i = p_log P i" "p_commit P' i = p_commit P i"
    and won: "p_won P' (i, p_term P i) = p_won P (i, p_term P i)"
    using assms(2) by (simp_all add: same_at_def)
  have "p_stood P x = Some xs \<Longrightarrow> p_stood P' x = Some xs" for x xs using assms(1) unfolding later_def by blast
  with assms(3) leader_sim_later [OF assms(1) eq(1,2)] show ?thesis unfolding node_sim_def eq won by blast
qed

lemma request_sim_later: "later P P' \<Longrightarrow> request_sim P arg \<Longrightarrow> request_sim P' arg"
  unfolding later_def request_sim_def by blast

lemma append_sim_later: "later P P' \<Longrightarrow> append_sim P arg \<Longrightarrow> append_sim P' arg"
  unfolding later_def append_sim_def by (meson subsetD)

lemma reply_sim_later: "later P P' \<Longrightarrow> reply_sim P j arg r \<Longrightarrow> reply_sim P' j arg r"
  unfolding later_def reply_sim_def by (meson subsetD)

lemma simD:
  assumes "sim ids R P"
  shows "i \<in> set ids \<Longrightarrow> node_sim P i (node R i)" "votes_sim P (core R)" "appends_sim P R" "applied_sim P R"
  using assms by (simp_all add: sim_def)

lemma sim_sending: "sim ids R P \<Longrightarrow> \<not> sending R x"
  using simD(3) [of ids R P] unfolding appends_sim_def by blast

definition call_sim :: "(string, log_entry) protocol \<Rightarrow> string \<Rightarrow> u64 \<Rightarrow> AppendEntriesArg \<Rightarrow> bool" where
  "call_sim P i n arg \<longleftrightarrow> ae_leaderId arg = i \<and> append_sim P arg \<and> unat n = Suc (unat (ae_prevLogIndex arg))"

text \<open>A step of server \<open>i\<close> outside the elections.\<close>

lemma sim_local:
  assumes sm: "sim ids R P" and lt: "later P P'" and votes: "p_votes P' = p_votes P" "p_won P' = p_won P"
    and others: "\<And>l. l \<noteq> i \<Longrightarrow> same_at P P' l"
    and own: "i \<in> set ids \<Longrightarrow> node_sim P' i s" "peers s = peers (node R i)"
    and R': "core R' = (core R)\<lparr>nodes := (nodes (core R))(i := s)\<rparr>" "applied R' = applied R" "\<And>x. \<not> sending R' x"
    and ap: "\<And>j arg. (j, arg) \<in> appends R' \<Longrightarrow> (j, arg) \<notin> appends R \<Longrightarrow> append_sim P' arg"
    and re: "\<And>j arg r. (j, arg, r) \<in> ae_replies R' \<Longrightarrow> (j, arg, r) \<notin> ae_replies R \<Longrightarrow> reply_sim P' j arg r"
    and ca: "\<And>l j n arg. ae_calls R' (l, j) = Some (n, arg) \<Longrightarrow> ae_calls R (l, j) \<noteq> Some (n, arg) \<Longrightarrow>
      call_sim P' l n arg \<and> j \<in> set (peers (node R l))"
  shows "sim ids R' P'"
proof -
  note S = simD [OF sm]
  have "node_sim P' l (node R' l)" if "l \<in> set ids" for l
    using own(1) node_sim_later [OF lt others S(1) [OF that]] that R'(1) by (cases "l = i") auto
  moreover have "votes_sim P' (core R')"
    using S(2) request_sim_later [OF lt] votes R'(1) unfolding votes_sim_def by auto
  moreover have "appends_sim P' R'"
  proof -
    have pe: "peers (node R' l) = peers (node R l)" for l using own(2) R'(1) by simp
    have "append_sim P' arg" if "(j, arg) \<in> appends R'" for j arg
      using that ap S(3) append_sim_later [OF lt] unfolding appends_sim_def by blast
    moreover have "reply_sim P' j arg r" if "(j, arg, r) \<in> ae_replies R'" for j arg r
      using that re S(3) reply_sim_later [OF lt] unfolding appends_sim_def by blast
    moreover have "ae_leaderId arg = l \<and> append_sim P' arg \<and> unat n = Suc (unat (ae_prevLogIndex arg)) \<and>
        j \<in> set (peers (node R' l))" if "ae_calls R' (l, j) = Some (n, arg)" for l j n arg
      using that ca S(3) append_sim_later [OF lt] unfolding appends_sim_def call_sim_def pe by metis
    ultimately show ?thesis using R'(3) unfolding appends_sim_def by blast
  qed
  moreover have "applied_sim P' R'"
    using S(4) lt R'(2) unfolding applied_sim_def later_def by (metis subsetD)
  ultimately show ?thesis by (simp add: sim_def)
qed

text \<open>The common case: the messages stay as they are.\<close>

lemma sim_set_node:
  assumes "sim ids R P" and "later P P'" and "p_votes P' = p_votes P" "p_won P' = p_won P"
    and "\<And>l. l \<noteq> i \<Longrightarrow> same_at P P' l" and "i \<in> set ids \<Longrightarrow> node_sim P' i s" and "peers s = peers (node R i)"
  shows "sim ids (set_node i s R) P'"
  by (rule sim_local [OF assms]) (use simD(3) [OF assms(1)] in \<open>auto simp: appends_sim_def set_node_def\<close>)

lemma sim_unseen: "sim ids R P \<Longrightarrow> unseen (node R i) s \<Longrightarrow> sim ids (set_node i s R) P"
  by (rule sim_set_node) (auto dest: simD(1) intro: node_sim_unseen simp: unseen_def)

section \<open>Terms, votes and elections\<close>

text \<open>A newer term is seen.\<close>

lemma node_sim_raise:
  assumes s: "node_sim P i s" and T: "currentTerm s < T"
  shows "node_sim (P\<lparr>p_term := (p_term P)(i := unat T)\<rparr>) i (snd (becameFollower now T j s))"
proof -
  define s1 where "s1 = s\<lparr>currentTerm := T, role := Follower, votedFor := None\<rparr>"
  have "plain s1" "wlog s1 = wlog s" "peer_maps s1 = peer_maps s"
    using s by (simp_all add: node_sim_def plain_def s1_def wlog_def peer_maps_def)
  then have d: "on_disk (persist s1)" and pl: "plain (persist s1)"
    by (simp add: on_disk_persist, simp add: plain_def)
  let ?s = "snd (becameFollower now T j s)"
  have bf: "unseen (persist s1) ?s" using T by (simp add: becameFollower_def Let_def s1_def unseen_def)
  have "node_sim (P\<lparr>p_term := (p_term P)(i := unat T)\<rparr>) i (persist s1)"
    using s d pl by (simp add: node_sim_def s1_def wlog_def peer_maps_def)
  then show ?thesis by (rule node_sim_unseen [OF bf])
qed

lemma becameFollower_peers [simp]: "peers (snd (becameFollower now T j s)) = peers s"
  by (simp add: becameFollower_def Let_def)

lemma becameFollower_old: "\<not> currentTerm s < T \<Longrightarrow> becameFollower now T j s = (False, s)"
  by (simp add: becameFollower_def)

lemma sim_election:
  assumes sm: "sim ids R P" and lt: "later P P'" and others: "\<And>l. l \<noteq> i \<Longrightarrow> same_at P P' l"
    and own: "node_sim P' i s" "peers s = peers (node R i)"
    and C: "nodes C = (nodes (core R))(i := s)" "votes_sim P' C"
  shows "sim ids (R\<lparr>core := C\<rparr>) P'"
proof -
  note S = simD [OF sm]
  have "node_sim P' l (nodes C l)" if "l \<in> set ids" for l
    using own(1) node_sim_later [OF lt others S(1) [OF that]] C(1) by (cases "l = i") auto
  moreover have "appends_sim P' (R\<lparr>core := C\<rparr>)"
  proof -
    have "peers (nodes C l) = peers (node R l)" for l using own(2) C(1) by simp
    then show ?thesis
      using S(3) append_sim_later [OF lt] reply_sim_later [OF lt] unfolding appends_sim_def by simp
  qed
  moreover have "applied_sim P' (R\<lparr>core := C\<rparr>)"
    using S(4) lt unfolding applied_sim_def later_def by simp (metis subsetD)
  ultimately show ?thesis using C(2) by (simp add: sim_def)
qed

lemma votes_sim_later:
  assumes "votes_sim P C" and "later P P'" and "p_votes P' = p_votes P" and "p_won P' = p_won P"
    and "requests C' = requests C" and "ballots C' = ballots C" and "elected C' = elected C"
  shows "votes_sim P' C'"
  using assms request_sim_later [OF assms(2)] by (simp add: votes_sim_def)

text \<open>What a step does in the protocol: nothing, or one step.\<close>

definition matched :: "string list \<Rightarrow> (string, log_entry) protocol \<Rightarrow> repl \<Rightarrow> bool" where
  "matched ids P R' \<longleftrightarrow> (\<exists>P'. (P' = P \<or> protocol_step (majority_of ids) eterm P P') \<and> sim ids R' P')"

lemma matched_same: "sim ids R' P \<Longrightarrow> matched ids P R'"
  by (auto simp: matched_def)

lemma matched_step: "protocol_step (majority_of ids) eterm P P' \<Longrightarrow> sim ids R' P' \<Longrightarrow> matched ids P R'"
  by (auto simp: matched_def)

lemma later_raise: "later P (P\<lparr>p_term := f\<rparr>)"
  by (simp add: later_def)

lemma raise_step:
  assumes "node_sim P i s" and "currentTerm s \<le> T"
  shows "protocol_step (majority_of ids) eterm P (P\<lparr>p_term := (p_term P)(i := unat T)\<rparr>)"
  by (rule protocol_step.advance) (use assms in \<open>simp add: node_sim_def word_le_nat_alt\<close>)

text \<open>The election timeout.\<close>

lemma node_sim_initVote:
  assumes s: "node_sim P i s" and new: "currentTerm (initVote now s) \<noteq> currentTerm s" and T: "currentTerm s \<noteq> - 1"
    and un: "p_won P (i, Suc (p_term P i)) = None"
  shows "node_sim (P\<lparr>p_term := (p_term P)(i := Suc (p_term P i)),
      p_stood := (p_stood P)((i, Suc (p_term P i)) := Some (p_log P i)), p_votes := B\<rparr>) i (initVote now s)"
    and "unat (currentTerm (initVote now s)) = Suc (p_term P i)" and "peers (initVote now s) = peers s"
proof -
  let ?s = "initVote now s"
  define s1 where "s1 = s\<lparr>role := Candidate, currentTerm := currentTerm s + 1, votedFor := Some (selfId s)\<rparr>"
  have go: "?s = (persist s1)\<lparr>requestVoteArg := mk_RequestVoteArg (selfId s1) (currentTerm s1)
        (log_lastIndex (mainLog s1)) (log_lastTerm (mainLog s1)),
      votesGranted := 1, stopCalls := False, shouldStartElection := set_values True (shouldStartElection s1)\<rparr>"
    using new by (auto simp: initVote_def Let_def s1_def split: if_splits)
  have t: "unat (currentTerm s + 1) = Suc (p_term P i)"
    using unat_plus1 [OF unat_not_max [OF T]] s by (simp add: node_sim_def)
  then show "unat (currentTerm ?s) = Suc (p_term P i)" "peers ?s = peers s" by (simp_all add: go s1_def)
  have "plain s1" using s by (simp add: node_sim_def plain_def s1_def)
  then have "on_disk (persist s1)" "plain (persist s1)" by (simp add: on_disk_persist, simp add: plain_def)
  then have "on_disk ?s" "plain ?s"
    by (simp_all add: go on_disk_def plain_def wlog_def cong: option.case_cong)
  with s t un show "node_sim (P\<lparr>p_term := (p_term P)(i := Suc (p_term P i)),
      p_stood := (p_stood P)((i, Suc (p_term P i)) := Some (p_log P i)), p_votes := B\<rparr>) i ?s"
    by (simp add: node_sim_def go s1_def wlog_def peer_maps_def mk_RequestVoteArg_def)
qed

lemma matched_timeout:
  assumes sm: "sim ids R P" and inv: "protocol_inv (majority_of ids) eterm P" and i: "i \<in> set ids"
    and T: "currentTerm (node R i) \<noteq> - 1" and s: "s = initVote now (node R i)"
  shows "matched ids P (R\<lparr>core := (core R)\<lparr>nodes := (nodes (core R))(i := s), ballots := ballots (core R) \<union>
      (if currentTerm s \<noteq> currentTerm (node R i) then {(i, currentTerm s, i)} else {})\<rparr>\<rparr>)"
proof (cases "currentTerm s = currentTerm (node R i)")
  case True
  with initVote_same s have "s = node R i" by simp
  then show ?thesis using sm by (intro matched_same) simp
next
  case False
  note S = simD [OF sm]
  let ?T = "Suc (p_term P i)"
  let ?P = "P\<lparr>p_term := (p_term P)(i := ?T), p_stood := (p_stood P)((i, ?T) := Some (p_log P i)),
      p_votes := insert (i, ?T, i) (p_votes P)\<rparr>"
  have none: "p_stood P (i, ?T) = None" "p_won P (i, ?T) = None"
    using protocol_invD(1,2) [OF inv] unfolding votes_inv_def won_inv_def by (meson not_less_eq_eq option.exhaust order_refl)+
  note n = node_sim_initVote [OF S(1) [OF i] False [unfolded s] T none(2), folded s]
  have lt: "later P ?P" using none by (simp add: later_def)
  have "votes_sim ?P ((core R)\<lparr>nodes := (nodes (core R))(i := s), ballots := ballots (core R) \<union> {(i, currentTerm s, i)}\<rparr>)"
    using S(2) request_sim_later [OF lt] n(2) unfolding votes_sim_def by auto
  then have "sim ids (R\<lparr>core := (core R)\<lparr>nodes := (nodes (core R))(i := s),
      ballots := ballots (core R) \<union> {(i, currentTerm s, i)}\<rparr>\<rparr>) ?P"
    by (intro sim_election [OF sm lt, where i = i and s = s]) (use n in \<open>simp_all add: same_at_def\<close>)
  moreover have "protocol_step (majority_of ids) eterm P ?P" by (rule protocol_step.stand) simp
  ultimately show ?thesis using False by (simp add: matched_step)
qed

text \<open>A candidate asks for a vote: its arguments describe the log it stands with.\<close>

lemma matched_call:
  assumes sm: "sim ids R P" and ok: "cluster_ok ids (core R)" and i: "i \<in> set ids"
    and rb: "requestVote_begin j (node R i) = Inr (Some arg, s)"
  shows "matched ids P (R\<lparr>core := (core R)\<lparr>nodes := (nodes (core R))(i := s), calls := cs,
      requests := insert (j, arg) (requests (core R))\<rparr>\<rparr>)"
proof (rule matched_same, rule sim_election [OF sm later_refl, where i = i and s = s])
  note S = simD [OF sm]
  from rb have c: "role (node R i) = Candidate" "arg = requestVoteArg (node R i)"
    "s = (node R i)\<lparr>shouldStartElection := AList.update j False (shouldStartElection (node R i))\<rparr>"
    by (auto simp: requestVote_begin_def map_at_def bind_outcome_Inr split: if_splits option.splits)
  then have un: "unseen (node R i) s" by simp
  then show "node_sim P i s" by (rule node_sim_unseen) (rule S(1) [OF i])
  show "peers s = peers (node R i)" using un by (simp add: unseen_def)
  have "rv_candidateId arg = i" "rv_term arg = currentTerm (node R i)"
    using cluster_okD(1) [OF ok i] c by (auto simp: server_ok_def candidate_ok_def identity_ok_def)
  with S(1) [OF i] c plain_fields [of "node R i"] have "request_sim P arg"
    by (auto simp: request_sim_def node_sim_def simp flip: length_wlog)
  with S(2) show "votes_sim P ((core R)\<lparr>nodes := (nodes (core R))(i := s), calls := cs,
      requests := insert (j, arg) (requests (core R))\<rparr>)" by (auto simp: votes_sim_def)
qed simp_all

text \<open>The vote handler.\<close>

lemma requestVoteHandler_sim:
  assumes "requestVoteHandler t1 t2 arg s = (r, s')"
  obtains (same) "\<not> rvr_voteGranted r" "s' = s"
  | (raised) "\<not> rvr_voteGranted r" "currentTerm s < rv_term arg"
      "s' = snd (becameFollower t1 (rv_term arg) (rv_candidateId arg) s)"
  | (granted) s1 where "rvr_voteGranted r" "currentTerm s \<le> rv_term arg" "upToDate (rv_lastLogIndex arg) (rv_lastLogTerm arg) s"
      "s1 = snd (becameFollower t1 (rv_term arg) (rv_candidateId arg) s)"
      "s' = persist (s1\<lparr>votedFor := Some (rv_candidateId arg), role := Follower, lastHeartbeat := t2\<rparr>)"
proof -
  let ?s1 = "snd (becameFollower t1 (rv_term arg) (rv_candidateId arg) s)"
  have up: "upToDate a b ?s1 = upToDate a b s" for a b
    using becameFollower_same_log [of s t1 "rv_term arg" "rv_candidateId arg"] by (simp add: upToDate_def same_log_def)
  consider (old) "killed s \<or> rv_term arg < currentTerm s"
    | (yes) "\<not> killed s" "currentTerm s \<le> rv_term arg" "hasVote (rv_candidateId arg) ?s1"
        "upToDate (rv_lastLogIndex arg) (rv_lastLogTerm arg) ?s1"
    | (no) "\<not> killed s" "currentTerm s \<le> rv_term arg"
        "\<not> (hasVote (rv_candidateId arg) ?s1 \<and> upToDate (rv_lastLogIndex arg) (rv_lastLogTerm arg) ?s1)" by fastforce
  then show thesis
  proof cases
    case old
    with assms show thesis by (intro same) (auto simp: requestVoteHandler_def mk_RequestVoteReply_def split: if_splits)
  next
    case yes
    with assms up show thesis
      by (intro granted [of ?s1]) (auto simp: requestVoteHandler_def Let_def mk_RequestVoteReply_def split: if_splits)
  next
    case no
    with assms have r: "\<not> rvr_voteGranted r" "s' = ?s1"
      by (auto simp: requestVoteHandler_def Let_def mk_RequestVoteReply_def split: if_splits)
    then show thesis
      using same raised becameFollower_old [of s "rv_term arg" t1 "rv_candidateId arg"]
      by (cases "currentTerm s < rv_term arg") auto
  qed
qed

lemma upToDate_newer:
  assumes "plain s" and "upToDate li lt s" and "unat li = length xs" and "unat lt = last_term eterm xs"
  shows "newer eterm xs (wlog s)"
  using assms plain_fields [OF assms(1)]
  by (auto simp: newer_def upToDate_def word_le_nat_alt word_less_nat_alt)

lemma node_sim_vote:
  assumes s: "node_sim P j s" and T: "currentTerm s \<le> T"
  shows "node_sim (P\<lparr>p_term := (p_term P)(j := unat T), p_votes := B\<rparr>) j
      (persist ((snd (becameFollower t1 T c s))\<lparr>votedFor := v, role := Follower, lastHeartbeat := t2\<rparr>))"
proof -
  let ?s1 = "(snd (becameFollower t1 T c s))\<lparr>votedFor := v, role := Follower, lastHeartbeat := t2\<rparr>"
  have f: "mainLog ?s1 = mainLog s" "currentTerm ?s1 = T" "commitIndex ?s1 = commitIndex s"
    "matchIndex ?s1 = matchIndex s" "nextIndex ?s1 = nextIndex s" "peers ?s1 = peers s"
    "lastIncludedIndex ?s1 = lastIncludedIndex s" "lastIncludedTerm ?s1 = lastIncludedTerm s"
    "pendingSnapshot ?s1 = pendingSnapshot s" "snapshotData ?s1 = snapshotData s" "role ?s1 = Follower"
    using T by (simp_all add: becameFollower_def Let_def)
  have "plain ?s1" using s f by (simp add: node_sim_def plain_def)
  then have "on_disk (persist ?s1)" "plain (persist ?s1)" by (simp add: on_disk_persist, simp add: plain_def)
  with s f show ?thesis by (simp add: node_sim_def wlog_def peer_maps_def)
qed

lemma votes_sim_ballot: "votes_sim P C \<Longrightarrow> (j, unat T, c) \<in> p_votes P \<longleftrightarrow> (j, T, c) \<in> ballots C"
proof -
  assume "votes_sim P C"
  define f :: "string \<times> u64 \<times> string \<Rightarrow> string \<times> nat \<times> string" where "f = (\<lambda>(j, T, c). (j, unat T, c))"
  have "inj f" by (auto simp: f_def inj_on_def word_unat_eq_iff)
  then have "f (j, T, c) \<in> f ` ballots C \<longleftrightarrow> (j, T, c) \<in> ballots C" by (rule inj_image_mem_iff)
  moreover have "p_votes P = f ` ballots C" "f (j, T, c) = (j, unat T, c)"
    using \<open>votes_sim P C\<close> by (simp_all add: votes_sim_def f_def)
  ultimately show ?thesis by simp
qed

lemma matched_deliver:
  assumes sm: "sim ids R P" and ok: "cluster_ok ids C" and j: "j \<in> set ids" and req: "(j, arg) \<in> requests (core R)"
    and h: "requestVoteHandler t1 t2 arg (node R j) = (r, s)"
    and C: "C = (core R)\<lparr>nodes := (nodes (core R))(j := s), replies := insert (j, arg, r) (replies (core R)),
      ballots := ballots (core R) \<union> (if rvr_voteGranted r then {(j, rv_term arg, rv_candidateId arg)} else {})\<rparr>"
  shows "matched ids P (R\<lparr>core := C\<rparr>)"
proof -
  note S = simD [OF sm] and n = simD(1) [OF sm j]
  from h show ?thesis
  proof (cases rule: requestVoteHandler_sim)
    case same
    with n S(2) show ?thesis
      by (intro matched_same sim_election [OF sm later_refl, where i = j and s = s]) (simp_all add: C votes_sim_def)
  next
    case raised
    have "votes_sim (P\<lparr>p_term := (p_term P)(j := unat (rv_term arg))\<rparr>) C"
      by (rule votes_sim_later [OF S(2) later_raise]) (use raised(1) in \<open>simp_all add: C\<close>)
    with node_sim_raise [OF n raised(2)] raised(3) show ?thesis
      by (intro matched_step [OF raise_step [OF n less_imp_le [OF raised(2)]]]
          sim_election [OF sm later_raise, where i = j and s = s]) (simp_all add: C same_at_def)
  next
    case (granted s1)
    let ?T = "unat (rv_term arg)" and ?c = "rv_candidateId arg"
    let ?P = "P\<lparr>p_term := (p_term P)(j := ?T), p_votes := insert (j, ?T, ?c) (p_votes P)\<rparr>"
    obtain xs where xs: "p_stood P (?c, ?T) = Some xs" "unat (rv_lastLogIndex arg) = length xs"
      "unat (rv_lastLogTerm arg) = last_term eterm xs" using S(2) req unfolding votes_sim_def request_sim_def by blast
    have "newer eterm xs (p_log P j)"
      using upToDate_newer [OF _ granted(3) xs(2,3)] n by (simp add: node_sim_def)
    moreover have "c' = ?c" if "(j, ?T, c') \<in> p_votes P" for c'
    proof (rule cluster_okD(2) [OF ok])
      show "(j, rv_term arg, c') \<in> ballots C" "(j, rv_term arg, ?c) \<in> ballots C"
        using that votes_sim_ballot [OF S(2), of j "rv_term arg" c'] granted(1) by (simp_all add: C)
    qed
    moreover have "p_term P j \<le> ?T" using n granted(2) by (simp add: node_sim_def word_le_nat_alt)
    ultimately have st: "protocol_step (majority_of ids) eterm P ?P" using xs(1) by (intro protocol_step.vote) auto
    have lt: "later P ?P" by (simp add: later_def)
    have "votes_sim ?P C" using S(2) request_sim_later [OF lt] granted(1) unfolding votes_sim_def C by auto
    then have "sim ids (R\<lparr>core := C\<rparr>) ?P"
      by (intro sim_election [OF sm lt, where i = j and s = s])
        (use node_sim_vote [OF n granted(2)] granted(4,5) in \<open>simp_all add: C same_at_def\<close>)
    with st show ?thesis by (rule matched_step)
  qed
qed

text \<open>The reply to a vote request.\<close>

lemma requestVote_reply_sim:
  obtains (unseen) "unseen s (requestVote_reply now j arg reply s)"
    "role (requestVote_reply now j arg reply s) = Leader \<Longrightarrow> role s = Leader"
  | (raised) T where "currentTerm s < T" "requestVote_reply now j arg reply s = snd (becameFollower now T j s)"
  | (wins) "role s = Candidate" "requestVote_reply now j arg reply s = becomeLeader (count_vote s)"
proof -
  let ?s = "requestVote_reply now j arg reply s"
  consider (drop) "killed s \<or> role s \<noteq> Candidate" | (lost) "\<not> killed s" "role s = Candidate" "reply = None"
    | (got) r where "\<not> killed s" "role s = Candidate" "reply = Some r" by (cases reply) auto
  then show thesis
  proof cases
    case drop
    then have "?s = s\<lparr>stopCalls := True\<rparr>" by (auto simp: requestVote_reply_def)
    then show thesis by (intro unseen) simp_all
  next
    case lost
    then have "?s = s" by (simp add: requestVote_reply_def)
    then show thesis by (intro unseen) simp_all
  next
    case (got r)
    show thesis
    proof (cases "currentTerm s < rvr_term r")
      case True
      then have "?s = snd (becameFollower now (rvr_term r) j s)"
        using got by (simp add: requestVote_reply_def becameFollower_def Let_def)
      with True show thesis by (rule raised)
    next
      case False
      then have "?s = s \<or> ?s = count_vote s \<or> ?s = becomeLeader (count_vote s)"
        using got by (auto simp: requestVote_reply_def becameFollower_old count_vote_def Let_def)
      then show thesis
      proof (elim disjE)
        assume "?s = s"
        then show thesis by (intro unseen) simp_all
      next
        assume "?s = count_vote s"
        then show thesis by (intro unseen) (simp, simp add: count_vote_def)
      next
        assume "?s = becomeLeader (count_vote s)"
        then show thesis by (rule wins [OF got(2)])
      qed
    qed
  qed
qed

lemma node_sim_becomeLeader:
  assumes s: "node_sim P i s" and c: "role s = Candidate"
  shows "node_sim (P\<lparr>p_won := (p_won P)((i, p_term P i) := Some (p_log P i)),
      p_lead := (p_lead P)((i, p_term P i) := p_log P i),
      p_acks := insert (i, (i, p_term P i), length (p_log P i)) (p_acks P)\<rparr>) i (becomeLeader s)"
    (is "node_sim ?P i ?s")
proof -
  have f: "plain ?s = plain s" "on_disk ?s = on_disk s" "wlog ?s = wlog s" "commitIndex ?s = commitIndex s"
    by (simp_all add: becomeLeader_def plain_def on_disk_def wlog_def cong: option.case_cong)
  have pl: "plain s" and pm: "peer_maps s" using s by (simp_all add: node_sim_def)
  have "unat (log_lastIndex (mainLog s) + 1) = Suc (length (log_entries (mainLog s)))"
    using unat_plus1 [of "log_lastIndex (mainLog s)"] plain_fields(2) [OF pl] pl by (simp add: plain_def)
  moreover have keys: "map_of (matchIndex s) j = Some m \<Longrightarrow> j \<in> set (peers s)"
    "map_of (nextIndex s) j = Some m \<Longrightarrow> j \<in> set (peers s)" for j m
    using pm by (auto simp: peer_maps_def)
  moreover have "length (p_log P i) = length (log_entries (mainLog s))"
    using s length_wlog [of s] by (simp add: node_sim_def)
  ultimately have "leader_sim ?P i ?s"
    by (auto simp: leader_sim_def becomeLeader_def map_of_fold_const split: if_splits)
  moreover have "peer_maps ?s"
    using pm keys unfolding peer_maps_def
    by (simp add: becomeLeader_def map_of_fold_const distinct_fold_update dom_def) (auto simp: dom_def)
  ultimately show ?thesis using s by (simp add: node_sim_def f)
qed

lemma matched_return:
  assumes sm: "sim ids R P" and ok: "cluster_ok ids C" and i: "i \<in> set ids"
    and s: "s = requestVote_reply now j arg reply (node R i)"
    and C: "C = (core R)\<lparr>nodes := (nodes (core R))(i := s), calls := cs, elected := elected (core R) \<union>
      (if role s = Leader \<and> role (node R i) \<noteq> Leader then {(i, currentTerm s)} else {})\<rparr>"
  shows "matched ids P (R\<lparr>core := C\<rparr>)"
proof (cases rule: requestVote_reply_sim [of "node R i" now j arg reply, folded s, case_names unseen raised wins])
  case unseen
  note S = simD [OF sm]
  have "elected C = elected (core R)" using unseen(2) C by auto
  then have "votes_sim P C" using votes_sim_later [OF S(2) later_refl] by (simp add: C)
  with unseen(1) show ?thesis
    by (intro matched_same sim_election [OF sm later_refl, where i = i and s = s])
      (auto simp: C unseen_def intro: node_sim_unseen [OF unseen(1) S(1) [OF i]])
next
  case (raised T)
  note S = simD [OF sm] and n = simD(1) [OF sm i]
  have "role s \<noteq> Leader" using raised by (simp add: becameFollower_def Let_def)
  then have "votes_sim (P\<lparr>p_term := (p_term P)(i := unat T)\<rparr>) C"
    by (intro votes_sim_later [OF S(2) later_raise]) (simp_all add: C)
  with node_sim_raise [OF n raised(1)] raised(2) show ?thesis
    by (intro matched_step [OF raise_step [OF n less_imp_le [OF raised(1)]]]
        sim_election [OF sm later_raise, where i = i and s = s]) (simp_all add: C same_at_def)
next
  case wins
  note S = simD [OF sm] and n = node_sim_unseen [OF unseen_simps(9) simD(1) [OF sm i]]
  let ?T = "p_term P i"
  let ?P = "P\<lparr>p_won := (p_won P)((i, ?T) := Some (p_log P i)), p_lead := (p_lead P)((i, ?T) := p_log P i),
      p_acks := insert (i, (i, ?T), length (p_log P i)) (p_acks P)\<rparr>"
  have c: "role (count_vote (node R i)) = Candidate" using wins(1) by (simp add: count_vote_def)
  have T: "unat (currentTerm s) = ?T" using n wins(2) by (simp add: node_sim_def)
  have st: "p_stood P (i, ?T) = Some (p_log P i)" "p_won P (i, ?T) = None" using n c by (simp_all add: node_sim_def)
  have "(i, currentTerm s) \<in> elected C" using wins C by simp
  from cluster_okD(4) [OF ok this] obtain Q where Q: "majority_of ids Q" "\<forall>l \<in> Q. (l, currentTerm s, i) \<in> ballots (core R)"
    unfolding quorum_def majority_of_def C by auto
  have "protocol_step (majority_of ids) eterm P ?P"
  proof (rule protocol_step.win [where Q = Q])
    show "(l, ?T, i) \<in> p_votes P" if "l \<in> Q" for l
      using Q(2) that votes_sim_ballot [OF S(2), of l "currentTerm s" i] T by simp
  qed (use st Q(1) in simp_all)
  moreover have lt: "later P ?P" using st(2) by (auto simp: later_def)
  have "votes_sim ?P C"
  proof -
    have "p_won ?P (l, unat U) \<noteq> None \<longleftrightarrow> (l, U) \<in> elected C" for l U
      using S(2) T wins unfolding votes_sim_def C by (auto simp: word_unat_eq_iff)
    with S(2) request_sim_later [OF lt] show ?thesis unfolding votes_sim_def C by simp
  qed
  then have "sim ids (R\<lparr>core := C\<rparr>) ?P"
    by (intro sim_election [OF sm lt, where i = i and s = s])
      (use node_sim_becomeLeader [OF n c] wins(2) in \<open>simp_all add: C same_at_def count_vote_def\<close>)
  ultimately show ?thesis by (rule matched_step)
qed

lemma matched_vote:
  assumes sm: "sim ids R P" and inv: "protocol_inv (majority_of ids) eterm P"
    and ok: "cluster_ok ids (core R)" "cluster_ok ids C" and "vote_step ids (core R) C"
  shows "matched ids P (R\<lparr>core := C\<rparr>)"
  using assms(5)
proof (cases rule: vote_step.cases)
  case (timeout i s now)
  show ?thesis unfolding timeout(1) by (rule matched_timeout [OF sm inv timeout(2-4)])
next
  case (call i j arg s)
  show ?thesis unfolding call(1) by (rule matched_call [OF sm ok(1) call(2,5)])
next
  case (deliver j arg t1 t2 r s)
  show ?thesis by (rule matched_deliver [OF sm ok(2) deliver(2-4,1)])
next
  case (return i j arg reply s now)
  show ?thesis by (rule matched_return [OF sm ok(2) return(2,5,1)])
qed

section \<open>Sending entries\<close>

lemma plain_at:
  assumes "plain s"
  shows "log_at (mainLog s) k = (if 0 < unat k \<and> unat k \<le> length (log_entries (mainLog s))
    then Some (log_entries (mainLog s) ! (unat k - 1)) else None)"
  using log_at_contiguous [of 0 "mainLog s" k] assms by (simp add: plain_def)

lemma plain_first: "plain s \<Longrightarrow> unat (log_firstIndex (mainLog s)) \<le> 1"
  by (cases "log_entries (mainLog s)") (auto simp: plain_def log_firstIndex_def contiguous_Cons)

lemma contiguous_wire [simp]: "contiguous b (map wire_entry es) = contiguous b es"
  by (simp add: contiguous_def)

lemma appendEntries_begin_sim:
  assumes pl: "plain s"
    and nx: "\<forall>n. role s = Leader \<longrightarrow> map_of (nextIndex s) j = Some n \<longrightarrow>
      0 < unat n \<and> unat n \<le> Suc (length (log_entries (mainLog s)))"
    and b: "appendEntries_begin load j False s = Inr (c, b, s')"
  obtains (waits) "c = AeContinue" "\<not> b" "s' = s"
  | (sends) n prevTerm where "c = AeAppend n (mk_AppendEntriesArg (selfId s) (currentTerm s) (n - 1) prevTerm (commitIndex s)
        (log_suffix (mainLog s) n))" "\<not> b" "s' = s\<lparr>stopCalls := False\<rparr>" "role s = Leader" "0 < unat n"
      "unat n \<le> Suc (length (log_entries (mainLog s)))"
      "n - 1 \<noteq> 0 \<Longrightarrow> prevTerm = le_term (log_entries (mainLog s) ! (unat n - 2))"
proof -
  from b obtain rd where rd: "appendEntries_ready j s = Inr rd" unfolding appendEntries_begin_def bind_outcome_Inr by blast
  show thesis
  proof (cases rd)
    case False
    with b rd show thesis by (intro waits) (auto simp: appendEntries_begin_def)
  next
    case True
    with rd have lead: "role s = Leader" by (auto simp: appendEntries_ready_def split: if_splits)
    from b rd True obtain n where n: "map_of (nextIndex s) j = Some n"
      by (auto simp: appendEntries_begin_def map_at_def bind_outcome_Inr split: option.splits)
    note bd = nx [rule_format, OF lead n]
    have u: "unat (n - 1) = unat n - 1" using bd unat_minus1 [of n] unat_gt_0 [of n] by blast
    have "\<not> n < log_firstIndex (mainLog s)" using plain_first [OF pl] bd by (auto simp: word_less_nat_alt)
    with b rd True n have call: "appendEntries_call load j n False s = Inr (c, b, s')"
      by (simp add: appendEntries_begin_def map_at_def)
    have at: "log_at (mainLog s) (n - 1) = (if n - 1 = 0 then None else Some (log_entries (mainLog s) ! (unat n - 2)))"
      using plain_at [OF pl, of "n - 1"] bd u by (auto simp: numeral_2_eq_2 unat_eq_0)
    have li: "lastIncludedIndex s = 0" using pl by (simp add: plain_def)
    show thesis
      using call at bd lead li
      by (intro sends [of n "case log_at (mainLog s) (n - 1) of Some e \<Rightarrow> le_term e
          | None \<Rightarrow> if n - 1 \<le> lastIncludedIndex s then lastIncludedTerm s else 0"])
        (auto simp: appendEntries_call_def Let_def split: if_splits)
  qed
qed

lemma append_sim_sent:
  assumes s: "node_sim P i s" and self: "selfId s = i"
    and n: "0 < unat n" "unat n \<le> Suc (length (log_entries (mainLog s)))"
    and pt: "n - 1 \<noteq> 0 \<Longrightarrow> prevTerm = le_term (log_entries (mainLog s) ! (unat n - 2))"
    and sent: "((i, p_term P i), p_log P i, p_commit P i) \<in> p_sent P'"
  shows "append_sim P' (mk_AppendEntriesArg (selfId s) (currentTerm s) (n - 1) prevTerm (commitIndex s)
      (log_suffix (mainLog s) n))" (is "append_sim P' ?arg")
proof -
  have pl: "plain s" and P: "unat (currentTerm s) = p_term P i" "wlog s = p_log P i" "unat (commitIndex s) = p_commit P i"
    using s by (simp_all add: node_sim_def)
  have u: "unat (n - 1) = unat n - 1" using n unat_minus1 [of n] unat_gt_0 [of n] by blast
  have f: "ae_leaderId ?arg = i" "ae_term ?arg = currentTerm s" "ae_prevLogIndex ?arg = n - 1"
    "ae_prevLogTerm ?arg = prevTerm" "ae_leaderCommit ?arg = commitIndex s"
    "log_data (ae_entries ?arg) = log_entries (log_suffix (mainLog s) n)"
    using self by (simp_all add: mk_AppendEntriesArg_def log_data_def log_merge_def log_clear_def log_new_def log_of_def)
  have "log_entries (log_suffix (mainLog s) n) = drop (unat n - 1) (log_entries (mainLog s))"
    using log_suffix_entries [OF plain_fields(1) [OF pl], of n] pl n by (simp add: plain_def log_base_def)
  then have "map wire_entry (log_data (ae_entries ?arg)) = drop (unat (n - 1)) (wlog s)"
    by (simp add: f u wlog_def drop_map)
  moreover have "unat prevTerm = eterm (wlog s ! (unat (n - 1) - 1))" if "n - 1 \<noteq> 0"
  proof -
    have "unat n - 2 < length (log_entries (mainLog s))" using that n u unat_eq_0 [of "n - 1"] by auto
    moreover have "unat (n - 1) - 1 = unat n - 2" using u by simp
    ultimately show ?thesis using pt [OF that] by (simp add: wlog_def eterm_def)
  qed
  ultimately show ?thesis
    using sent n u pl unfolding append_sim_def f P(1,3) P(2) [symmetric]
    by (intro exI [of _ "wlog s"]) (simp add: plain_def wlog_def)
qed

lemma node_sim_next:
  assumes "node_sim P i s"
  shows "\<forall>n. role s = Leader \<longrightarrow> map_of (nextIndex s) j = Some n \<longrightarrow>
    0 < unat n \<and> unat n \<le> Suc (length (log_entries (mainLog s)))"
proof -
  have "length (p_log P i) = length (log_entries (mainLog s))" using assms length_wlog [of s] by (simp add: node_sim_def)
  with assms show ?thesis by (auto simp: node_sim_def leader_sim_def)
qed

lemma matched_idle:
  assumes sm: "sim ids R P" and i: "i \<in> set ids"
    and b: "appendEntries_begin load j (sending R (i, j)) (node R i) = Inr (AeContinue, b, s)"
  shows "matched ids P (set_node i s (R\<lparr>sending := (sending R)((i, j) := b)\<rparr>))"
proof -
  note S = simD [OF sm] and n = simD(1) [OF sm i]
  have ns: "\<not> sending R x" for x by (rule sim_sending [OF sm])
  have pl: "plain (node R i)" using n by (simp add: node_sim_def)
  have b': "appendEntries_begin load j False (node R i) = Inr (AeContinue, b, s)" using b ns by simp
  have "\<not> b \<and> s = node R i"
    by (rule appendEntries_begin_sim [OF pl node_sim_next [OF n] b']) simp_all
  then show ?thesis
    using ns n by (intro matched_same sim_local [OF sm later_refl refl refl, where i = i and s = s]) (auto simp: set_node_def)
qed

lemma matched_send:
  assumes sm: "sim ids R P" and ok: "cluster_ok ids (core R)" and i: "i \<in> set ids" and j: "j \<in> set (peers (node R i))"
    and b: "appendEntries_begin load j (sending R (i, j)) (node R i) = Inr (AeAppend n arg, b, s)"
  shows "matched ids P (set_node i s (R\<lparr>sending := (sending R)((i, j) := b),
      ae_calls := (ae_calls R)((i, j) := Some (n, arg)), appends := insert (j, arg) (appends R)\<rparr>))"
    (is "matched ids P ?R")
proof -
  note S = simD [OF sm] and nd = simD(1) [OF sm i]
  let ?P = "P\<lparr>p_sent := insert ((i, p_term P i), p_log P i, p_commit P i) (p_sent P)\<rparr>"
  have ns: "\<not> sending R x" for x by (rule sim_sending [OF sm])
  have pl: "plain (node R i)" using nd by (simp add: node_sim_def)
  have self: "selfId (node R i) = i" using cluster_okD(1) [OF ok i] by (simp add: server_ok_def identity_ok_def)
  have b': "appendEntries_begin load j False (node R i) = Inr (AeAppend n arg, b, s)" using b ns by simp
  obtain pt where a: "arg = mk_AppendEntriesArg (selfId (node R i)) (currentTerm (node R i)) (n - 1) pt
      (commitIndex (node R i)) (log_suffix (mainLog (node R i)) n)" "\<not> b" "s = (node R i)\<lparr>stopCalls := False\<rparr>"
      "role (node R i) = Leader" "0 < unat n" "unat n \<le> Suc (length (log_entries (mainLog (node R i))))"
      "n - 1 \<noteq> 0 \<Longrightarrow> pt = le_term (log_entries (mainLog (node R i)) ! (unat n - 2))"
  proof (cases rule: appendEntries_begin_sim [OF pl node_sim_next [OF nd] b', case_names waits sends])
    case (sends m pt)
    from sends(1) have m: "n = m" by (simp only: ae_call.inject)
    from sends(1) [unfolded m] have "arg = mk_AppendEntriesArg (selfId (node R i)) (currentTerm (node R i)) (m - 1) pt
        (commitIndex (node R i)) (log_suffix (mainLog (node R i)) m)" by (simp only: ae_call.inject)
    from that [unfolded m, OF this sends(2-7)] show thesis .
  next
    case waits
    from waits(1) show thesis by (simp only: ae_call.distinct)
  qed
  from nd a(4) obtain ws where "p_won P (i, p_term P i) = Some ws" by (auto simp: node_sim_def leader_sim_def)
  then have st: "protocol_step (majority_of ids) eterm P ?P" by (rule protocol_step.send [OF refl])
  have lt: "later P ?P" by (auto simp: later_def)
  have arg: "append_sim ?P arg" unfolding a(1) by (rule append_sim_sent [OF nd self a(5-7)]) simp_all
  have "unat n = Suc (unat (ae_prevLogIndex arg))"
    using a(5) unat_minus1 [of n] unat_gt_0 [of n] by (simp add: a(1) mk_AppendEntriesArg_def)
  moreover have "ae_leaderId arg = i" using self by (simp add: a(1) mk_AppendEntriesArg_def)
  ultimately have call: "call_sim ?P i n arg" using arg by (simp add: call_sim_def)
  have un: "unseen (node R i) s" using a(3) by simp
  have nd': "node_sim ?P i s"
    by (rule node_sim_later [OF lt _ node_sim_unseen [OF un nd]]) (simp add: same_at_def)
  have "sim ids ?R ?P"
  proof (rule sim_local [OF sm lt, where i = i and s = s])
    show "same_at P ?P l" for l by (simp add: same_at_def)
    show "\<not> sending ?R x" for x using ns a(2) by (cases x) (simp add: set_node_def)
    show "append_sim ?P arg'" if "(j', arg') \<in> appends ?R" "(j', arg') \<notin> appends R" for j' arg'
      using that arg by (simp add: set_node_def)
    show "call_sim ?P l n' arg' \<and> j' \<in> set (peers (node R l))"
      if "ae_calls ?R (l, j') = Some (n', arg')" "ae_calls R (l, j') \<noteq> Some (n', arg')" for l j' n' arg'
    proof (cases "(l, j') = (i, j)")
      case True
      with that(1) have "n' = n" "arg' = arg" by (simp_all add: set_node_def)
      with True call j show ?thesis by simp
    qed (use that in \<open>auto simp: set_node_def split: if_splits\<close>)
    show "peers s = peers (node R i)" using a(3) by simp
  qed (use nd' in \<open>simp_all add: set_node_def\<close>)
  with st show ?thesis by (rule matched_step)
qed

section \<open>Receiving entries\<close>

text \<open>
  A merge of what follows the matching index \<open>p\<close> of the leader's log \<open>xs\<close> is the protocol's
  \<^const>\<open>take_over\<close>, when entries of the same index and term come with equal logs before them.
\<close>

lemma merge_take_over:
  assumes c: "contiguous 0 es" "contiguous 0 xs" and p: "p \<le> length es" "p \<le> length xs"
    and wired: "map wire_entry (drop p xs) = drop p xs" and pre: "take p (map wire_entry es) = take p xs"
    and mt: "\<And>k. k < length es \<Longrightarrow> k < length xs \<Longrightarrow> le_term (es ! k) = le_term (xs ! k) \<Longrightarrow>
      take (Suc k) (map wire_entry es) = take (Suc k) xs"
  shows "map wire_entry (merge_loop es (drop p xs)) = take_over (map wire_entry es) xs"
proof -
  let ?os = "drop p xs" and ?w = "map wire_entry es"
  have os: "contiguous p ?os" using contiguous_drop [OF c(2) p(2)] by simp
  have fit: "fits 0 es p" using p by (simp add: fits_def)
  have upto: "take (p + n) ?w = take (p + n) xs"
    if ag: "agree 0 es p (take n ?os)" and n: "p + n \<le> length es" "p + n \<le> length xs" for n
  proof (cases n)
    case (Suc m)
    have "m < length (take n ?os)" "p + m < length es" using Suc n by auto
    with ag have "entry_eq (es ! (p + m)) (take n ?os ! m)" unfolding agree_def by fastforce
    then have "le_term (es ! (p + m)) = le_term (xs ! (p + m))" using Suc n by (simp add: entry_eq_def)
    from mt [OF _ _ this] Suc n show ?thesis by simp
  qed (use pre in simp)
  have wd: "map wire_entry (drop k ?os) = drop (p + k) xs" for k
    using arg_cong [OF wired, of "drop k"] by (simp add: drop_map add.commute)
  show ?thesis
  proof (cases "agree 0 es p ?os")
    case True
    then have ag: "agree 0 es p (take n ?os)" for n using p(2) by (auto simp: agree_def)
    have m: "merge_loop es ?os = es @ drop (length es - p) ?os"
      using merge_loop_agree [OF c(1) os fit True] by simp
    show ?thesis
    proof (cases "length xs \<le> length es")
      case le: True
      then have "take (length xs) ?w = xs" using upto [OF ag [of "length xs - p"]] p by simp
      then have "prefix xs ?w" by (metis take_is_prefix)
      with m le p show ?thesis by (simp add: take_over_def)
    next
      case False
      then have "?w = take (length es) xs" using upto [OF ag [of "length es - p"]] p by simp
      moreover have "\<not> prefix xs ?w" using False prefix_length_le by fastforce
      moreover have "map wire_entry (drop (length es - p) ?os) = drop (length es) xs" using wd [of "length es - p"] p by simp
      ultimately show ?thesis using m by (simp add: take_over_def)
    qed
  next
    case False
    from merge_loop_conflict [OF c(1) os fit False] obtain k where k: "k < length ?os" "p + k < length es"
      "agree 0 es p (take k ?os)" "\<not> entry_eq (es ! (p + k)) (?os ! k)"
      "merge_loop es ?os = take (p + k) es @ drop k ?os" by auto
    have "take (p + k) ?w = take (p + k) xs" using upto [OF k(3)] k(1,2) by simp
    then have "map wire_entry (merge_loop es ?os) = xs" using k(5) wd [of k] by (simp add: take_map)
    moreover have "\<not> prefix xs ?w"
    proof
      assume "prefix xs ?w"
      then have "?w ! (p + k) = xs ! (p + k)" using k(1) by (auto simp: prefix_def nth_append)
      then have "wire_entry (es ! (p + k)) = ?os ! k" using k(1,2) by simp
      then have "wire_entry (es ! (p + k)) = wire_entry (?os ! k)" by (metis wire_entry_idem)
      with k(4) show False using wire_entry_eqD by blast
    qed
    ultimately show ?thesis by (simp add: take_over_def)
  qed
qed

text \<open>What the protocol knows of a message in flight.\<close>

lemma sent_held:
  assumes inv: "protocol_inv (majority_of ids) eterm P" and m: "((i, T), xs, c) \<in> p_sent P"
  shows "held eterm (p_won P) (p_lead P) xs" and "c \<le> length xs"
proof -
  note I = protocol_invD [OF inv]
  obtain ws where "p_won P (i, T) = Some ws" "prefix xs (p_lead P (i, T))" "c \<le> length xs"
    using I(4) m unfolding sent_inv_def by blast
  with I(3) show "held eterm (p_won P) (p_lead P) xs" "c \<le> length xs"
    unfolding held_inv_def using held_prefix by blast+
qed

lemma prev_matches_take:
  assumes inv: "protocol_inv (majority_of ids) eterm P" and n: "node_sim P j s" and pl: "plain s"
    and m: "((i, T), xs, c) \<in> p_sent P" and p: "unat (ae_prevLogIndex arg) \<le> length xs"
    and pt: "ae_prevLogIndex arg \<noteq> 0 \<Longrightarrow> unat (ae_prevLogTerm arg) = eterm (xs ! (unat (ae_prevLogIndex arg) - 1))"
    and pm: "prev_matches arg s"
  shows "unat (ae_prevLogIndex arg) \<le> length (log_entries (mainLog s))"
    and "take (unat (ae_prevLogIndex arg)) (wlog s) = take (unat (ae_prevLogIndex arg)) xs"
proof -
  let ?p = "unat (ae_prevLogIndex arg)"
  have "?p \<le> length (log_entries (mainLog s)) \<and> take ?p (wlog s) = take ?p xs"
  proof (cases "ae_prevLogIndex arg = 0")
    case False
    then have p0: "0 < ?p" by (simp add: unat_gt_0)
    with False pm pl have le: "?p \<le> length (log_entries (mainLog s))"
      and tm: "le_term (log_entries (mainLog s) ! (?p - 1)) = ae_prevLogTerm arg"
      by (auto simp: prev_matches_def plain_at [OF pl] plain_def split: if_splits)
    have w: "p_log P j = wlog s" using n by (simp add: node_sim_def)
    have h: "held eterm (p_won P) (p_lead P) (wlog s)"
      using protocol_invD(3) [OF inv] w unfolding held_inv_def by metis
    have "?p - 1 < length (wlog s)" "?p - 1 < length xs" using le p p0 by auto
    moreover have "eterm (wlog s ! (?p - 1)) = eterm (xs ! (?p - 1))"
      using tm pt [OF False] \<open>?p - 1 < length (wlog s)\<close> by (simp add: wlog_def eterm_def)
    ultimately have "take (Suc (?p - 1)) (wlog s) = take (Suc (?p - 1)) xs"
      by (rule mj.held_same [OF protocol_invD(1,2) [OF inv] h sent_held(1) [OF inv m]])
    with p0 le show ?thesis by simp
  qed simp
  then show "?p \<le> length (log_entries (mainLog s))" "take ?p (wlog s) = take ?p xs" by blast+
qed

lemma wire_arg_simps [simp]:
  "ae_term (wire_arg a) = ae_term a" "ae_leaderId (wire_arg a) = ae_leaderId a"
  "ae_prevLogIndex (wire_arg a) = ae_prevLogIndex a" "ae_prevLogTerm (wire_arg a) = ae_prevLogTerm a"
  "ae_leaderCommit (wire_arg a) = ae_leaderCommit a"
  "log_data (ae_entries (wire_arg a)) = map wire_entry (log_data (ae_entries a))"
  by (simp_all add: wire_arg_def log_data_def log_of_def)

text \<open>An accepted message makes the follower's log the protocol's.\<close>

lemma accepted_log:
  assumes inv: "protocol_inv (majority_of ids) eterm P" and n: "node_sim P j s"
    and m: "((i, T), xs, c) \<in> p_sent P" and c: "contiguous 0 xs" and p: "unat (ae_prevLogIndex arg) \<le> length xs"
    and pt: "ae_prevLogIndex arg \<noteq> 0 \<Longrightarrow> unat (ae_prevLogTerm arg) = eterm (xs ! (unat (ae_prevLogIndex arg) - 1))"
    and en: "map wire_entry (log_data (ae_entries arg)) = drop (unat (ae_prevLogIndex arg)) xs"
    and pm: "prev_matches (wire_arg arg) s"
  defines "es \<equiv> merge_loop (log_entries (mainLog s)) (log_data (ae_entries (wire_arg arg)))"
  shows "contiguous 0 es" and "map wire_entry es = take_over (p_log P j) xs"
proof -
  have pl: "plain s" and w: "wlog s = p_log P j" using n by (simp_all add: node_sim_def)
  let ?p = "unat (ae_prevLogIndex arg)" and ?l = "log_entries (mainLog s)"
  have c0: "contiguous 0 ?l" using pl by (simp add: plain_def)
  have pm': "prev_matches arg s" using pm by (simp add: prev_matches_def cong: option.case_cong)
  note pre = prev_matches_take [OF inv n pl m p pt pm']
  have es: "es = merge_loop ?l (drop ?p xs)" by (simp add: es_def en)
  show "contiguous 0 es"
    unfolding es using merge_loop_contiguous [OF c0, of ?p "drop ?p xs"] contiguous_drop [OF c p] pre(1)
    by (simp add: fits_def)
  have h: "held eterm (p_won P) (p_lead P) (wlog s)"
    using protocol_invD(3) [OF inv] w unfolding held_inv_def by metis
  have "map wire_entry (merge_loop ?l (drop ?p xs)) = take_over (map wire_entry ?l) xs"
  proof (rule merge_take_over [OF c0 c pre(1) p])
    show "map wire_entry (drop ?p xs) = drop ?p xs" by (simp flip: en)
    show "take ?p (map wire_entry ?l) = take ?p xs" using pre(2) by (simp add: wlog_def)
    show "take (Suc k) (map wire_entry ?l) = take (Suc k) xs"
      if "k < length ?l" "k < length xs" "le_term (?l ! k) = le_term (xs ! k)" for k
      using mj.held_same [OF protocol_invD(1,2) [OF inv] h sent_held(1) [OF inv m], of k] that
      by (simp add: wlog_def eterm_def)
  qed
  with w show "map wire_entry es = take_over (p_log P j) xs" by (simp add: es wlog_def)
qed

lemma node_sim_accept:
  assumes n: "node_sim P j s" and T: "currentTerm s \<le> T" and es: "contiguous 0 es" "map wire_entry es = ys"
    and len: "length ys < 2 ^ 64 - 1"
    and s1: "s1 = (snd (becameFollower t1 T l s))\<lparr>lastHeartbeat := t2\<rparr>"
    and s': "s' = (persist (s1\<lparr>mainLog := (mainLog s)\<lparr>log_entries := es\<rparr>, role := Follower\<rparr>))\<lparr>commitIndex := c\<rparr>"
  shows "node_sim (P\<lparr>p_term := (p_term P)(j := unat T), p_log := (p_log P)(j := ys),
      p_commit := (p_commit P)(j := unat c), p_acks := A\<rparr>) j s'"
proof -
  define s2 where "s2 = s1\<lparr>mainLog := (mainLog s)\<lparr>log_entries := es\<rparr>, role := Follower\<rparr>"
  have f: "currentTerm s2 = T" "matchIndex s2 = matchIndex s" "nextIndex s2 = nextIndex s" "peers s2 = peers s"
    "lastIncludedIndex s2 = lastIncludedIndex s" "lastIncludedTerm s2 = lastIncludedTerm s"
    "pendingSnapshot s2 = pendingSnapshot s" "snapshotData s2 = snapshotData s" "role s2 = Follower"
    "mainLog s2 = (mainLog s)\<lparr>log_entries := es\<rparr>"
    using T by (simp_all add: s2_def s1 becameFollower_def Let_def)
  have "length es = length ys" using es(2) by auto
  then have "plain s2" using n es(1) len f by (simp add: node_sim_def plain_def)
  then have "on_disk (persist s2)" "plain (persist s2)" by (simp add: on_disk_persist, simp add: plain_def)
  then have "on_disk s'" "plain s'"
    unfolding s' s2_def [symmetric] by (simp_all add: on_disk_def plain_def wlog_def cong: option.case_cong)
  moreover have "s' = (persist s2)\<lparr>commitIndex := c\<rparr>" by (simp add: s' s2_def)
  ultimately show ?thesis using n f es(2) by (simp add: node_sim_def wlog_def peer_maps_def)
qed

lemma sim_receive:
  assumes sm: "sim ids R P" and lt: "later P P'" and votes: "p_votes P' = p_votes P" "p_won P' = p_won P"
    and others: "\<And>l. l \<noteq> j \<Longrightarrow> same_at P P' l" and own: "node_sim P' j s" "peers s = peers (node R j)"
    and re: "reply_sim P' j arg r"
  shows "sim ids (set_node j s (R\<lparr>ae_replies := insert (j, arg, r) (ae_replies R)\<rparr>)) P'" (is "sim ids ?R P'")
proof (rule sim_local [OF sm lt votes others, where s = s])
  show "\<not> sending ?R x" for x using sim_sending [OF sm] by (simp add: set_node_def)
  show "reply_sim P' j' arg' r'" if "(j', arg', r') \<in> ae_replies ?R" "(j', arg', r') \<notin> ae_replies R" for j' arg' r'
    using that re by (simp add: set_node_def)
qed (use own in \<open>simp_all add: set_node_def\<close>)

lemma reply_sim_refused: "\<not> aer_success r \<Longrightarrow> reply_sim P j arg r"
  by (simp add: reply_sim_def)

lemma ae_entered_peers [simp]: "peers (ae_entered t1 t2 arg s) = peers s"
  by (simp add: ae_entered_def)

lemma matched_mismatch:
  assumes sm: "sim ids R P" and j: "j \<in> set ids" and T: "currentTerm (node R j) \<le> ae_term a" and r: "\<not> aer_success r"
  shows "matched ids P (set_node j (ae_entered t1 t2 a (node R j)) (R\<lparr>ae_replies := insert (j, arg, r) (ae_replies R)\<rparr>))"
proof (cases "currentTerm (node R j) < ae_term a")
  case True
  note n = simD(1) [OF sm j]
  let ?P = "P\<lparr>p_term := (p_term P)(j := unat (ae_term a))\<rparr>"
  have un: "unseen (snd (becameFollower t1 (ae_term a) (ae_leaderId a) (node R j))) (ae_entered t1 t2 a (node R j))"
    by (simp add: ae_entered_def unseen_def)
  have nd: "node_sim ?P j (ae_entered t1 t2 a (node R j))" by (rule node_sim_unseen [OF un node_sim_raise [OF n True]])
  show ?thesis
    by (rule matched_step [OF raise_step [OF n T]], rule sim_receive [OF sm later_raise])
      (use nd reply_sim_refused [OF r] in \<open>simp_all add: same_at_def\<close>)
next
  case False
  note n = simD(1) [OF sm j]
  have un: "unseen (node R j) (ae_entered t1 t2 a (node R j))"
    using becameFollower_old [OF False] by (simp add: ae_entered_def unseen_def)
  show ?thesis
    by (rule matched_same, rule sim_receive [OF sm later_refl])
      (use node_sim_unseen [OF un n] reply_sim_refused [OF r] in simp_all)
qed

lemma matched_accept:
  assumes sm: "sim ids R P" and inv: "protocol_inv (majority_of ids) eterm P" and j: "j \<in> set ids"
    and ar: "append_sim P arg" and T: "currentTerm (node R j) \<le> ae_term arg" and pm: "prev_matches (wire_arg arg) (node R j)"
    and acc: "(r, ap, s) = ae_accept junk (wire_arg arg) (ae_entered t1 t2 (wire_arg arg) (node R j))"
  shows "matched ids P (set_node j s (R\<lparr>ae_replies := insert (j, arg, r) (ae_replies R)\<rparr>))"
proof -
  note n = simD(1) [OF sm j]
  let ?T = "unat (ae_term arg)" and ?i = "ae_leaderId arg" and ?c = "unat (ae_leaderCommit arg)"
  from ar obtain xs where xs: "((?i, ?T), xs, ?c) \<in> p_sent P" "length xs < 2 ^ 64 - 1" "contiguous 0 xs"
    "unat (ae_prevLogIndex arg) \<le> length xs"
    "ae_prevLogIndex arg \<noteq> 0 \<longrightarrow> unat (ae_prevLogTerm arg) = eterm (xs ! (unat (ae_prevLogIndex arg) - 1))"
    "map wire_entry (log_data (ae_entries arg)) = drop (unat (ae_prevLogIndex arg)) xs" unfolding append_sim_def by blast
  define es where "es = merge_loop (log_entries (mainLog (node R j))) (log_data (ae_entries (wire_arg arg)))"
  let ?ys = "take_over (p_log P j) xs"
  have es: "contiguous 0 es" "map wire_entry es = ?ys"
    using accepted_log [OF inv n xs(1,3,4) xs(5) [rule_format] xs(6) pm] unfolding es_def by blast+
  have pl: "plain (node R j)" and w: "p_log P j = wlog (node R j)" "p_commit P j = unat (commitIndex (node R j))"
    using n by (simp_all add: node_sim_def)
  have len: "length ?ys < 2 ^ 64 - 1" "length xs \<le> length ?ys"
    using xs(2) pl w(1) by (simp add: take_over_def plain_def) (rule prefix_length_le [OF prefix_take_over])
  define s1 where "s1 = ae_entered t1 t2 (wire_arg arg) (node R j)"
  have s1: "s1 = (snd (becameFollower t1 (ae_term arg) ?i (node R j)))\<lparr>lastHeartbeat := t2\<rparr>"
    "mainLog s1 = mainLog (node R j)" "commitIndex s1 = commitIndex (node R j)"
    using ae_entered_same_log [of "node R j" t1 t2 "wire_arg arg"] by (simp_all add: s1_def ae_entered_def same_log_def)
  define s2 where "s2 = persist (s1\<lparr>mainLog := (mainLog (node R j))\<lparr>log_entries := es\<rparr>, role := Follower\<rparr>)"
  have last: "unat (log_lastIndex (mainLog s2)) = length ?ys"
  proof -
    have "log_wf (mainLog s2)" using es(1) pl by (simp add: s2_def log_wf_def log_base_def plain_def)
    from log_lastIndex_unat [OF this] pl arg_cong [OF es(2), of length] show ?thesis
      by (simp add: s2_def log_base_def plain_def)
  qed
  define c where "c = (if commitIndex (node R j) < ae_leaderCommit arg then ae_leaderCommit arg else commitIndex (node R j))"
  have cm: "?c \<le> length ?ys" using sent_held(2) [OF inv xs(1)] len(2) by simp
  have c: "unat c = max (p_commit P j) ?c" by (simp add: c_def w(2) word_less_nat_alt max_def)
  have "min (ae_leaderCommit arg) (log_lastIndex (mainLog s2)) = ae_leaderCommit arg"
    using cm last by (simp add: min_def word_le_nat_alt)
  moreover have "s = (if commitIndex s2 < ae_leaderCommit arg
      then s2\<lparr>commitIndex := min (ae_leaderCommit arg) (log_lastIndex (mainLog s2))\<rparr> else s2)" "aer_success r"
    using acc by (auto simp: ae_accept_def Let_def s2_def s1_def [symmetric] s1(2) log_merge_def es_def
        mk_AppendEntriesReply_def split: if_splits)
  moreover have "commitIndex s2 = commitIndex (node R j)" by (simp add: s2_def s1(3))
  ultimately have s: "s = s2\<lparr>commitIndex := c\<rparr>" by (auto simp: c_def)
  let ?P = "P\<lparr>p_term := (p_term P)(j := ?T), p_log := (p_log P)(j := ?ys),
      p_commit := (p_commit P)(j := max (p_commit P j) ?c), p_acks := insert (j, (?i, ?T), length xs) (p_acks P)\<rparr>"
  have nd: "node_sim ?P j s"
    using node_sim_accept [OF n T es len(1) s1(1), of s c] c s s2_def by simp
  have "protocol_step (majority_of ids) eterm P ?P"
    using n T by (intro protocol_step.accept [OF xs(1)]) (simp add: node_sim_def word_le_nat_alt)
  moreover have "unat (ae_prevLogIndex arg) + length (log_data (ae_entries arg)) \<le> length xs"
    using arg_cong [OF xs(6), of length] xs(4) by simp
  then have "reply_sim ?P j arg r" by (auto simp: reply_sim_def)
  then have "sim ids (set_node j s (R\<lparr>ae_replies := insert (j, arg, r) (ae_replies R)\<rparr>)) ?P"
    by (intro sim_receive [OF sm])
      (use nd in \<open>simp_all add: s s2_def s1(1) same_at_def later_def subset_insertI\<close>)
  ultimately show ?thesis by (rule matched_step)
qed

lemma matched_receive:
  assumes sm: "sim ids R P" and inv: "protocol_inv (majority_of ids) eterm P" and j: "j \<in> set ids"
    and m: "(j, arg) \<in> appends R" and h: "appendEntriesHandler junk t1 t2 (wire_arg arg) (node R j) = (r, ap, s)"
  shows "matched ids P (set_node j s (R\<lparr>ae_replies := insert (j, arg, r) (ae_replies R)\<rparr>))"
  using h
proof (cases rule: appendEntriesHandler_cases)
  case busy
  show ?thesis
    by (rule matched_same, rule sim_receive [OF sm later_refl])
      (use busy simD(1) [OF sm j] reply_sim_refused in simp_all)
next
  case mismatch
  have "\<not> aer_success r" using mismatch(6) by (auto simp: ae_conflict_def mk_AppendEntriesReply_def split: option.splits)
  then show ?thesis unfolding mismatch(5) by (intro matched_mismatch [OF sm j mismatch(3)])
next
  case accept
  have "append_sim P arg" using simD(3) [OF sm] m unfolding appends_sim_def by blast
  then show ?thesis using accept(3) by (intro matched_accept [OF sm inv j _ _ accept(4,5)]) simp_all
qed

section \<open>The answer to a message\<close>

lemma appendEntries_reply_sim:
  assumes "appendEntries_reply now j n arg reply s = Inr (nx, s')"
  obtains (ignored) "unseen s s'"
  | (raised) T where "currentTerm s < T" "s' = snd (becameFollower now T j s)"
  | (backs) r where "role s = Leader" "s' = ae_backup j r s"
  | (acked) r where "role s = Leader" "reply = Some r" "aer_success r" "ae_term arg = currentTerm s"
      "ae_acknowledged j n arg s = Inr (nx, s')"
proof -
  consider (down) "killed s \<or> role s \<noteq> Leader" | (lost) "\<not> killed s" "role s = Leader" "reply = None"
    | (got) r where "\<not> killed s" "role s = Leader" "reply = Some r" by (cases reply) auto
  then show thesis
  proof cases
    case down
    with assms have "s' = ae_step_down j s" by (auto simp: appendEntries_reply_def)
    then show thesis by (intro ignored) simp
  next
    case lost
    with assms have "s' = s\<lparr>appendNow := AList.update j True (appendNow s)\<rparr>" by (simp add: appendEntries_reply_def)
    then show thesis by (intro ignored) simp
  next
    case (got r)
    show thesis
    proof (cases "currentTerm s < aer_term r")
      case True
      with assms got have "s' = snd (becameFollower now (aer_term r) j s)"
        by (simp add: appendEntries_reply_def becameFollower_def Let_def)
      with True show thesis by (rule raised)
    next
      case False
      with assms got have e: "(if aer_term r < currentTerm s \<or> ae_term arg \<noteq> currentTerm s
          then Inr (AeDone, s\<lparr>appendNow := AList.update j True (appendNow s)\<rparr>)
          else if aer_success r then ae_acknowledged j n arg s else Inr (AeDone, ae_backup j r s)) = Inr (nx, s')"
        by (simp add: appendEntries_reply_def becameFollower_old)
      show thesis
        using e acked [OF got(2,3)] backs [OF got(2), of r] ignored by (auto split: if_splits)
    qed
  qed
qed

text \<open>Updates of what the leader believes of a peer.\<close>

lemma node_sim_believe:
  assumes n: "node_sim P i s" and lead: "role s = Leader" and j: "j \<in> set (peers s)"
    and nx: "0 < unat v" "unat v \<le> Suc (length (p_log P i))"
    and mt: "m = matchIndex s \<or> (\<exists>u. m = AList.update j u (matchIndex s) \<and> (\<exists>k \<ge> unat u. (j, (i, p_term P i), k) \<in> p_acks P))"
    and s': "s' = s\<lparr>nextIndex := AList.update j v (nextIndex s), matchIndex := m, appendNow := a\<rparr>"
  shows "node_sim P i s'"
proof -
  have f: "plain s' = plain s" "on_disk s' = on_disk s" "wlog s' = wlog s"
    by (simp_all add: s' plain_def on_disk_def wlog_def cong: option.case_cong)
  have pm: "peer_maps s" and ls: "leader_sim P i s" using n lead by (simp_all add: node_sim_def)
  have "distinct (map fst m)" using mt pm distinct_update [of "matchIndex s" j] by (auto simp: peer_maps_def)
  moreover have "dom (map_of m) \<subseteq> insert j (dom (map_of (matchIndex s)))" using mt by (auto simp del: dom_map_of_conv_image_fst)
  ultimately have "peer_maps s'" using pm j unfolding peer_maps_def by (simp add: s') blast
  moreover have "u = 0 \<or> (\<exists>k \<ge> unat u. (l, (i, p_term P i), k) \<in> p_acks P)" if "map_of m l = Some u" for l u
  proof -
    have old: "map_of (matchIndex s) l = Some u \<Longrightarrow> ?thesis" using ls unfolding leader_sim_def by blast
    show ?thesis
    proof (cases "m = matchIndex s \<or> l \<noteq> j")
      case True
      with mt that have "map_of (matchIndex s) l = Some u" by auto
      then show ?thesis by (rule old)
    next
      case False
      with mt that show ?thesis by auto
    qed
  qed
  moreover have "0 < unat u \<and> unat u \<le> Suc (length (p_log P i))" if "map_of (nextIndex s') l = Some u" for l u
    using that ls nx unfolding leader_sim_def by (cases "l = j") (auto simp: s')
  ultimately have "leader_sim P i s'" using ls unfolding leader_sim_def by (simp add: s')
  with n lead \<open>peer_maps s'\<close> show ?thesis by (simp add: node_sim_def f) (simp add: s')
qed

lemma ae_backup_bounds:
  assumes pl: "plain s"
  shows "\<exists>v. ae_backup j r s = s\<lparr>nextIndex := AList.update j v (nextIndex s), matchIndex := matchIndex s,
      appendNow := AList.update j True (appendNow s)\<rparr> \<and> 0 < unat v \<and> unat v \<le> Suc (length (log_entries (mainLog s)))"
proof -
  let ?l = "log_termLastIndex (mainLog s) (aer_conflictTerm r)" and ?hi = "log_lastIndex (mainLog s) + 1"
  let ?n = "if ?l \<noteq> 0 then ?l + 1 else aer_conflictIndex r"
  let ?v = "if ?n < 1 then 1 else if ?hi < ?n then ?hi else ?n"
  have hi: "unat ?hi = Suc (length (log_entries (mainLog s)))"
    using unat_plus1 [of "log_lastIndex (mainLog s)"] plain_fields(2) [OF pl] pl by (simp add: plain_def)
  have "0 < unat ?v \<and> unat ?v \<le> Suc (length (log_entries (mainLog s)))"
  proof (cases "?n < 1")
    case False
    then have "0 < unat ?n" by (simp add: word_less_nat_alt)
    with False hi show ?thesis by (cases "?hi < ?n") (simp_all add: word_less_nat_alt)
  qed simp
  moreover have "ae_backup j r s = s\<lparr>nextIndex := AList.update j ?v (nextIndex s), matchIndex := matchIndex s,
      appendNow := AList.update j True (appendNow s)\<rparr>" by (simp add: ae_backup_def Let_def)
  ultimately show ?thesis by blast
qed

lemma ae_backup_peers [simp]: "peers (ae_backup j r s) = peers s"
  by (simp add: ae_backup_def Let_def)

text \<open>The servers a leader counts are a majority that has stored the entry.\<close>

lemma matches_majority:
  assumes n: "node_sim P i s" and lead: "role s = Leader" and id: "identity_ok ids i s" "i \<in> set ids" "length ids < 256"
    and k: "0 < unat k" "unat k \<le> length (p_log P i)" and m: "majority s \<le> matches s k"
  obtains Q where "majority_of ids Q" "\<And>j. j \<in> Q \<Longrightarrow> \<exists>k' \<ge> unat k. (j, (i, p_term P i), k') \<in> p_acks P"
proof
  let ?F = "filter (\<lambda>(j, index). index \<ge> k) (matchIndex s)" and ?Q = "insert i {j. \<exists>u \<ge> k. map_of (matchIndex s) j = Some u}"
  have pm: "peer_maps s" and ls: "leader_sim P i s" using n lead by (simp_all add: node_sim_def)
  have dis: "distinct (map fst (matchIndex s))" using pm by (simp add: peer_maps_def)
  have F: "{j. \<exists>u \<ge> k. map_of (matchIndex s) j = Some u} = fst ` set ?F"
    using dis by (force simp: image_iff)
  have "distinct (map fst ?F)" using dis by (induction "matchIndex s") (auto intro: distinct_map_filter)
  then have "card (fst ` set ?F) = length ?F" by (metis distinct_card length_map set_map)
  moreover have sub: "fst ` set ?F \<subseteq> set ids - {i}"
    using pm id(1) unfolding F [symmetric] peer_maps_def identity_ok_def by blast
  moreover from sub have "i \<notin> fst ` set ?F" by blast
  ultimately have "int (card ?Q) = matches s k" unfolding F by (simp add: matches_def del: set_filter)
  then have "int (length ids) div 2 + 1 \<le> int (card ?Q)"
    using m id clusterSize_uint [OF id(3)] by (simp add: majority_def identity_ok_def)
  then have "length ids < 2 * card ?Q" by linarith
  then show "majority_of ids ?Q" using sub id(2) unfolding majority_of_def F by blast
  show "\<exists>k' \<ge> unat k. (j, (i, p_term P i), k') \<in> p_acks P" if "j \<in> ?Q" for j
  proof (cases "j = i")
    case True
    then show ?thesis using ls k(2) unfolding leader_sim_def by (meson order_trans)
  next
    case False
    with that obtain u where u: "k \<le> u" "map_of (matchIndex s) j = Some u" by blast
    then have "u \<noteq> 0" "unat k \<le> unat u" using k(1) by (auto simp: word_le_nat_alt)
    with u(2) ls show ?thesis unfolding leader_sim_def by (meson order_trans)
  qed
qed

lemma sim_answered:
  assumes sm: "sim ids R P" and lt: "later P P'" and votes: "p_votes P' = p_votes P" "p_won P' = p_won P"
    and others: "\<And>l. l \<noteq> i \<Longrightarrow> same_at P P' l" and own: "node_sim P' i s" "peers s = peers (node R i)"
  shows "sim ids (set_node i s (R\<lparr>ae_calls := (ae_calls R)((i, j) := None)\<rparr>)) P'" (is "sim ids ?R P'")
proof (rule sim_local [OF sm lt votes others, where s = s])
  show "\<not> sending ?R x" for x using sim_sending [OF sm] by (simp add: set_node_def)
  show "call_sim P' l n' arg' \<and> j' \<in> set (peers (node R l))"
    if "ae_calls ?R (l, j') = Some (n', arg')" "ae_calls R (l, j') \<noteq> Some (n', arg')" for l j' n' arg'
    using that by (auto simp: set_node_def split: if_splits)
qed (use own in \<open>simp_all add: set_node_def\<close>)

text \<open>How much of the leader's log an acknowledged message covers.\<close>

lemma acked_range:
  assumes sm: "sim ids R P" and inv: "protocol_inv (majority_of ids) eterm P" and i: "i \<in> set ids"
    and ca: "ae_calls R (i, j) = Some (n, arg)" and re: "(j, arg, r) \<in> ae_replies R" "aer_success r"
    and lead: "role (node R i) = Leader" and T: "ae_term arg = currentTerm (node R i)"
  defines "u \<equiv> n + of_nat (length (log_data (ae_entries arg)))"
  shows "0 < unat u" and "unat u \<le> Suc (length (p_log P i))" and "unat (u - 1) = unat u - 1"
    and "\<exists>k \<ge> unat (u - 1). (j, (i, p_term P i), k) \<in> p_acks P"
proof -
  note n = simD(1) [OF sm i] and I = protocol_invD [OF inv]
  have c: "ae_leaderId arg = i" "append_sim P arg" "unat n = Suc (unat (ae_prevLogIndex arg))" "reply_sim P j arg r"
    using simD(3) [OF sm] ca re(1) unfolding appends_sim_def by blast+
  have t: "unat (ae_term arg) = p_term P i" using n T by (simp add: node_sim_def)
  from c(1,2) t obtain xs where xs: "((i, p_term P i), xs, unat (ae_leaderCommit arg)) \<in> p_sent P"
    "length xs < 2 ^ 64 - 1" "unat (ae_prevLogIndex arg) \<le> length xs"
    "map wire_entry (log_data (ae_entries arg)) = drop (unat (ae_prevLogIndex arg)) xs" unfolding append_sim_def by metis
  have len: "length (log_data (ae_entries arg)) = length xs - unat (ae_prevLogIndex arg)"
    using arg_cong [OF xs(4), of length] by simp
  from n lead obtain ws where ws: "p_won P (i, p_term P i) = Some ws" by (auto simp: node_sim_def leader_sim_def)
  have "prefix xs (p_lead P (i, p_term P i))" using I(4) xs(1) unfolding sent_inv_def by blast
  moreover have "p_log P i = p_lead P (i, p_term P i)" using I(2) ws unfolding won_inv_def by blast
  ultimately have le: "length xs \<le> length (p_log P i)" using prefix_length_le by metis
  have "n = of_nat (Suc (unat (ae_prevLogIndex arg)))" by (simp del: of_nat_Suc flip: c(3))
  then have "u = of_nat (Suc (unat (ae_prevLogIndex arg)) + (length xs - unat (ae_prevLogIndex arg)))"
    by (simp add: u_def len)
  then have "u = of_nat (Suc (length xs))" using xs(3) by (simp del: of_nat_Suc of_nat_add)
  then have u: "unat u = Suc (length xs)" using xs(2) by (simp add: unsigned_of_nat take_bit_nat_eq_self del: of_nat_Suc)
  then show "0 < unat u" "unat u \<le> Suc (length (p_log P i))" using le by simp_all
  from u show u1: "unat (u - 1) = unat u - 1" using unat_minus1 [of u] by (metis nat.distinct(1) unsigned_0)
  have "\<exists>k \<ge> length xs. (j, (i, p_term P i), k) \<in> p_acks P"
    using c(1,4) re(2) t len xs(3) unfolding reply_sim_def by simp
  with u u1 show "\<exists>k \<ge> unat (u - 1). (j, (i, p_term P i), k) \<in> p_acks P" by simp
qed

lemma matched_acked:
  assumes sm: "sim ids R P" and inv: "protocol_inv (majority_of ids) eterm P" and ok: "cluster_ok ids (core R)"
    and len: "length ids < 256" and i: "i \<in> set ids" and ca: "ae_calls R (i, j) = Some (n, arg)"
    and re: "(j, arg, r) \<in> ae_replies R" "aer_success r" and lead: "role (node R i) = Leader"
    and T: "ae_term arg = currentTerm (node R i)" and ak: "ae_acknowledged j n arg (node R i) = Inr (nx, s)"
  shows "matched ids P (set_node i s (R\<lparr>ae_calls := (ae_calls R)((i, j) := None)\<rparr>))"
proof -
  note nd = simD(1) [OF sm i] and rg = acked_range [OF sm inv i ca re lead T]
  let ?u = "n + of_nat (length (log_data (ae_entries arg)))" and ?s = "node R i"
  define s1 where "s1 = ?s\<lparr>nextIndex := AList.update j ?u (nextIndex ?s), matchIndex := AList.update j (?u - 1) (matchIndex ?s),
      appendNow := appendNow ?s\<rparr>"
  have s1': "?s\<lparr>nextIndex := AList.update j ?u (nextIndex ?s), matchIndex := AList.update j (?u - 1) (matchIndex ?s)\<rparr> = s1"
    by (simp add: s1_def)
  have j: "j \<in> set (peers ?s)" using simD(3) [OF sm] ca unfolding appends_sim_def by blast
  have n1: "node_sim P i s1"
    by (rule node_sim_believe [OF nd lead j rg(1,2) _ s1_def]) (use rg(4) in blast)
  have f1: "role s1 = Leader" "mainLog s1 = mainLog ?s" "peers s1 = peers ?s" "currentTerm s1 = currentTerm ?s"
    "commitIndex s1 = commitIndex ?s" using lead by (simp_all add: s1_def)
  have id: "identity_ok ids i s1" using cluster_okD(1) [OF ok i] by (simp add: server_ok_def identity_ok_def s1_def)
  have ae: "ae_acknowledged j n arg ?s = bind_outcome (commit_scan s1 (log_lastIndex (mainLog s1))) (\<lambda>c. case c of
      None \<Rightarrow> Inr (AeFinish, s1) | Some k \<Rightarrow> Inr (AeApplyFinish, s1\<lparr>commitIndex := k\<rparr>))"
    unfolding ae_acknowledged_def Let_def s1' by (rule refl)
  from ak [unfolded ae bind_outcome_Inr] obtain c where c: "commit_scan s1 (log_lastIndex (mainLog s1)) = Inr c"
    and cs: "(case c of None \<Rightarrow> Inr (AeFinish, s1) | Some k \<Rightarrow> Inr (AeApplyFinish, s1\<lparr>commitIndex := k\<rparr>)) =
      (Inr (nx, s) :: (ae_next \<times> raft) outcome)" by blast
  have s: "s = (case c of None \<Rightarrow> s1 | Some k \<Rightarrow> s1\<lparr>commitIndex := k\<rparr>)" using cs by (cases c) auto
  show ?thesis
  proof (cases c)
    case None
    with s n1 f1(3) show ?thesis by (intro matched_same sim_answered [OF sm later_refl]) simp_all
  next
    case (Some k)
    from commit_scan_Some [OF c [unfolded Some]] obtain e where k: "commitIndex s1 < k" "majority s1 \<le> matches s1 k"
      "log_at (mainLog s1) k = Some e" "le_term e = currentTerm s1" by blast
    have pl: "plain s1" and w: "wlog s1 = p_log P i" and t: "unat (currentTerm s1) = p_term P i"
      using n1 by (simp_all add: node_sim_def)
    have e: "0 < unat k" "unat k \<le> length (p_log P i)" "e = log_entries (mainLog s1) ! (unat k - 1)"
      using k(3) length_wlog [of s1] w by (simp_all add: plain_at [OF pl] split: if_splits)
    have et: "eterm (p_log P i ! (unat k - 1)) = p_term P i"
      using e k(4) t length_wlog [of s1] by (simp add: w [symmetric]) (simp add: wlog_def eterm_def)
    obtain Q where Q: "majority_of ids Q" "\<And>l. l \<in> Q \<Longrightarrow> \<exists>k' \<ge> unat k. (l, (i, p_term P i), k') \<in> p_acks P"
      by (rule matches_majority [OF n1 f1(1) id i len e(1,2) k(2)]) blast
    from nd lead obtain ws where ws: "p_won P (i, p_term P i) = Some ws" by (auto simp: node_sim_def leader_sim_def)
    let ?P = "P\<lparr>p_commit := (p_commit P)(i := unat k)\<rparr>"
    have st: "protocol_step (majority_of ids) eterm P ?P"
      by (rule protocol_step.commit [where Q = Q and T = "p_term P i" and ws = ws]) (use ws e(1,2) et Q in simp_all)
    have s: "s = s1\<lparr>commitIndex := k\<rparr>" using s Some by simp
    have "plain s = plain s1" "on_disk s = on_disk s1" "wlog s = wlog s1" "peer_maps s = peer_maps s1"
      "leader_sim ?P i s = leader_sim P i s1"
      by (simp_all add: s plain_def on_disk_def wlog_def peer_maps_def leader_sim_def cong: option.case_cong)
    with n1 f1(1) have "node_sim ?P i s" by (simp add: node_sim_def) (simp add: s)
    then have "sim ids (set_node i s (R\<lparr>ae_calls := (ae_calls R)((i, j) := None)\<rparr>)) ?P"
      by (intro sim_answered [OF sm]) (simp_all add: s f1(3) same_at_def later_def)
    with st show ?thesis by (rule matched_step)
  qed
qed

lemma matched_answered:
  assumes sm: "sim ids R P" and inv: "protocol_inv (majority_of ids) eterm P" and ok: "cluster_ok ids (core R)"
    and len: "length ids < 256" and i: "i \<in> set ids" and ca: "ae_calls R (i, j) = Some (n, arg)"
    and re: "case reply of None \<Rightarrow> True | Some r \<Rightarrow> (j, arg, r) \<in> ae_replies R"
    and h: "appendEntries_reply now j n arg reply (node R i) = Inr (nx, s)"
  shows "matched ids P (set_node i s (R\<lparr>ae_calls := (ae_calls R)((i, j) := None)\<rparr>))"
  using h
proof (cases rule: appendEntries_reply_sim)
  case ignored
  with node_sim_unseen [OF ignored simD(1) [OF sm i]] show ?thesis
    by (intro matched_same sim_answered [OF sm later_refl]) (simp_all add: unseen_def)
next
  case (raised T)
  note n = simD(1) [OF sm i]
  show ?thesis
    by (rule matched_step [OF raise_step [OF n less_imp_le [OF raised(1)]]], rule sim_answered [OF sm later_raise])
      (use node_sim_raise [OF n raised(1)] raised(2) in \<open>simp_all add: same_at_def\<close>)
next
  case (backs r)
  note n = simD(1) [OF sm i]
  have pl: "plain (node R i)" and le: "length (log_entries (mainLog (node R i))) = length (p_log P i)"
    using n length_wlog [of "node R i"] by (simp_all add: node_sim_def)
  from ae_backup_bounds [OF pl, of j r] obtain v where v: "s = (node R i)\<lparr>nextIndex := AList.update j v (nextIndex (node R i)),
      matchIndex := matchIndex (node R i), appendNow := AList.update j True (appendNow (node R i))\<rparr>"
    "0 < unat v" "unat v \<le> Suc (length (p_log P i))" using backs(2) le by metis
  have j: "j \<in> set (peers (node R i))" using simD(3) [OF sm] ca unfolding appends_sim_def by blast
  have "node_sim P i s" by (rule node_sim_believe [OF n backs(1) j v(2,3) disjI1 [OF refl] v(1)])
  then show ?thesis using backs(2) by (intro matched_same sim_answered [OF sm later_refl]) simp_all
next
  case (acked r)
  have "(j, arg, r) \<in> ae_replies R" using re acked(2) by simp
  from matched_acked [OF sm inv ok len i ca this acked(3,1,4,5)] show ?thesis .
qed

section \<open>Commands, state machines and restarts\<close>

lemma matched_submit:
  assumes sm: "sim ids R P" and i: "i \<in> set ids" and room: "log_lastIndex (mainLog (node R i)) < - 2"
    and st: "start c (node R i) = (ok, c', s)"
  shows "matched ids P (set_node i s R)"
proof (cases "killed (node R i) \<or> role (node R i) \<noteq> Leader")
  case True
  with st have "s = (node R i)\<lparr>stopCalls := True\<rparr>" by (auto simp: start_def)
  then show ?thesis by (intro matched_same sim_unseen [OF sm]) simp
next
  case False
  note n = simD(1) [OF sm i]
  let ?s = "node R i" and ?T = "p_term P i"
  have pl: "plain ?s" and w: "wlog ?s = p_log P i" and T: "unat (currentTerm ?s) = ?T" and ls: "leader_sim P i ?s"
    using n False by (simp_all add: node_sim_def)
  define e where "e = \<lparr>le_index = log_lastIndex (mainLog ?s) + 1, le_term = currentTerm ?s, le_command = c'\<rparr>"
  define s1 where "s1 = ?s\<lparr>mainLog := log_append (mainLog ?s) e\<rparr>"
  from False st pl have s: "s = (persist s1)\<lparr>appendNow := set_values True (appendNow s1)\<rparr>"
    by (auto simp: start_def Let_def plain_def e_def s1_def)
  have last: "unat (log_lastIndex (mainLog ?s)) = length (log_entries (mainLog ?s))" by (rule plain_fields(2) [OF pl])
  have "unat (- 2 :: u64) = 2 ^ 64 - 2" by simp
  with room last have rm: "Suc (length (log_entries (mainLog ?s))) < 2 ^ 64 - 1" by (simp add: word_less_nat_alt)
  then have "unat (le_index e) = Suc (length (log_entries (mainLog ?s)))"
    using unat_plus1 [of "log_lastIndex (mainLog ?s)"] last by (simp add: e_def)
  then have p1: "plain s1" using pl rm by (simp add: s1_def plain_def log_append_def contiguous_append contiguous_Cons)
  have w1: "wlog s1 = p_log P i @ [wire_entry e]" by (simp add: wlog_def s1_def log_append_def flip: w)
  let ?xs = "p_log P i @ [wire_entry e]"
  let ?P = "P\<lparr>p_log := (p_log P)(i := ?xs), p_lead := (p_lead P)((i, ?T) := ?xs),
      p_acks := insert (i, (i, ?T), length ?xs) (p_acks P)\<rparr>"
  from ls obtain ws where ws: "p_won P (i, ?T) = Some ws" unfolding leader_sim_def by blast
  have pst: "protocol_step (majority_of ids) eterm P ?P"
    by (rule protocol_step.propose [OF refl ws]) (simp_all add: eterm_def e_def T)
  have "on_disk (persist s1)" "plain (persist s1)" using on_disk_persist [OF p1] p1 by (simp, simp add: plain_def)
  then have d: "on_disk s" "plain s" by (simp_all add: s on_disk_def plain_def wlog_def cong: option.case_cong)
  have "leader_sim ?P i s" using ls unfolding leader_sim_def s s1_def by (simp add: le_SucI) blast
  moreover have "peer_maps s = peer_maps ?s" "wlog s = wlog s1" by (simp_all add: s s1_def peer_maps_def wlog_def)
  ultimately have "node_sim ?P i s" using n d w1 False by (simp add: node_sim_def) (simp add: s s1_def)
  then have "sim ids (set_node i s R) ?P"
    by (intro sim_set_node [OF sm]) (auto simp: same_at_def later_def s s1_def)
  with pst show ?thesis by (rule matched_step)
qed

lemma matched_feed:
  assumes sm: "sim ids R P" and i: "i \<in> set ids" and nx: "apply_next (node R i) = Some (k, c)"
  shows "matched ids P (R\<lparr>applied := insert (i, k, c) (applied R)\<rparr>)"
proof -
  note n = simD(1) [OF sm i] and S = simD [OF sm]
  have pl: "plain (node R i)" and w: "wlog (node R i) = p_log P i" and cm: "unat (commitIndex (node R i)) = p_commit P i"
    using n by (simp_all add: node_sim_def)
  from apply_next_Some [OF nx] obtain e where e: "lastApplied (node R i) < commitIndex (node R i)"
    "unat k = Suc (unat (lastApplied (node R i)))" "log_at (mainLog (node R i)) k = Some e" "c = le_command e" by blast
  have k: "unat k \<le> length (log_entries (mainLog (node R i)))" "e = log_entries (mainLog (node R i)) ! (unat k - 1)"
    using e(3) by (simp_all add: plain_at [OF pl] split: if_splits)
  have at: "p_log P i ! (unat k - 1) = wire_entry e" using k e(2) by (simp add: wlog_def flip: w)
  let ?P = "P\<lparr>p_applied := insert (i, unat k - 1, p_log P i ! (unat k - 1)) (p_applied P)\<rparr>"
  have "protocol_step (majority_of ids) eterm P ?P"
    by (rule protocol_step.deliver) (use e(1,2) cm in \<open>simp add: word_less_nat_alt\<close>)
  moreover have lt: "later P ?P" by (auto simp: later_def)
  have "node_sim ?P l (node R l)" if "l \<in> set ids" for l
    by (rule node_sim_later [OF lt _ S(1) [OF that]]) (simp add: same_at_def)
  moreover have "votes_sim ?P (core R)" by (rule votes_sim_later [OF S(2) lt]) simp_all
  moreover have "appends_sim ?P (R\<lparr>applied := insert (i, k, c) (applied R)\<rparr>)"
    using S(3) append_sim_later [OF lt] reply_sim_later [OF lt] unfolding appends_sim_def by simp
  moreover have "applied_sim ?P (R\<lparr>applied := insert (i, k, c) (applied R)\<rparr>)"
    unfolding applied_sim_def
  proof (intro allI impI)
    fix l m d assume "(l, m, d) \<in> applied (R\<lparr>applied := insert (i, k, c) (applied R)\<rparr>)"
    then consider "l = i" "m = k" "d = c" | "(l, m, d) \<in> applied R" by auto
    then show "0 < unat m \<and> (\<exists>e. (l, unat m - 1, wire_entry e) \<in> p_applied ?P \<and> le_command e = d)"
    proof cases
      case 1
      with e(2,4) at show ?thesis by auto
    next
      case 2
      with S(4) have "0 < unat m \<and> (\<exists>e. (l, unat m - 1, wire_entry e) \<in> p_applied P \<and> le_command e = d)"
        unfolding applied_sim_def by blast
      moreover have "p_applied P \<subseteq> p_applied ?P" by auto
      ultimately show ?thesis by blast
    qed
  qed
  ultimately show ?thesis by (intro matched_step) (auto simp: sim_def)
qed

text \<open>A restarted server is where its disk was.\<close>

lemma RaftImpl_new_sim:
  assumes new: "RaftImpl_new load ids i pol now sv = Inr s"
  obtains ps where "load sv = Inr ps" "saved s = sv" "currentTerm s = ps_currentTerm ps"
    "log_entries (mainLog s) = log_data (ps_log ps)" "log_lastIncludedIndex (mainLog s) = ps_lastIncludedIndex ps"
    "log_lastIncludedTerm (mainLog s) = ps_lastIncludedTerm ps" "lastIncludedIndex s = ps_lastIncludedIndex ps"
    "lastIncludedTerm s = ps_lastIncludedTerm ps" "snapshotData s = ps_snapshotData ps"
    "pendingSnapshot s = (ps_snapshotData ps \<noteq> '''')" "commitIndex s = 0" "role s = Follower" "peer_maps s"
proof -
  from new obtain ps where "load sv = Inr ps" by (auto simp: RaftImpl_new_def Let_def bind_outcome_Inr)
  with new show thesis
    by (intro that [of ps])
      (auto simp: RaftImpl_new_def Let_def readPersist_def raft_members_def log_setLastIncluded_def log_merge_def
        log_clear_def log_new_def peer_maps_def split: if_splits)
qed

lemma node_sim_restart:
  assumes p: "persister load storable" and st: "case saved s of None \<Rightarrow> True | Some ps \<Rightarrow> storable ps"
    and new: "RaftImpl_new load ids i pol now (saved s) = Inr s'" and n: "node_sim P i s"
  shows "node_sim (P\<lparr>p_commit := (p_commit P)(i := 0)\<rparr>) i s'"
proof -
  obtain ps where ps: "load (saved s) = Inr ps" and s': "saved s' = saved s" "currentTerm s' = ps_currentTerm ps"
    "log_entries (mainLog s') = log_data (ps_log ps)" "log_lastIncludedIndex (mainLog s') = ps_lastIncludedIndex ps"
    "log_lastIncludedTerm (mainLog s') = ps_lastIncludedTerm ps" "lastIncludedIndex s' = ps_lastIncludedIndex ps"
    "lastIncludedTerm s' = ps_lastIncludedTerm ps" "snapshotData s' = ps_snapshotData ps"
    "pendingSnapshot s' = (ps_snapshotData ps \<noteq> '''')" "commitIndex s' = 0" "role s' = Follower" "peer_maps s'"
    by (rule RaftImpl_new_sim [OF new])
  have pl: "plain s" and od: "on_disk s" using n by (simp_all add: node_sim_def)
  have k: "ps_currentTerm ps = currentTerm s \<and> map wire_entry (log_data (ps_log ps)) = wlog s \<and>
      ps_snapshotData ps = '''' \<and> ps_lastIncludedIndex ps = 0 \<and> ps_lastIncludedTerm ps = 0"
  proof (cases "saved s")
    case None
    then have "ps = PersistentState_default" using persister.load_fresh [OF p] ps by simp
    with None od show ?thesis by (simp add: on_disk_def PersistentState_default_def wlog_def log_data_def log_new_def)
  next
    case (Some ps0)
    then obtain ps1 where "load (Some ps0) = Inr ps1" "same_state ps0 ps1" using persister.load_saved [OF p] st by auto
    with Some ps od show ?thesis by (simp add: on_disk_def same_state_def)
  qed
  then have w: "wlog s' = wlog s" by (simp add: wlog_def s')
  then have "length (log_entries (mainLog s')) = length (log_entries (mainLog s))" by (metis length_wlog)
  moreover have "contiguous 0 (log_entries (mainLog s'))"
    using pl w contiguous_wire [of 0 "log_entries (mainLog s')"] contiguous_wire [of 0 "log_entries (mainLog s)"]
    by (simp add: plain_def wlog_def)
  ultimately have "plain s'" using pl k by (simp add: plain_def s')
  moreover have "on_disk s'"
    using od w k by (cases "saved s") (auto simp: on_disk_def s', simp add: wlog_def)
  ultimately show ?thesis using n w k by (simp add: node_sim_def s')
qed

lemma matched_reboot:
  assumes sm: "sim ids R P" and p: "persister load storable" and i: "i \<in> set ids"
    and st: "case saved (node R i) of None \<Rightarrow> True | Some ps \<Rightarrow> storable ps"
    and new: "RaftImpl_new load ids i pol now (saved (node R i)) = Inr s"
  shows "matched ids P (R\<lparr>core := (core R)\<lparr>nodes := (nodes (core R))(i := s),
      calls := (\<lambda>(a, b). if a = i then None else calls (core R) (a, b))\<rparr>,
      ae_calls := (\<lambda>(a, b). if a = i then None else ae_calls R (a, b)),
      sending := (\<lambda>(a, b). if a = i then False else sending R (a, b))\<rparr>)" (is "matched ids P ?R")
proof -
  note S = simD [OF sm]
  let ?P = "P\<lparr>p_commit := (p_commit P)(i := 0)\<rparr>"
  have lt: "later P ?P" by (simp add: later_def)
  have nodes: "node_sim ?P l (node ?R l)" if "l \<in> set ids" for l
  proof (cases "l = i")
    case True
    with node_sim_restart [OF p st new S(1) [OF i]] show ?thesis by simp
  next
    case False
    have "node_sim ?P l (node R l)" by (rule node_sim_later [OF lt _ S(1) [OF that]]) (simp add: same_at_def False)
    with False show ?thesis by simp
  qed
  have votes: "votes_sim ?P (core ?R)" by (rule votes_sim_later [OF S(2) lt]) simp_all
  have "ae_leaderId arg = l \<and> append_sim ?P arg \<and> unat n = Suc (unat (ae_prevLogIndex arg)) \<and> j \<in> set (peers (node ?R l))"
    if "ae_calls ?R (l, j) = Some (n, arg)" for l j n arg
  proof -
    from that have l: "l \<noteq> i" "ae_calls R (l, j) = Some (n, arg)" by (auto split: if_splits)
    from l(2) S(3) have "ae_leaderId arg = l \<and> append_sim P arg \<and> unat n = Suc (unat (ae_prevLogIndex arg)) \<and>
        j \<in> set (peers (node R l))" unfolding appends_sim_def by blast
    with l(1) append_sim_later [OF lt] show ?thesis by simp
  qed
  moreover have "append_sim ?P arg" if "(j, arg) \<in> appends ?R" for j arg
    using that S(3) append_sim_later [OF lt] unfolding appends_sim_def by simp
  moreover have "reply_sim ?P j arg r" if "(j, arg, r) \<in> ae_replies ?R" for j arg r
    using that S(3) reply_sim_later [OF lt] unfolding appends_sim_def by simp
  moreover have "\<not> sending ?R x" for x using sim_sending [OF sm] by (cases x) simp
  ultimately have "appends_sim ?P ?R" unfolding appends_sim_def by blast
  moreover have "applied_sim ?P ?R" using S(4) by (simp add: applied_sim_def)
  ultimately have "sim ids ?R ?P" using nodes votes by (simp add: sim_def)
  moreover have "protocol_step (majority_of ids) eterm P ?P" by (rule protocol_step.reboot)
  ultimately show ?thesis by (intro matched_step)
qed

section \<open>The simulation\<close>

text \<open>Every step of the cluster is a step of the protocol or none at all.\<close>

lemma repl_step_matched:
  assumes "repl_step load storable ids pol R R'" and p: "persister load storable" and len: "length ids < 256"
    and ok: "cluster_ok ids (core R)" and inv: "protocol_inv (majority_of ids) eterm P" and sm: "sim ids R P"
  shows "matched ids P R'"
  using assms(1)
proof (cases rule: repl_step.cases)
  case (voting C)
  have "cluster_ok ids C" by (rule cluster_ok_vote [OF voting(2) len ok])
  then show ?thesis unfolding voting(1) by (rule matched_vote [OF sm inv ok _ voting(2)])
next
  case (reboot i now s)
  show ?thesis unfolding reboot(1) by (rule matched_reboot [OF sm p reboot(2-4)])
next
  case (idle_turn i j b s)
  show ?thesis unfolding idle_turn(1) by (rule matched_idle [OF sm idle_turn(2,5)])
next
  case (send i j n arg b s)
  show ?thesis unfolding send(1) by (rule matched_send [OF sm ok send(2,3,5)])
next
  case (receive j arg junk t1 t2 r ap s)
  show ?thesis unfolding receive(1) by (rule matched_receive [OF sm inv receive(2-4)])
next
  case (answered i j n arg reply now nx s)
  show ?thesis unfolding answered(1) by (rule matched_answered [OF sm inv ok len answered(2-5)])
next
  case (submit i c ok' c' s)
  show ?thesis unfolding submit(1) by (rule matched_submit [OF sm submit(2-4)])
next
  case (feed i k c)
  show ?thesis unfolding feed(1) by (rule matched_feed [OF sm feed(2,3)])
qed (simp_all add: matched_same [OF sim_unseen [OF sm]])

lemma sim_init:
  assumes init: "repl_init load ids pol now R" and p: "persister load storable"
  shows "sim ids R protocol_init"
proof -
  have "node_sim protocol_init i (node R i)" if "i \<in> set ids" for i
  proof -
    have new: "RaftImpl_new load ids i pol (now i) None = Inr (node R i)"
      using init that unfolding repl_init_def cluster_init_def by blast
    obtain ps where ps: "load None = Inr ps" and s: "saved (node R i) = None" "currentTerm (node R i) = ps_currentTerm ps"
      "log_entries (mainLog (node R i)) = log_data (ps_log ps)" "log_lastIncludedIndex (mainLog (node R i)) = ps_lastIncludedIndex ps"
      "log_lastIncludedTerm (mainLog (node R i)) = ps_lastIncludedTerm ps" "lastIncludedIndex (node R i) = ps_lastIncludedIndex ps"
      "lastIncludedTerm (node R i) = ps_lastIncludedTerm ps" "snapshotData (node R i) = ps_snapshotData ps"
      "pendingSnapshot (node R i) = (ps_snapshotData ps \<noteq> '''')" "commitIndex (node R i) = 0"
      "role (node R i) = Follower" "peer_maps (node R i)"
      by (rule RaftImpl_new_sim [OF new])
    have "ps = PersistentState_default" using persister.load_fresh [OF p] ps by simp
    with s show ?thesis
      by (simp add: node_sim_def plain_def on_disk_def wlog_def protocol_init_def PersistentState_default_def
          log_data_def log_new_def)
  qed
  moreover have "requests (core R) = {}" "ballots (core R) = {}" "elected (core R) = {}" "ae_calls R = (\<lambda>_. None)"
    "sending R = (\<lambda>_. False)" "appends R = {}" "ae_replies R = {}" "applied R = {}"
    using init unfolding repl_init_def cluster_init_def by blast+
  ultimately show ?thesis
    by (simp add: sim_def votes_sim_def appends_sim_def applied_sim_def protocol_init_def)
qed

lemma repl_refines:
  assumes "repl_reach load storable ids pol R" and p: "persister load storable" and len: "length ids < 256"
  shows "\<exists>P. protocol_reach (majority_of ids) eterm P \<and> sim ids R P"
  using assms(1)
proof induction
  case (repl_start now R)
  show ?case using sim_init [OF repl_start p] protocol_start by blast
next
  case (repl_next R R')
  from repl_next.IH obtain P where P: "protocol_reach (majority_of ids) eterm P" "sim ids R P" by blast
  have ok: "cluster_ok ids (core R)" by (rule cluster_ok_reach [OF repl_reach_core [OF repl_next.hyps(1)] p len])
  have "matched ids P R'"
    by (rule repl_step_matched [OF repl_next.hyps(2) p len ok protocol_inv_reach [OF mj.quorums_axioms P(1)] P(2)])
  then show ?case unfolding matched_def using P(1) protocol_next by blast
qed

end
