(* ===== verification/Store.thy ===== *)
theory Store
  imports KvTypes
begin

text \<open>
  The storage component: the virtual interface \<open>StorageEngine\<close>
  (\<open>src/include/storage/StorageEngine.hpp\<close>) as a record of its four operations, the class
  \<open>InMemoryKVStore\<close> (\<open>src/storage/InMemoryKVStore.cpp\<close>) that implements it, the abstract
  versioned map that it implements, and the locale \<open>storage_engine\<close> that states the
  contract between the two. Every operation takes the store's lock for its whole body, so
  each is one atomic step of the store.
\<close>

section \<open>The interface\<close>

record 's engine =
  eng_get :: "'s \<Rightarrow> kv_key \<Rightarrow> Error + kv_value option"
  eng_set :: "'s \<Rightarrow> kv_key \<Rightarrow> kv_value \<Rightarrow> (Error + unit) \<times> 's"
  eng_erase :: "'s \<Rightarrow> kv_key \<Rightarrow> (Error + kv_value option) \<times> 's"
  eng_size :: "'s \<Rightarrow> u64"

section \<open>The in-memory store\<close>

type_synonym kv_store = "(kv_key, kv_value) umap"

definition empty_store :: kv_store where
  "empty_store = []"

definition store_get :: "kv_store \<Rightarrow> kv_key \<Rightarrow> Error + kv_value option" where
  "store_get st k = Inr (map_of st k)"

definition version_mismatch :: "kv_key \<Rightarrow> kv_value \<Rightarrow> kv_value \<Rightarrow> Error" where
  "version_mismatch k cur v =
     \<lparr>err_code = VersionMismatch,
      err_what = ''Version mismatch: expected '' @ to_string (val_version cur) @ '' but got ''
        @ to_string (val_version v),
      err_key = key_data k, err_value = val_data cur, err_version = val_version cur\<rparr>"

definition missing_key :: "kv_key \<Rightarrow> kv_value \<Rightarrow> Error" where
  "missing_key k v =
     \<lparr>err_code = KeyNotFound, err_what = ''Key does not exist, must use version 0 for new keys'',
      err_key = key_data k, err_value = val_data v, err_version = 0\<rparr>"

definition store_set :: "kv_store \<Rightarrow> kv_key \<Rightarrow> kv_value \<Rightarrow> (Error + unit) \<times> kv_store" where
  "store_set st k v =
     (case map_of st k of
        Some cur \<Rightarrow>
          if val_version v \<noteq> val_version cur then (Inl (version_mismatch k cur v), st)
          else (Inr (), AList.update k (mk_value (val_data v) (val_version cur + 1)) st)
      | None \<Rightarrow>
          if val_version v \<noteq> 0 then (Inl (missing_key k v), st)
          else (Inr (), AList.update k (mk_value (val_data v) 1) st))"

definition store_erase :: "kv_store \<Rightarrow> kv_key \<Rightarrow> (Error + kv_value option) \<times> kv_store" where
  "store_erase st k =
     (case map_of st k of
        None \<Rightarrow> (Inr None, st)
      | Some v \<Rightarrow> (Inr (Some v), AList.delete k st))"

definition store_size :: "kv_store \<Rightarrow> u64" where
  "store_size st = of_nat (length st)"

definition InMemoryKVStore :: "kv_store engine" where
  "InMemoryKVStore = \<lparr>eng_get = store_get, eng_set = store_set, eng_erase = store_erase,
     eng_size = store_size\<rparr>"

text \<open>The keys of a hash map are distinct.\<close>

definition store_inv :: "kv_store \<Rightarrow> bool" where
  "store_inv st \<longleftrightarrow> distinct (map fst st)"

section \<open>The abstract versioned map\<close>

type_synonym kv_map = "kv_key \<rightharpoonup> kv_value"

text \<open>
  A set is a compare-and-swap: an absent key counts as version 0, a present key has the
  version of its value, and a set is accepted when it names that version.
\<close>

definition current_version :: "kv_map \<Rightarrow> kv_key \<Rightarrow> u64" where
  "current_version m k = (case m k of None \<Rightarrow> 0 | Some v \<Rightarrow> val_version v)"

definition cas_set :: "kv_map \<Rightarrow> kv_key \<Rightarrow> kv_value \<Rightarrow> kv_map" where
  "cas_set m k v =
     (if val_version v = current_version m k
      then m(k \<mapsto> mk_value (val_data v) (current_version m k + 1)) else m)"

definition cas_result :: "kv_map \<Rightarrow> kv_key \<Rightarrow> kv_value \<Rightarrow> Error + unit" where
  "cas_result m k v =
     (if val_version v = current_version m k then Inr ()
      else case m k of None \<Rightarrow> Inl (missing_key k v) | Some cur \<Rightarrow> Inl (version_mismatch k cur v))"

section \<open>The contract\<close>

locale storage_engine =
  fixes E :: "'s engine"
    and abs :: "'s \<Rightarrow> kv_map"
    and inv :: "'s \<Rightarrow> bool"
  assumes get_abs: "inv s \<Longrightarrow> eng_get E s k = Inr (abs s k)"
    and set_abs: "inv s \<Longrightarrow> abs (snd (eng_set E s k v)) = cas_set (abs s) k v"
    and set_result: "inv s \<Longrightarrow> fst (eng_set E s k v) = cas_result (abs s) k v"
    and set_inv: "inv s \<Longrightarrow> inv (snd (eng_set E s k v))"
    and erase_abs: "inv s \<Longrightarrow> abs (snd (eng_erase E s k)) = (abs s)(k := None)"
    and erase_result: "inv s \<Longrightarrow> fst (eng_erase E s k) = Inr (abs s k)"
    and erase_inv: "inv s \<Longrightarrow> inv (snd (eng_erase E s k))"
    and size_abs: "inv s \<Longrightarrow> eng_size E s = of_nat (card (dom (abs s)))"
    and finite_abs: "inv s \<Longrightarrow> finite (dom (abs s))"
begin

lemmas engine_laws = get_abs set_abs set_result set_inv erase_abs erase_result erase_inv size_abs

lemma get_after_set:
  assumes "inv s" and "fst (eng_set E s k v) = Inr ()"
  shows "eng_get E (snd (eng_set E s k v)) k = Inr (Some (mk_value (val_data v) (val_version v + 1)))"
  using assms by (simp add: engine_laws cas_result_def cas_set_def split: if_splits option.splits)

lemma set_frame:
  assumes "inv s" and "k' \<noteq> k"
  shows "eng_get E (snd (eng_set E s k v)) k' = eng_get E s k'"
  using assms by (simp add: engine_laws cas_set_def)

lemma set_error_keeps:
  assumes "inv s" and "fst (eng_set E s k v) = Inl e"
  shows "abs (snd (eng_set E s k v)) = abs s"
  using assms by (simp add: engine_laws cas_result_def cas_set_def split: if_splits option.splits)

text \<open>A set that was accepted is not accepted a second time.\<close>

lemma set_once:
  assumes inv: "inv s" and acc: "fst (eng_set E s k v) = Inr ()"
  shows "\<exists>cur. fst (eng_set E (snd (eng_set E s k v)) k v) = Inl (version_mismatch k cur v)"
proof -
  from inv acc have v: "val_version v = current_version (abs s) k"
    by (simp add: engine_laws cas_result_def split: if_splits option.splits)
  have "val_version v \<noteq> val_version v + 1"
    by (metis add_cancel_left_right zero_neq_one)
  with inv v show ?thesis
    by (auto simp: engine_laws cas_result_def cas_set_def current_version_def mk_value_def)
qed

lemma erase_gone:
  assumes "inv s"
  shows "eng_get E (snd (eng_erase E s k)) k = Inr None"
  using assms by (simp add: engine_laws)

end

section \<open>The in-memory store meets the contract\<close>

lemma store_inv_empty: "store_inv empty_store"
  by (simp add: store_inv_def empty_store_def)

lemma store_abs_set: "map_of (snd (store_set st k v)) = cas_set (map_of st) k v"
  by (auto simp: store_set_def cas_set_def current_version_def split: option.splits)

lemma store_set_result: "fst (store_set st k v) = cas_result (map_of st) k v"
  by (auto simp: store_set_def cas_result_def current_version_def split: option.splits)

lemma store_abs_erase: "map_of (snd (store_erase st k)) = (map_of st)(k := None)"
  by (auto simp: store_erase_def delete_conv split: option.splits)

lemma store_size_card: "store_inv st \<Longrightarrow> store_size st = of_nat (card (dom (map_of st)))"
  by (simp add: store_size_def store_inv_def dom_map_of_conv_image_fst distinct_card
        flip: set_map)

interpretation mem: storage_engine InMemoryKVStore map_of store_inv
proof unfold_locales
  fix st :: kv_store and k v
  assume i: "store_inv st"
  show "eng_get InMemoryKVStore st k = Inr (map_of st k)"
    by (simp add: InMemoryKVStore_def store_get_def)
  show "map_of (snd (eng_set InMemoryKVStore st k v)) = cas_set (map_of st) k v"
    by (simp add: InMemoryKVStore_def store_abs_set)
  show "fst (eng_set InMemoryKVStore st k v) = cas_result (map_of st) k v"
    by (simp add: InMemoryKVStore_def store_set_result)
  show "store_inv (snd (eng_set InMemoryKVStore st k v))"
    using i by (auto simp: InMemoryKVStore_def store_set_def store_inv_def distinct_update
        split: option.splits)
  show "map_of (snd (eng_erase InMemoryKVStore st k)) = (map_of st)(k := None)"
    by (simp add: InMemoryKVStore_def store_abs_erase)
  show "fst (eng_erase InMemoryKVStore st k) = Inr (map_of st k)"
    by (simp add: InMemoryKVStore_def store_erase_def split: option.splits)
  show "store_inv (snd (eng_erase InMemoryKVStore st k))"
    using i by (auto simp: InMemoryKVStore_def store_erase_def store_inv_def distinct_delete
        split: option.splits)
  show "eng_size InMemoryKVStore st = of_nat (card (dom (map_of st)))"
    using i by (simp add: InMemoryKVStore_def store_size_card)
  show "finite (dom (map_of st))"
    by (rule finite_dom_map_of)
qed

end
