(* ===== verification/KvMachine.thy ===== *)
theory KvMachine
  imports Store Commands
begin

text \<open>
  \<open>src/common/KVStateMachine.cpp\<close> and the \<open>apply\<close> methods of
  \<open>src/common/Command.cpp\<close>: the replicated key-value state machine. It is written against
  an arbitrary storage engine, as the class is; the contract \<open>storage_engine\<close> gives what
  applying a command does to the abstract map, and the interpretation \<open>mem\<close> instantiates it
  for \<open>InMemoryKVStore\<close>.
\<close>

section \<open>The state machine\<close>

definition machine_get :: "'s engine \<Rightarrow> 's \<Rightarrow> kv_key \<Rightarrow> kv_state" where
  "machine_get E s k = State_value k (eng_get E s k)"

definition machine_set :: "'s engine \<Rightarrow> 's \<Rightarrow> kv_key \<Rightarrow> kv_value \<Rightarrow> kv_state \<times> 's" where
  "machine_set E s k v = (let r = eng_set E s k v in (State_mono k (fst r), snd r))"

definition machine_erase :: "'s engine \<Rightarrow> 's \<Rightarrow> kv_key \<Rightarrow> kv_state \<times> 's" where
  "machine_erase E s k = (let r = eng_erase E s k in (State_value k (fst r), snd r))"

definition machine_size :: "'s engine \<Rightarrow> 's \<Rightarrow> kv_state" where
  "machine_size E s = State_size (eng_size E s)"

text \<open>\<open>snapshot\<close> returns a null pointer and \<open>installSnapshot\<close> has an empty body.\<close>

definition machine_snapshot :: "'s \<Rightarrow> command option" where
  "machine_snapshot s = None"

definition machine_installSnapshot :: "'s \<Rightarrow> command \<Rightarrow> 's" where
  "machine_installSnapshot s c = s"

section \<open>Applying commands\<close>

definition Get_apply :: "'s engine \<Rightarrow> 's \<Rightarrow> kv_key \<Rightarrow> (kv_state \<times> 's) outcome" where
  "Get_apply E s k = Inr (machine_get E s k, s)"

definition Set_apply :: "'s engine \<Rightarrow> 's \<Rightarrow> kv_key \<Rightarrow> kv_value \<Rightarrow> (kv_state \<times> 's) outcome" where
  "Set_apply E s k v = Inr (machine_set E s k v)"

definition Erase_apply :: "'s engine \<Rightarrow> 's \<Rightarrow> kv_key \<Rightarrow> (kv_state \<times> 's) outcome" where
  "Erase_apply E s k = Inr (machine_erase E s k)"

definition Size_apply :: "'s engine \<Rightarrow> 's \<Rightarrow> (kv_state \<times> 's) outcome" where
  "Size_apply E s = Inr (machine_size E s, s)"

definition TestCommand_apply :: "cmd_hdr \<Rightarrow> 's \<Rightarrow> (kv_state \<times> 's) outcome" where
  "TestCommand_apply h s = Inr (State_size (hdr_index h), s)"

definition RmsCommand_apply :: "'s \<Rightarrow> (kv_state \<times> 's) outcome" where
  "RmsCommand_apply s = Inl (RuntimeError ''Not Implemented. Think about it!'')"

definition NoOp_apply :: "'s \<Rightarrow> (kv_state \<times> 's) outcome" where
  "NoOp_apply s = Inr (State_size 0, s)"

definition InstallSnapshotCommand_apply :: "'s \<Rightarrow> command \<Rightarrow> (kv_state \<times> 's) outcome" where
  "InstallSnapshotCommand_apply s c = Inr (State_size 0, machine_installSnapshot s c)"

fun applyCommand :: "'s engine \<Rightarrow> 's \<Rightarrow> command \<Rightarrow> (kv_state \<times> 's) outcome" where
  "applyCommand E s (CGet h k) = Get_apply E s k"
| "applyCommand E s (CSet h k v) = Set_apply E s k v"
| "applyCommand E s (CErase h k) = Erase_apply E s k"
| "applyCommand E s (CSize h) = Size_apply E s"
| "applyCommand E s (CTest h d) = TestCommand_apply h s"
| "applyCommand E s (CRms h d) = RmsCommand_apply s"
| "applyCommand E s (CNoOp h) = NoOp_apply s"
| "applyCommand E s (CInstallSnapshot h i t d) =
     InstallSnapshotCommand_apply s (CInstallSnapshot h i t d)"

text \<open>The log's commands in order, as the consumer thread applies them.\<close>

fun applyCommands :: "'s engine \<Rightarrow> 's \<Rightarrow> command list \<Rightarrow> (kv_state list \<times> 's) outcome" where
  "applyCommands E s [] = Inr ([], s)"
| "applyCommands E s (c # cs) =
     bind_outcome (applyCommand E s c) (\<lambda>(r, s').
       bind_outcome (applyCommands E s' cs) (\<lambda>(rs, s''). Inr (r # rs, s'')))"

lemmas apply_defs = Get_apply_def Set_apply_def Erase_apply_def Size_apply_def TestCommand_apply_def
  RmsCommand_apply_def NoOp_apply_def InstallSnapshotCommand_apply_def machine_get_def machine_set_def
  machine_erase_def machine_size_def machine_installSnapshot_def Let_def

section \<open>The specification\<close>

fun spec_map :: "kv_map \<Rightarrow> command \<Rightarrow> kv_map" where
  "spec_map m (CSet h k v) = cas_set m k v"
| "spec_map m (CErase h k) = m(k := None)"
| "spec_map m _ = m"

fun spec_reply :: "kv_map \<Rightarrow> command \<Rightarrow> kv_state" where
  "spec_reply m (CGet h k) = \<lparr>st_key = Some k, st_u = UValue (m k)\<rparr>"
| "spec_reply m (CSet h k v) = State_mono k (cas_result m k v)"
| "spec_reply m (CErase h k) = \<lparr>st_key = Some k, st_u = UValue (m k)\<rparr>"
| "spec_reply m (CSize h) = State_size (of_nat (card (dom m)))"
| "spec_reply m (CTest h d) = State_size (hdr_index h)"
| "spec_reply m _ = State_size 0"

fun spec_replies :: "kv_map \<Rightarrow> command list \<Rightarrow> kv_state list" where
  "spec_replies m [] = []"
| "spec_replies m (c # cs) = spec_reply m c # spec_replies (spec_map m c) cs"

definition implemented :: "command \<Rightarrow> bool" where
  "implemented c \<longleftrightarrow> (\<forall>h d. c \<noteq> CRms h d)"

context storage_engine
begin

lemma applyCommand_refines:
  assumes "inv s" and "implemented c"
  shows "\<exists>s'. applyCommand E s c = Inr (spec_reply (abs s) c, s') \<and> inv s' \<and>
    abs s' = spec_map (abs s) c"
  using assms
  by (cases c) (auto simp: apply_defs implemented_def engine_laws State_value_def)

lemma applyCommands_refines:
  assumes "inv s" and "\<forall>c \<in> set cs. implemented c"
  shows "\<exists>s'. applyCommands E s cs = Inr (spec_replies (abs s) cs, s') \<and> inv s' \<and>
    abs s' = foldl spec_map (abs s) cs"
  using assms
proof (induction cs arbitrary: s)
  case Nil
  then show ?case by simp
next
  case (Cons c cs)
  from Cons.prems have "implemented c" by simp
  from applyCommand_refines [OF Cons.prems(1) this] obtain s1 where
    s1: "applyCommand E s c = Inr (spec_reply (abs s) c, s1)" "inv s1" "abs s1 = spec_map (abs s) c"
    by blast
  from Cons.IH [OF s1(2)] Cons.prems(2) obtain s2 where
    "applyCommands E s1 cs = Inr (spec_replies (abs s1) cs, s2)" "inv s2"
    "abs s2 = foldl spec_map (abs s1) cs"
    by auto
  with s1 show ?case by simp
qed

end

section \<open>The properties of the key-value state machine\<close>

text \<open>
  C14: applying a log of implemented commands to an \<open>InMemoryKVStore\<close> never throws, answers
  each command as the abstract versioned map does, and leaves the store with the map's
  contents, whatever order the hash table keeps its entries in.
\<close>

theorem kv_machine_refines_map:
  assumes "store_inv st" and "\<forall>c \<in> set cs. implemented c"
  shows "\<exists>st'. applyCommands InMemoryKVStore st cs = Inr (spec_replies (map_of st) cs, st') \<and>
    store_inv st' \<and> map_of st' = foldl spec_map (map_of st) cs"
  using assms by (rule mem.applyCommands_refines)

theorem kv_machine_refines_map_witness:
  "\<exists>st'. applyCommands InMemoryKVStore empty_store
       [Set_new zero_uuid (mk_key ''k'') (mk_value ''a'' 0), Get_new zero_uuid (mk_key ''k'')] =
     Inr ([State_mono (mk_key ''k'') (Inr ()), State_value (mk_key ''k'') (Inr (Some (mk_value ''a'' 1)))], st')"
  using kv_machine_refines_map [of empty_store "[Set_new zero_uuid (mk_key ''k'') (mk_value ''a'' 0),
      Get_new zero_uuid (mk_key ''k'')]"]
  by (auto simp: store_inv_def implemented_def Set_new_def Get_new_def empty_store_def cas_set_def
      cas_result_def current_version_def mk_value_def State_value_def)

text \<open>
  Replicas agree. Two stores with the same contents that apply the same log return the
  same answers and hold the same contents afterwards.
\<close>

theorem replicas_agree:
  assumes "store_inv st1" and "store_inv st2" and same: "map_of st1 = map_of st2"
    and impl: "\<forall>c \<in> set cs. implemented c"
  shows "\<exists>rs st1' st2'. applyCommands InMemoryKVStore st1 cs = Inr (rs, st1') \<and>
    applyCommands InMemoryKVStore st2 cs = Inr (rs, st2') \<and> map_of st1' = map_of st2'"
  using mem.applyCommands_refines [OF assms(1) impl] mem.applyCommands_refines [OF assms(2) impl] same
  by auto

theorem replicas_agree_witness:
  "\<exists>rs st1' st2'.
    applyCommands InMemoryKVStore [(mk_key ''a'', mk_value ''1'' 1), (mk_key ''b'', mk_value ''2'' 1)]
      [Size_new zero_uuid] = Inr (rs, st1') \<and>
    applyCommands InMemoryKVStore [(mk_key ''b'', mk_value ''2'' 1), (mk_key ''a'', mk_value ''1'' 1)]
      [Size_new zero_uuid] = Inr (rs, st2') \<and> map_of st1' = map_of st2'"
  by (rule replicas_agree) (auto simp: store_inv_def mk_key_def implemented_def Size_new_def)

text \<open>
  A set is applied at most once. When a set is accepted, the key holds the new data with
  the next version, and the same set (a retransmission that reaches the log again) is
  answered \<open>VersionMismatch\<close> and changes nothing.
\<close>

theorem set_applied_once:
  assumes inv: "store_inv st" and acc: "store_set st k v = (Inr (), st1)"
  shows "map_of st1 k = Some (mk_value (val_data v) (val_version v + 1))
    \<and> (\<exists>e st2. store_set st1 k v = (Inl e, st2) \<and> err_code e = VersionMismatch \<and> map_of st2 = map_of st1)"
proof -
  have s1: "snd (eng_set InMemoryKVStore st k v) = st1" "fst (eng_set InMemoryKVStore st k v) = Inr ()"
    using acc by (simp_all add: InMemoryKVStore_def)
  have i1: "store_inv st1" using mem.set_inv [OF inv, of k v] s1(1) by simp
  have "map_of st1 k = Some (mk_value (val_data v) (val_version v + 1))"
    using mem.get_after_set [OF inv s1(2)] s1(1) mem.get_abs [OF i1, of k] by simp
  moreover from mem.set_once [OF inv s1(2)] s1(1) obtain cur where
    again: "fst (eng_set InMemoryKVStore st1 k v) = Inl (version_mismatch k cur v)" by auto
  moreover from mem.set_error_keeps [OF i1 again]
  have "map_of (snd (eng_set InMemoryKVStore st1 k v)) = map_of st1" .
  ultimately show ?thesis
    by (cases "store_set st1 k v") (auto simp: InMemoryKVStore_def version_mismatch_def)
qed

theorem set_applied_once_witness:
  "map_of [(mk_key ''k'', mk_value ''x'' 1)] (mk_key ''k'') = Some (mk_value ''x'' (0 + 1)) \<and>
   (\<exists>e st2. store_set [(mk_key ''k'', mk_value ''x'' 1)] (mk_key ''k'') (mk_value ''x'' 0) = (Inl e, st2) \<and>
     err_code e = VersionMismatch \<and> map_of st2 = map_of [(mk_key ''k'', mk_value ''x'' 1)])"
  using set_applied_once [of empty_store "mk_key ''k''" "mk_value ''x'' 0" "[(mk_key ''k'', mk_value ''x'' 1)]"]
  by (simp add: store_inv_def store_set_def empty_store_def mk_value_def)

text \<open>
  No snapshot exists and none is restored. The state machine produces no snapshot, and
  applying a snapshot command leaves the store as it was, so a replica that was brought
  forward by a snapshot keeps its old contents.
\<close>

theorem snapshot_not_restored:
  "machine_snapshot st = None \<and>
   applyCommand InMemoryKVStore st (CInstallSnapshot h i t d) = Inr (State_size 0, st)"
  by (simp add: machine_snapshot_def apply_defs)

end
