(* ===== verification/RaftSafety.thy ===== *)
theory RaftSafety
  imports Replication KvMachine
begin

text \<open>
  What the simulation of the theory \<open>Replication\<close> gives for the servers of
  \<open>src/include/raft/RaftImpl.hpp\<close> and the state machine of
  \<open>src/common/KVStateMachine.cpp\<close>: the guarantees of Raft, for every reachable state of a
  cluster whose network loses, delays, duplicates and reorders messages and whose servers crash
  and restart; and a run of two servers that replicates a command.
\<close>

section \<open>From the protocol to the servers\<close>

lemma repl_protocol:
  assumes "repl_reach load storable ids pol R" and "persister load storable" and "length ids < 256"
  obtains P where "protocol_inv (majority_of ids) eterm P" "sim ids R P"
  using repl_refines [OF assms] protocol_inv_reach [OF mj.quorums_axioms] by blast

lemma node_simD:
  assumes "node_sim P i s"
  shows "plain s" "wlog s = p_log P i" "unat (commitIndex s) = p_commit P i" "unat (currentTerm s) = p_term P i"
    "length (p_log P i) = length (log_entries (mainLog s))"
  using assms length_wlog [of s] by (simp_all add: node_sim_def)

text \<open>Equal prefixes of the logs are equal answers of \<open>Log::at\<close>, up to the header fields the wire drops.\<close>

definition same_at :: "raft_log \<Rightarrow> raft_log \<Rightarrow> u64 \<Rightarrow> bool" where
  "same_at l l' k \<longleftrightarrow> map_option wire_entry (log_at l k) = map_option wire_entry (log_at l' k)"

lemma same_at_take:
  assumes "plain s" and "plain s'" and "take n (wlog s) = take n (wlog s')" and "unat k \<le> n"
  shows "same_at (mainLog s) (mainLog s') k"
proof (cases "unat k = 0")
  case False
  let ?k = "unat k - 1"
  have k: "?k < n" "Suc ?k = unat k" using False assms(4) by auto
  have len: "?k < length (wlog s) \<longleftrightarrow> ?k < length (wlog s')"
    using arg_cong [OF assms(3), of length] k(1) by (auto simp: min_def split: if_splits)
  have "wlog s ! ?k = wlog s' ! ?k" using arg_cong [OF assms(3), of "\<lambda>xs. xs ! ?k"] k(1) by simp
  with len k show ?thesis
    by (auto simp: same_at_def plain_at [OF assms(1)] plain_at [OF assms(2)] wlog_def)
qed (simp add: same_at_def plain_at [OF assms(1)] plain_at [OF assms(2)])

lemma plain_entry:
  assumes "plain s" and "log_at (mainLog s) k = Some e"
  shows "unat k - 1 < length (wlog s)" "Suc (unat k - 1) = unat k" "eterm (wlog s ! (unat k - 1)) = unat (le_term e)"
  using assms(2) by (auto simp: plain_at [OF assms(1)] wlog_def eterm_def split: if_splits)

section \<open>The guarantees\<close>

text \<open>
  C5: the servers implement Raft. Every reachable state of the cluster corresponds to a
  reachable state of the protocol, and every step it can take is a step of the protocol or none.
\<close>

theorem cluster_refines_raft:
  assumes "repl_reach load storable ids pol R" and "persister load storable" and "length ids < 256"
  shows "\<exists>P. protocol_reach (majority_of ids) eterm P \<and> sim ids R P \<and>
    (\<forall>R'. repl_step load storable ids pol R R' \<longrightarrow>
      (\<exists>P'. (P' = P \<or> protocol_step (majority_of ids) eterm P P') \<and> sim ids R' P'))"
proof -
  obtain P where P: "protocol_reach (majority_of ids) eterm P" "sim ids R P" using repl_refines [OF assms] by blast
  have ok: "cluster_ok ids (core R)" by (rule cluster_ok_reach [OF repl_reach_core [OF assms(1)] assms(2,3)])
  note inv = protocol_inv_reach [OF mj.quorums_axioms P(1)]
  have "matched ids P R'" if "repl_step load storable ids pol R R'" for R'
    by (rule repl_step_matched [OF that assms(2,3) ok inv P(2)])
  with P show ?thesis unfolding matched_def by blast
qed

text \<open>
  C4: log matching. If the logs of two servers hold entries of the same term at an index, they
  hold the same entries at every index up to it.
\<close>

theorem log_matching:
  assumes "repl_reach load storable ids pol R" and "persister load storable" and "length ids < 256"
    and "i \<in> set ids" and "j \<in> set ids"
    and "log_at (mainLog (node R i)) k = Some e" and "log_at (mainLog (node R j)) k = Some e'" and "le_term e = le_term e'"
    and "m \<le> k"
  shows "same_at (mainLog (node R i)) (mainLog (node R j)) m"
proof -
  obtain P where inv: "protocol_inv (majority_of ids) eterm P" and sm: "sim ids R P"
    by (rule repl_protocol [OF assms(1-3)])
  note I = node_simD [OF simD(1) [OF sm assms(4)]] and J = node_simD [OF simD(1) [OF sm assms(5)]]
  note a = plain_entry [OF I(1) assms(6)] and b = plain_entry [OF J(1) assms(7)]
  have "take (Suc (unat k - 1)) (p_log P i) = take (Suc (unat k - 1)) (p_log P j)"
    by (rule mj.logs_match [OF inv]) (use a b assms(8) I(2) J(2) in simp_all)
  then have "take (unat k) (wlog (node R i)) = take (unat k) (wlog (node R j))" using a(2) I(2) J(2) by simp
  then show ?thesis by (rule same_at_take [OF I(1) J(1)]) (use assms(9) in \<open>simp add: word_le_nat_alt\<close>)
qed

text \<open>
  C3: leader completeness. What a server has committed is in the log of every leader whose
  term is not older, at the same index.
\<close>

theorem leader_completeness:
  assumes "repl_reach load storable ids pol R" and "persister load storable" and "length ids < 256"
    and "i \<in> set ids" and "j \<in> set ids" and "role (node R i) = Leader"
    and "currentTerm (node R j) \<le> currentTerm (node R i)" and "k \<le> commitIndex (node R j)"
  shows "same_at (mainLog (node R j)) (mainLog (node R i)) k"
proof -
  obtain P where inv: "protocol_inv (majority_of ids) eterm P" and sm: "sim ids R P"
    by (rule repl_protocol [OF assms(1-3)])
  note n = simD(1) [OF sm assms(4)]
  note I = node_simD [OF n] and J = node_simD [OF simD(1) [OF sm assms(5)]]
  from n assms(6) obtain ws where ws: "p_won P (i, p_term P i) = Some ws" by (auto simp: node_sim_def leader_sim_def)
  have "p_term P j \<le> p_term P i" using assms(7) I(4) J(4) by (simp add: word_le_nat_alt)
  from mj.leader_holds [OF inv ws this]
  have pre: "prefix (take (p_commit P j) (p_log P j)) (p_log P i)" .
  have "p_commit P j \<le> length (p_log P j)"
    using protocol_invD(8) [OF inv] unfolding commit_inv_def committed_prefix_def by blast
  with pre have "take (p_commit P j) (p_log P j) = take (p_commit P j) (p_log P i)" by (simp add: prefix_take_iff)
  then have "take (p_commit P j) (wlog (node R j)) = take (p_commit P j) (wlog (node R i))" using I(2) J(2) by simp
  then show ?thesis
    by (rule same_at_take [OF J(1) I(1)]) (use assms(8) J(3) in \<open>simp add: word_le_nat_alt\<close>)
qed

lemma wire_entry_uuid:
  assumes "wire_entry a = wire_entry b"
  shows "getUUID (le_command a) = getUUID (le_command b)"
proof -
  have "getUUID (with_header (wire_header c) c) = getUUID c" for c by (cases c) (simp_all add: getUUID_def)
  moreover have "le_command (wire_entry a) = le_command (wire_entry b)" using assms by simp
  ultimately show ?thesis by (simp add: wire_entry_def) metis
qed

text \<open>
  C2: state machine safety. Two servers that hand a command to their state machines at the
  same index hand over the same command, with the same request identifier.
\<close>

theorem state_machine_safety:
  assumes "repl_reach load storable ids pol R" and "persister load storable" and "length ids < 256"
    and "(i, k, c) \<in> applied R" and "(j, k, c') \<in> applied R"
  shows "command_eq c c' \<and> getUUID c = getUUID c'"
proof -
  obtain P where inv: "protocol_inv (majority_of ids) eterm P" and sm: "sim ids R P"
    by (rule repl_protocol [OF assms(1-3)])
  obtain e where e: "(i, unat k - 1, wire_entry e) \<in> p_applied P" "le_command e = c"
    using simD(4) [OF sm] assms(4) unfolding applied_sim_def by blast
  obtain e' where e': "(j, unat k - 1, wire_entry e') \<in> p_applied P" "le_command e' = c'"
    using simD(4) [OF sm] assms(5) unfolding applied_sim_def by blast
  have "wire_entry e = wire_entry e'" using mj.applied_agree [OF inv e(1) e'(1)] by simp
  with wire_entry_eqD [OF this] wire_entry_uuid [OF this] e(2) e'(2) show ?thesis by (simp add: entry_eq_def)
qed

lemma applyCommand_wire: "applyCommand E st (with_header (wire_header c) c) = applyCommand E st c"
  by (cases c) (simp_all add: apply_defs)

lemma applyCommands_wire:
  "applyCommands E st (map (\<lambda>c. with_header (wire_header c) c) cs) = applyCommands E st cs"
  by (induction cs arbitrary: st) (simp_all add: applyCommand_wire)

lemma wire_commands: "map (\<lambda>c. with_header (wire_header c) c) (map le_command es) = map le_command (map wire_entry es)"
  by (simp add: wire_entry_def)

text \<open>
  C6: replicas agree. The commands two servers have both committed bring any storage engine to
  the same state with the same answers.
\<close>

theorem committed_same_store:
  assumes "repl_reach load storable ids pol R" and "persister load storable" and "length ids < 256"
    and "i \<in> set ids" and "j \<in> set ids" and "m \<le> commitIndex (node R i)" and "m \<le> commitIndex (node R j)"
  shows "applyCommands E st (commands_between (mainLog (node R i)) 0 m) =
    applyCommands E st (commands_between (mainLog (node R j)) 0 m)"
proof -
  obtain P where inv: "protocol_inv (majority_of ids) eterm P" and sm: "sim ids R P"
    by (rule repl_protocol [OF assms(1-3)])
  note I = node_simD [OF simD(1) [OF sm assms(4)]] and J = node_simD [OF simD(1) [OF sm assms(5)]]
  have "take (unat m) (p_log P i) = take (unat m) (p_log P j)"
    by (rule mj.commits_agree [OF inv]) (use assms(6,7) I(3) J(3) in \<open>simp_all add: word_le_nat_alt\<close>)
  then have eq: "map wire_entry (take (unat m) (log_entries (mainLog (node R i)))) =
      map wire_entry (take (unat m) (log_entries (mainLog (node R j))))"
    using I(2) J(2) by (metis take_map wlog_def)
  have cb: "commands_between (mainLog (node R l)) 0 m = map le_command (take (unat m) (log_entries (mainLog (node R l))))" for l
    by (simp add: commands_between_def)
  show ?thesis
    using applyCommands_wire [of E st "commands_between (mainLog (node R i)) 0 m"]
      applyCommands_wire [of E st "commands_between (mainLog (node R j)) 0 m"]
    unfolding cb wire_commands eq by simp
qed

section \<open>A run of two servers\<close>

text \<open>
  The server \<open>a\<close> is elected as in \<open>RaftElection\<close>, takes a command, sends it to \<open>b\<close>, commits it,
  and tells \<open>b\<close> with its next message; both hand it to their state machines.
\<close>

definition run_leader :: raft where
  "run_leader = requestVote_reply 0 ''b'' vote_arg (Some \<lparr>rvr_voteGranted = True, rvr_term = 1\<rparr>) asking_a"

definition run_voter :: raft where
  "run_voter = snd (requestVoteHandler 0 0 vote_arg (fresh ''b''))"

definition run_started :: raft where
  "run_started = snd (snd (start (NoOp_new zero_uuid) run_leader))"

definition run_arg1 :: AppendEntriesArg where
  "run_arg1 = mk_AppendEntriesArg ''a'' 1 0 0 0 (mainLog run_started)"

definition run_sent1 :: raft where
  "run_sent1 = run_started\<lparr>stopCalls := False\<rparr>"

definition run_stored :: "AppendEntriesReply \<times> bool \<times> raft" where
  "run_stored = appendEntriesHandler (0, 0) 0 0 (wire_arg run_arg1) run_voter"

definition run_committed :: raft where
  "run_committed = snd (projr (appendEntries_reply 0 ''b'' 1 run_arg1 (Some (fst run_stored)) run_sent1))"

definition run_arg2 :: AppendEntriesArg where
  "run_arg2 = mk_AppendEntriesArg ''a'' 1 1 1 1 log_new"

definition run_sent2 :: raft where
  "run_sent2 = run_committed\<lparr>stopCalls := False\<rparr>"

definition run_told :: "AppendEntriesReply \<times> bool \<times> raft" where
  "run_told = appendEntriesHandler (0, 0) 0 0 (wire_arg run_arg2) (snd (snd run_stored))"

lemma run_send1:
  "appendEntries_begin sample_load ''b'' False run_started = Inr (AeAppend 1 run_arg1, False, run_sent1)"
  by code_simp

lemma run_commits:
  "appendEntries_reply 0 ''b'' 1 run_arg1 (Some (fst run_stored)) run_sent1 = Inr (AeApplyFinish, run_committed)"
  by code_simp

lemma run_send2:
  "appendEntries_begin sample_load ''b'' False run_committed = Inr (AeAppend 2 run_arg2, False, run_sent2)"
  by code_simp

lemma run_room: "log_lastIndex (mainLog run_leader) < - 2"
  by code_simp

lemma run_peers: "peers run_leader = [''b'']" "peers run_started = [''b'']" "peers run_committed = [''b'']"
  by code_simp+

lemma run_applies_a: "map_option fst (apply_next run_committed) = Some 1"
  by code_simp

lemma run_applies_b: "map_option fst (apply_next (snd (snd run_told))) = Some 1"
  by code_simp

lemma run_end:
  "role run_sent2 = Leader" "currentTerm run_sent2 = 1" "currentTerm (snd (snd run_told)) = 1"
  "commitIndex run_sent2 = 1" "commitIndex (snd (snd run_told)) = 1"
  "map_option le_term (log_at (mainLog run_sent2) 1) = Some 1"
  "map_option le_term (log_at (mainLog (snd (snd run_told))) 1) = Some 1"
  by code_simp+

abbreviation run_reach :: "repl \<Rightarrow> bool" where
  "run_reach \<equiv> repl_reach sample_load sample_ok [''a'', ''b''] sample_policy"

abbreviation run_step :: "repl \<Rightarrow> repl \<Rightarrow> bool" where
  "run_step \<equiv> repl_step sample_load sample_ok [''a'', ''b''] sample_policy"

text \<open>The election, and no message but its own.\<close>

definition run_elected :: "repl \<Rightarrow> bool" where
  "run_elected R \<longleftrightarrow> run_reach R \<and> node R ''a'' = run_leader \<and> node R ''b'' = run_voter \<and>
     ae_calls R = (\<lambda>_. None) \<and> sending R = (\<lambda>_. False) \<and> calls (core R) (''b'', ''a'') = None"

lemma run_votes:
  assumes "run_reach R" and "vote_step [''a'', ''b''] (core R) C"
  shows "run_reach (R\<lparr>core := C\<rparr>)"
  by (rule repl_next [OF assms(1) repl_step.voting [OF assms(2)]])

lemma run_election: "\<exists>R. run_elected R"
proof -
  let ?C0 = "\<lparr>nodes = fresh, calls = (\<lambda>_. None), requests = {}, replies = {}, ballots = {}, elected = {}\<rparr>"
  let ?R = "\<lambda>C. \<lparr>core = C, ae_calls = (\<lambda>_. None), sending = (\<lambda>_. False), appends = {}, ae_replies = {}, applied = {}\<rparr>"
  let ?r = "\<lparr>rvr_voteGranted = True, rvr_term = 1\<rparr>"
  have "repl_init sample_load [''a'', ''b''] sample_policy (\<lambda>_. 0) (?R ?C0)"
    by (simp add: repl_init_def cluster_init_def RaftImpl_new_fresh)
  then have r0: "run_reach (?R ?C0)" by (rule repl_start)
  have go: "run_reach (?R C')" if "run_reach (?R C)" "vote_step [''a'', ''b''] C C'" for C C'
    using run_votes [OF that(1), of C'] that(2) by simp
  obtain C1 where r1: "run_reach (?R C1)" and C1: "nodes C1 ''a'' = candidate_a" "nodes C1 ''b'' = fresh ''b''"
      "calls C1 = (\<lambda>_. None)"
    using go [OF r0 vote_step.timeout [of "''a''" "[''a'', ''b'']" ?C0 candidate_a 1200000000]]
    by (simp add: fresh_fields candidate_a_def)
  obtain C2 where r2: "run_reach (?R C2)" and C2: "nodes C2 ''a'' = asking_a" "nodes C2 ''b'' = fresh ''b''"
      "calls C2 (''a'', ''b'') = Some vote_arg" "(''b'', vote_arg) \<in> requests C2" "calls C2 (''b'', ''a'') = None"
    using go [OF r1 vote_step.call [of "''a''" "[''a'', ''b'']" "''b''" C1 vote_arg asking_a]]
    by (simp add: C1 candidate_a_fields candidate_a_asks)
  have h: "requestVoteHandler 0 0 vote_arg (nodes C2 ''b'') = (?r, run_voter)"
    using fresh_b_votes C2(2) by (simp add: run_voter_def prod_eq_iff)
  obtain C3 where r3: "run_reach (?R C3)" and C3: "nodes C3 ''a'' = asking_a" "nodes C3 ''b'' = run_voter"
      "calls C3 (''a'', ''b'') = Some vote_arg" "(''b'', vote_arg, ?r) \<in> replies C3" "calls C3 (''b'', ''a'') = None"
    using go [OF r2 vote_step.deliver [OF _ C2(4) h, of "[''a'', ''b'']"]] C2 by simp
  obtain C4 where r4: "run_reach (?R C4)" and C4: "nodes C4 ''a'' = run_leader" "nodes C4 ''b'' = run_voter"
      "calls C4 (''b'', ''a'') = None"
    using go [OF r3 vote_step.return [of "''a''" "[''a'', ''b'']" C3 "''b''" vote_arg "Some ?r" run_leader 0]] C3
    by (simp add: run_leader_def)
  from r4 C4 have "run_elected (?R C4)" by (simp add: run_elected_def)
  then show ?thesis by blast
qed

lemma run_go: "run_reach R \<Longrightarrow> run_step R R' \<Longrightarrow> run_reach R'"
  by (rule repl_next)

text \<open>The command is stored by both servers and committed at its leader.\<close>

lemma run_commit:
  "\<exists>R. run_reach R \<and> node R ''a'' = run_committed \<and> node R ''b'' = snd (snd run_stored) \<and>
     ae_calls R (''a'', ''b'') = None \<and> \<not> sending R (''a'', ''b'')"
proof -
  obtain R0 where "run_elected R0" using run_election by blast
  then have r0: "run_reach R0" and R0: "node R0 ''a'' = run_leader" "node R0 ''b'' = run_voter"
    "ae_calls R0 = (\<lambda>_. None)" "sending R0 = (\<lambda>_. False)" unfolding run_elected_def by blast+
  have st: "start (NoOp_new zero_uuid) (node R0 ''a'') =
      (fst (start (NoOp_new zero_uuid) run_leader), fst (snd (start (NoOp_new zero_uuid) run_leader)), run_started)"
    by (simp add: R0 run_started_def)
  define R1 where "R1 = set_node ''a'' run_started R0"
  have r1: "run_reach R1"
    unfolding R1_def by (rule run_go [OF r0 repl_step.submit [OF _ _ st]]) (simp_all add: R0 run_room)
  define R2 where "R2 = set_node ''a'' run_sent1 (R1\<lparr>sending := (sending R1)((''a'', ''b'') := False),
      ae_calls := (ae_calls R1)((''a'', ''b'') := Some (1, run_arg1)), appends := insert (''b'', run_arg1) (appends R1)\<rparr>)"
  have r2: "run_reach R2" unfolding R2_def
    by (rule run_go [OF r1 repl_step.send]) (simp_all add: R1_def set_node_def R0 run_send1 run_peers)
  define R3 where "R3 = set_node ''b'' (snd (snd run_stored))
      (R2\<lparr>ae_replies := insert (''b'', run_arg1, fst run_stored) (ae_replies R2)\<rparr>)"
  have h: "appendEntriesHandler (0, 0) 0 0 (wire_arg run_arg1) (node R2 ''b'') =
      (fst run_stored, fst (snd run_stored), snd (snd run_stored))"
    by (simp add: R2_def R1_def set_node_def R0 run_stored_def)
  have r3: "run_reach R3" unfolding R3_def
    by (rule run_go [OF r2 repl_step.receive [OF _ _ h]]) (simp_all add: R2_def set_node_def)
  define R4 where "R4 = set_node ''a'' run_committed (R3\<lparr>ae_calls := (ae_calls R3)((''a'', ''b'') := None)\<rparr>)"
  have r4: "run_reach R4" unfolding R4_def
    by (rule run_go [OF r3 repl_step.answered [where n=1 and arg=run_arg1 and reply="Some (fst run_stored)" and now=0]])
      (simp_all add: R3_def R2_def set_node_def run_commits)
  have "node R4 ''a'' = run_committed" "node R4 ''b'' = snd (snd run_stored)" "ae_calls R4 (''a'', ''b'') = None"
    "\<not> sending R4 (''a'', ''b'')"
    by (simp_all add: R4_def R3_def R2_def R1_def set_node_def)
  with r4 show ?thesis by blast
qed

text \<open>The second message tells the follower, and both apply the command.\<close>

lemma run_apply:
  "\<exists>R c c'. run_reach R \<and> node R ''a'' = run_sent2 \<and> node R ''b'' = snd (snd run_told) \<and>
     (''a'', 1, c) \<in> applied R \<and> (''b'', 1, c') \<in> applied R"
proof -
  obtain R0 where r0: "run_reach R0" and R0: "node R0 ''a'' = run_committed" "node R0 ''b'' = snd (snd run_stored)"
    "ae_calls R0 (''a'', ''b'') = None" "\<not> sending R0 (''a'', ''b'')" using run_commit by blast
  obtain c where c: "apply_next run_committed = Some (1, c)" using run_applies_a by auto
  obtain c' where c': "apply_next (snd (snd run_told)) = Some (1, c')" using run_applies_b by auto
  define R1 where "R1 = R0\<lparr>applied := insert (''a'', 1, c) (applied R0)\<rparr>"
  have r1: "run_reach R1"
    unfolding R1_def by (rule run_go [OF r0 repl_step.feed]) (simp_all add: R0 c)
  define R2 where "R2 = set_node ''a'' run_sent2 (R1\<lparr>sending := (sending R1)((''a'', ''b'') := False),
      ae_calls := (ae_calls R1)((''a'', ''b'') := Some (2, run_arg2)), appends := insert (''b'', run_arg2) (appends R1)\<rparr>)"
  have r2: "run_reach R2" unfolding R2_def
    by (rule run_go [OF r1 repl_step.send]) (use R0 in \<open>simp_all add: R1_def run_send2 run_peers\<close>)
  define R3 where "R3 = set_node ''b'' (snd (snd run_told))
      (R2\<lparr>ae_replies := insert (''b'', run_arg2, fst run_told) (ae_replies R2)\<rparr>)"
  have h: "appendEntriesHandler (0, 0) 0 0 (wire_arg run_arg2) (node R2 ''b'') =
      (fst run_told, fst (snd run_told), snd (snd run_told))"
    by (simp add: R2_def R1_def set_node_def R0 run_told_def)
  have r3: "run_reach R3" unfolding R3_def
    by (rule run_go [OF r2 repl_step.receive [OF _ _ h]]) (simp_all add: R2_def set_node_def)
  define R4 where "R4 = R3\<lparr>applied := insert (''b'', 1, c') (applied R3)\<rparr>"
  have r4: "run_reach R4"
    unfolding R4_def by (rule run_go [OF r3 repl_step.feed]) (simp_all add: R3_def set_node_def c')
  have "node R4 ''a'' = run_sent2" "node R4 ''b'' = snd (snd run_told)"
    "(''a'', 1, c) \<in> applied R4" "(''b'', 1, c') \<in> applied R4"
    by (simp_all add: R4_def R3_def R2_def R1_def set_node_def)
  with r4 show ?thesis by blast
qed

section \<open>Witnesses\<close>

theorem cluster_refines_raft_witness:
  "\<exists>R P. run_reach R \<and> role (node R ''a'') = Leader \<and> protocol_reach (majority_of [''a'', ''b'']) eterm P \<and>
     sim [''a'', ''b''] R P"
proof -
  obtain R where r: "run_reach R" and a: "node R ''a'' = run_sent2" using run_apply by blast
  from cluster_refines_raft [OF r gop.go.persister_axioms] a run_end(1) r show ?thesis by auto
qed

theorem log_matching_witness:
  "\<exists>R. run_reach R \<and> same_at (mainLog (node R ''a'')) (mainLog (node R ''b'')) 1 \<and>
     log_at (mainLog (node R ''a'')) 1 \<noteq> None"
proof -
  obtain R where r: "run_reach R" and n: "node R ''a'' = run_sent2" "node R ''b'' = snd (snd run_told)"
    using run_apply by blast
  obtain e e' where e: "log_at (mainLog run_sent2) 1 = Some e" "le_term e = 1"
    "log_at (mainLog (snd (snd run_told))) 1 = Some e'" "le_term e' = 1" using run_end(6,7) by auto
  have "same_at (mainLog (node R ''a'')) (mainLog (node R ''b'')) 1"
    by (rule log_matching [OF r gop.go.persister_axioms, where k=1 and e=e and e'=e']) (simp_all add: n e)
  with r n e show ?thesis by auto
qed

theorem leader_completeness_witness:
  "\<exists>R. run_reach R \<and> role (node R ''a'') = Leader \<and> commitIndex (node R ''b'') = 1 \<and>
     same_at (mainLog (node R ''b'')) (mainLog (node R ''a'')) 1"
proof -
  obtain R where r: "run_reach R" and n: "node R ''a'' = run_sent2" "node R ''b'' = snd (snd run_told)"
    using run_apply by blast
  have "same_at (mainLog (node R ''b'')) (mainLog (node R ''a'')) 1"
    by (rule leader_completeness [OF r gop.go.persister_axioms]) (simp_all add: n run_end)
  with r n run_end show ?thesis by auto
qed

theorem state_machine_safety_witness:
  "\<exists>R c c'. run_reach R \<and> (''a'', 1, c) \<in> applied R \<and> (''b'', 1, c') \<in> applied R \<and>
     command_eq c c' \<and> getUUID c = getUUID c'"
proof -
  obtain R c c' where r: "run_reach R" and ap: "(''a'', 1, c) \<in> applied R" "(''b'', 1, c') \<in> applied R"
    using run_apply by blast
  from state_machine_safety [OF r gop.go.persister_axioms _ ap] r ap show ?thesis by auto
qed

theorem committed_same_store_witness:
  "\<exists>R. run_reach R \<and> commitIndex (node R ''a'') = 1 \<and> commitIndex (node R ''b'') = 1 \<and>
     (\<forall>E st. applyCommands E st (commands_between (mainLog (node R ''a'')) 0 1) =
        applyCommands E st (commands_between (mainLog (node R ''b'')) 0 1))"
proof -
  obtain R where r: "run_reach R" and n: "node R ''a'' = run_sent2" "node R ''b'' = snd (snd run_told)"
    using run_apply by blast
  have "applyCommands E st (commands_between (mainLog (node R ''a'')) 0 1) =
      applyCommands E st (commands_between (mainLog (node R ''b'')) 0 1)" for E :: "'a engine" and st
    by (rule committed_same_store [OF r gop.go.persister_axioms]) (simp_all add: n run_end)
  with r n run_end show ?thesis by auto
qed

end
