(* ===== verification/SyncChan.thy ===== *)
theory SyncChan
  imports RaftServer
begin

text \<open>
  \<open>src/include/raft/Channel.hpp\<close> and \<open>src/include/raft/SyncChannel.hpp\<close>: the one-place
  channel between the Raft server and the state machine. An operation holds the mutex except
  while it waits on the condition variable; \<open>ws\<close> is the list of its wake-ups, each with
  whether the deadline has passed and the channel as the other threads left it. \<open>None\<close> as a
  result means that the operation is still waiting after these wake-ups.
\<close>

section \<open>Operations\<close>

record 'a chan =
  chan_value :: "'a option"
  chan_closed :: bool

definition chan_new :: "'a chan" where
  "chan_new = \<lparr>chan_value = None, chan_closed = False\<rparr>"

datatype ChannelError = Closed

text \<open>What an operation does with the mutex held: \<open>None\<close> if it has to wait.\<close>

definition try_send :: "'a \<Rightarrow> 'a chan \<Rightarrow> (bool \<times> 'a chan) option" where
  "try_send x ch =
     (if chan_value ch \<noteq> None \<and> \<not> chan_closed ch then None
      else if chan_closed ch then Some (False, ch)
      else Some (True, ch\<lparr>chan_value := Some x\<rparr>))"

definition try_receive :: "'a chan \<Rightarrow> ('a option \<times> 'a chan) option" where
  "try_receive ch =
     (if chan_value ch = None \<and> \<not> chan_closed ch then None
      else case chan_value ch of
        Some x \<Rightarrow> Some (Some x, ch\<lparr>chan_value := None\<rparr>)
      | None \<Rightarrow> Some (None, ch))"

fun chan_send :: "'a \<Rightarrow> 'a chan \<Rightarrow> 'a chan list \<Rightarrow> 'a chan option" where
  "chan_send x ch ws =
     (case try_send x ch of
        Some (b, ch') \<Rightarrow> Some ch'
      | None \<Rightarrow> (case ws of [] \<Rightarrow> None | w # ws' \<Rightarrow> chan_send x w ws'))"

fun chan_sendUntil :: "'a \<Rightarrow> 'a chan \<Rightarrow> (bool \<times> 'a chan) list \<Rightarrow> (bool \<times> 'a chan) option" where
  "chan_sendUntil x ch ws =
     (case try_send x ch of
        Some r \<Rightarrow> Some r
      | None \<Rightarrow> (case ws of
            [] \<Rightarrow> None
          | (timeout, w) # ws' \<Rightarrow> if timeout then Some (False, w) else chan_sendUntil x w ws'))"

fun chan_receive :: "'a chan \<Rightarrow> 'a chan list \<Rightarrow> ('a option \<times> 'a chan) option" where
  "chan_receive ch ws =
     (case try_receive ch of
        Some r \<Rightarrow> Some r
      | None \<Rightarrow> (case ws of [] \<Rightarrow> None | w # ws' \<Rightarrow> chan_receive w ws'))"

fun chan_receiveUntil :: "'a chan \<Rightarrow> (bool \<times> 'a chan) list \<Rightarrow> ((ChannelError + 'a option) \<times> 'a chan) option" where
  "chan_receiveUntil ch ws =
     (case try_receive ch of
        Some (Some x, ch') \<Rightarrow> Some (Inr (Some x), ch')
      | Some (None, ch') \<Rightarrow> Some (Inl Closed, ch')
      | None \<Rightarrow> (case ws of
            [] \<Rightarrow> None
          | (timeout, w) # ws' \<Rightarrow> if timeout then Some (Inr None, w) else chan_receiveUntil w ws'))"

declare chan_send.simps [simp del] chan_sendUntil.simps [simp del]
  chan_receive.simps [simp del] chan_receiveUntil.simps [simp del]

definition chan_close :: "'a chan \<Rightarrow> 'a chan" where
  "chan_close ch = ch\<lparr>chan_closed := True\<rparr>"

section \<open>One step each\<close>

text \<open>
  Whatever happens while they wait, the operations act once, on the channel they find when they
  stop waiting.
\<close>

lemma chan_sendUntil_acts:
  "chan_sendUntil x ch ws = Some (b, ch') \<Longrightarrow>
     \<exists>c \<in> set (ch # map snd ws). if b then try_send x c = Some (True, ch') else ch' = c"
proof (induction x ch ws rule: chan_sendUntil.induct)
  case (1 x ch ws)
  show ?case
  proof (cases "try_send x ch")
    case None
    with "1.prems" obtain t w ws' where ws: "ws = (t, w) # ws'"
      by (subst (asm) chan_sendUntil.simps) (auto split: list.splits)
    with None "1.prems" 1(1) [OF None ws refl]
    show ?thesis by (subst (asm) chan_sendUntil.simps) (auto split: if_splits)
  next
    case (Some r)
    with "1.prems" show ?thesis
      by (subst (asm) chan_sendUntil.simps) (auto simp: try_send_def split: if_splits)
  qed
qed

lemma chan_receiveUntil_acts:
  "chan_receiveUntil ch ws = Some (r, ch') \<Longrightarrow>
     \<exists>c \<in> set (ch # map snd ws). case r of
       Inr (Some x) \<Rightarrow> try_receive c = Some (Some x, ch')
     | Inr None \<Rightarrow> ch' = c
     | Inl Closed \<Rightarrow> try_receive c = Some (None, ch') \<and> ch' = c"
proof (induction ch ws rule: chan_receiveUntil.induct)
  case (1 ch ws)
  show ?case
  proof (cases "try_receive ch")
    case None
    with "1.prems" obtain t w ws' where ws: "ws = (t, w) # ws'"
      by (subst (asm) chan_receiveUntil.simps) (auto split: list.splits)
    with None "1.prems" 1(1) [OF None ws refl]
    show ?thesis by (subst (asm) chan_receiveUntil.simps) (auto split: if_splits sum.splits)
  next
    case (Some p)
    then obtain v c where p: "try_receive ch = Some (v, c)" by (cases p) auto
    with "1.prems" show ?thesis
      by (subst (asm) chan_receiveUntil.simps)
        (auto simp: try_receive_def split: option.splits if_splits)
  qed
qed

section \<open>Traces\<close>

datatype 'a chan_event = Sent 'a | Received 'a | Closing

inductive chan_trace :: "'a chan_event list \<Rightarrow> 'a chan \<Rightarrow> bool" where
  trace_new: "chan_trace [] chan_new"
| trace_send: "chan_trace tr ch \<Longrightarrow> try_send x ch = Some (True, ch') \<Longrightarrow> chan_trace (tr @ [Sent x]) ch'"
| trace_receive: "chan_trace tr ch \<Longrightarrow> try_receive ch = Some (Some x, ch') \<Longrightarrow> chan_trace (tr @ [Received x]) ch'"
| trace_close: "chan_trace tr ch \<Longrightarrow> chan_trace (tr @ [Closing]) (chan_close ch)"

definition sent :: "'a chan_event list \<Rightarrow> 'a list" where
  "sent tr = List.map_filter (\<lambda>e. case e of Sent x \<Rightarrow> Some x | _ \<Rightarrow> None) tr"

definition received :: "'a chan_event list \<Rightarrow> 'a list" where
  "received tr = List.map_filter (\<lambda>e. case e of Received x \<Rightarrow> Some x | _ \<Rightarrow> None) tr"

definition in_flight :: "'a chan \<Rightarrow> 'a list" where
  "in_flight ch = (case chan_value ch of None \<Rightarrow> [] | Some x \<Rightarrow> [x])"

lemma map_filter_append: "List.map_filter f (xs @ ys) = List.map_filter f xs @ List.map_filter f ys"
  by (simp add: List.map_filter_def)

lemma sent_append [simp]: "sent (tr @ [e]) = sent tr @ (case e of Sent x \<Rightarrow> [x] | _ \<Rightarrow> [])"
  by (cases e) (simp_all add: sent_def map_filter_append List.map_filter_def)

lemma received_append [simp]: "received (tr @ [e]) = received tr @ (case e of Received x \<Rightarrow> [x] | _ \<Rightarrow> [])"
  by (cases e) (simp_all add: received_def map_filter_append List.map_filter_def)

lemma chan_trace_fifo: "chan_trace tr ch \<Longrightarrow> sent tr = received tr @ in_flight ch"
proof (induction rule: chan_trace.induct)
  case trace_new
  then show ?case by (simp add: sent_def received_def in_flight_def chan_new_def List.map_filter_def)
next
  case (trace_send tr ch x ch')
  then show ?case by (auto simp: in_flight_def try_send_def split: if_splits option.splits)
next
  case (trace_receive tr ch x ch')
  then show ?case by (auto simp: in_flight_def try_receive_def split: if_splits option.splits)
next
  case (trace_close tr ch)
  then show ?case by (simp add: in_flight_def chan_close_def)
qed

lemma chan_trace_closed:
  "chan_trace tr ch \<Longrightarrow> chan_closed ch = (Closing \<in> set tr)"
proof (induction rule: chan_trace.induct)
  case (trace_send tr ch x ch')
  then show ?case by (auto simp: try_send_def split: if_splits)
next
  case (trace_receive tr ch x ch')
  then show ?case by (auto simp: try_receive_def split: if_splits option.splits)
qed (simp_all add: chan_new_def chan_close_def)

section \<open>The interface\<close>

text \<open>
  What the Raft server and the state machine rely on: values come out in the order in which
  they went in, each once, and none is lost.
\<close>

locale channel =
  fixes send_now :: "'c \<Rightarrow> 'a \<Rightarrow> bool \<times> 'c"
    and receive_now :: "'c \<Rightarrow> 'a option \<times> 'c"
    and contents :: "'c \<Rightarrow> 'a list"
  assumes send_law: "contents (snd (send_now c x)) = contents c @ (if fst (send_now c x) then [x] else [])"
    and receive_law: "contents c = (case fst (receive_now c) of None \<Rightarrow> [] | Some x \<Rightarrow> [x]) @ contents (snd (receive_now c))"
    and receive_some: "contents c \<noteq> [] \<Longrightarrow> fst (receive_now c) \<noteq> None"

datatype 'a chan_op = Put 'a | Take

text \<open>A sequence of operations of both ends: what was sent, what was received, the channel.\<close>

fun run_ops :: "('c \<Rightarrow> 'a \<Rightarrow> bool \<times> 'c) \<Rightarrow> ('c \<Rightarrow> 'a option \<times> 'c) \<Rightarrow> 'a chan_op list \<Rightarrow> 'c
    \<Rightarrow> 'a list \<times> 'a list \<times> 'c" where
  "run_ops snd_op rcv_op [] c = ([], [], c)"
| "run_ops snd_op rcv_op (Put x # ops) c =
     (let r = snd_op c x; rest = run_ops snd_op rcv_op ops (snd r)
      in ((if fst r then [x] else []) @ fst rest, fst (snd rest), snd (snd rest)))"
| "run_ops snd_op rcv_op (Take # ops) c =
     (let r = rcv_op c; rest = run_ops snd_op rcv_op ops (snd r)
      in (fst rest, (case fst r of None \<Rightarrow> [] | Some x \<Rightarrow> [x]) @ fst (snd rest), snd (snd rest)))"

context channel
begin

lemma run_ops_fifo:
  "contents c @ fst (run_ops send_now receive_now ops c) =
     fst (snd (run_ops send_now receive_now ops c)) @ contents (snd (snd (run_ops send_now receive_now ops c)))"
proof (induction ops arbitrary: c)
  case Nil
  then show ?case by simp
next
  case (Cons op ops)
  show ?case
  proof (cases op)
    case (Put x)
    with Cons [of "snd (send_now c x)"] send_law [of c x] show ?thesis by (simp add: Let_def)
  next
    case Take
    with Cons [of "snd (receive_now c)"] receive_law [of c] show ?thesis by (simp add: Let_def)
  qed
qed

end

text \<open>
  The channel operations of this component when nobody interferes: a send to a full channel
  runs into its deadline, and so does a receive from an empty one.
\<close>

definition sync_send :: "'a chan \<Rightarrow> 'a \<Rightarrow> bool \<times> 'a chan" where
  "sync_send ch x = (case chan_sendUntil x ch [(True, ch)] of Some r \<Rightarrow> r | None \<Rightarrow> (False, ch))"

definition sync_receive :: "'a chan \<Rightarrow> 'a option \<times> 'a chan" where
  "sync_receive ch =
     (case chan_receiveUntil ch [(True, ch)] of
        Some (Inr v, ch') \<Rightarrow> (v, ch')
      | Some (Inl _, ch') \<Rightarrow> (None, ch')
      | None \<Rightarrow> (None, ch))"

lemma sync_send_eq:
  "sync_send ch x = (if chan_closed ch \<or> chan_value ch \<noteq> None then (False, ch) else (True, ch\<lparr>chan_value := Some x\<rparr>))"
  by (simp add: sync_send_def chan_sendUntil.simps try_send_def)

lemma sync_receive_eq:
  "sync_receive ch = (case chan_value ch of None \<Rightarrow> (None, ch) | Some x \<Rightarrow> (Some x, ch\<lparr>chan_value := None\<rparr>))"
  by (simp add: sync_receive_def chan_receiveUntil.simps try_receive_def split: option.splits)

interpretation sync: channel sync_send sync_receive in_flight
  by unfold_locales (auto simp: sync_send_eq sync_receive_eq in_flight_def split: option.splits)

section \<open>The properties\<close>

text \<open>
  C21: the channel is first in, first out: at every moment of every interleaving of its
  operations, what was received followed by the at most one value in flight is what was sent,
  and nothing is sent after the channel was closed.
\<close>

theorem channel_fifo:
  assumes "chan_trace tr ch"
  shows "sent tr = received tr @ in_flight ch \<and> length (in_flight ch) \<le> 1 \<and>
    (Closing \<in> set tr \<longrightarrow> (\<forall>x. try_send x ch = Some (False, ch)))"
  using chan_trace_fifo [OF assms] chan_trace_closed [OF assms]
  by (auto simp: in_flight_def try_send_def split: option.splits)

theorem channel_fifo_witness:
  "\<exists>ch. chan_trace [Sent (1::nat), Received 1, Sent 2] ch \<and> in_flight ch = [2]"
proof -
  let ?c1 = "\<lparr>chan_value = Some (1::nat), chan_closed = False\<rparr>" and ?c2 = "\<lparr>chan_value = Some (2::nat), chan_closed = False\<rparr>"
  have "chan_trace [] (chan_new :: nat chan)" by (rule trace_new)
  then have "chan_trace ([] @ [Sent (1::nat)]) ?c1" by (rule trace_send) (simp add: try_send_def chan_new_def)
  then have "chan_trace (([] @ [Sent (1::nat)]) @ [Received 1]) chan_new"
    by (rule trace_receive) (simp add: try_receive_def chan_new_def)
  then have t: "chan_trace ((([] @ [Sent (1::nat)]) @ [Received 1]) @ [Sent 2]) ?c2"
    by (rule trace_send) (simp add: try_send_def chan_new_def)
  with channel_fifo [OF t] show ?thesis by (intro exI [of _ ?c2]) (simp add: sent_def received_def List.map_filter_def)
qed

end
