(* ===== verification/Rsm.thy ===== *)
theory Rsm
  imports SyncChan KvMachine
begin

text \<open>
  \<open>src/raft/PendingRequests.cpp\<close> and \<open>src/raft/Rsm.cpp\<close>: the replicated state machine that
  joins the Raft server, the channel and the store. A promise is a number; \<open>pend_done\<close> holds
  the values that were set, \<open>pend_broken\<close> the promises that were destroyed unset (their
  futures throw). \<open>Rsm::handle\<close> runs in the server's threads and \<open>consumeChannel\<close> in its own,
  so their critical sections are separate functions.
\<close>

section \<open>Pending requests\<close>

record pending_requests =
  pend_map :: "(string, nat) umap"
  pend_done :: "(nat, kv_state) umap"
  pend_broken :: "nat list"
  pend_next :: nat

definition pending_new :: pending_requests where
  "pending_new = \<lparr>pend_map = [], pend_done = [], pend_broken = [], pend_next = 0\<rparr>"

text \<open>The assignment \<open>pending[index] = p\<close> destroys a promise that was stored there.\<close>

definition pending_add :: "string \<Rightarrow> pending_requests \<Rightarrow> nat \<times> pending_requests" where
  "pending_add index p =
     (pend_next p,
      p\<lparr>pend_map := AList.update index (pend_next p) (pend_map p),
        pend_broken := (case map_of (pend_map p) index of None \<Rightarrow> pend_broken p | Some old \<Rightarrow> old # pend_broken p),
        pend_next := pend_next p + 1\<rparr>)"

definition pending_complete :: "string \<Rightarrow> kv_state \<Rightarrow> pending_requests \<Rightarrow> pending_requests" where
  "pending_complete index result p =
     (case map_of (pend_map p) index of
        Some n \<Rightarrow> p\<lparr>pend_done := AList.update n result (pend_done p), pend_map := AList.delete index (pend_map p)\<rparr>
      | None \<Rightarrow> p)"

definition changed_leader :: kv_state where
  "changed_leader = State_error (mk_Error NotLeader ''Changed Leader'')"

definition pending_cancelAll :: "pending_requests \<Rightarrow> pending_requests" where
  "pending_cancelAll p =
     p\<lparr>pend_done := fold (\<lambda>(_, n) d. AList.update n changed_leader d) (pend_map p) (pend_done p), pend_map := []\<rparr>"

datatype future_status = Ready kv_state | Broken | Waiting

definition future_of :: "nat \<Rightarrow> pending_requests \<Rightarrow> future_status" where
  "future_of n p =
     (case map_of (pend_done p) n of
        Some r \<Rightarrow> Ready r
      | None \<Rightarrow> if n \<in> set (pend_broken p) then Broken else Waiting)"

section \<open>The replicated state machine\<close>

definition not_the_leader :: kv_state where
  "not_the_leader = State_error (mk_Error NotLeader ''not the leader'')"

text \<open>
  One turn of \<open>consumeChannel\<close> with a command that was received. A state machine that throws
  ends the thread.
\<close>

definition rsm_consume :: "'s engine \<Rightarrow> command \<Rightarrow> pending_requests \<times> 's \<Rightarrow> (pending_requests \<times> 's) outcome" where
  "rsm_consume E c ps =
     bind_outcome (applyCommand E (snd ps) c) (\<lambda>(r, st').
       Inr (pending_complete (uuid_v7_to_string (getUUID c)) r (fst ps), st'))"

text \<open>
  \<open>handle\<close>: the call of \<open>start\<close> (an answer at once if it refuses), the registration of the
  request, and the answer after the wait of two seconds, when the future is ready or not.
\<close>

definition rsm_handle_start :: "command \<Rightarrow> raft \<Rightarrow> kv_state option \<times> command \<times> raft" where
  "rsm_handle_start c s =
     (case start c s of (ok, c', s') \<Rightarrow> (if ok then None else Some not_the_leader, c', s'))"

definition rsm_handle_add :: "command \<Rightarrow> pending_requests \<Rightarrow> nat \<times> pending_requests" where
  "rsm_handle_add c p = pending_add (uuid_v7_to_string (getUUID c)) p"

definition rsm_handle_answer :: "nat \<Rightarrow> pending_requests \<Rightarrow> kv_state outcome" where
  "rsm_handle_answer n p =
     (case future_of n p of
        Ready r \<Rightarrow> Inr r
      | Broken \<Rightarrow> Inl (LogicError ''broken promise'')
      | Waiting \<Rightarrow> Inr not_the_leader)"

text \<open>The destructor cancels before and after it joins the consumer thread.\<close>

definition rsm_destroy :: "pending_requests \<Rightarrow> pending_requests" where
  "rsm_destroy p = pending_cancelAll (pending_cancelAll p)"

text \<open>
  An interleaving of the critical sections of the request threads and the consumer thread:
  registrations of requests and consumed commands.
\<close>

datatype rsm_event = Register command | Consume command

definition rsm_step :: "'s engine \<Rightarrow> rsm_event \<Rightarrow> pending_requests \<times> 's \<Rightarrow> (pending_requests \<times> 's) outcome" where
  "rsm_step E e ps =
     (case e of
        Register c \<Rightarrow> Inr (snd (rsm_handle_add c (fst ps)), snd ps)
      | Consume c \<Rightarrow> rsm_consume E c ps)"

fun rsm_run :: "'s engine \<Rightarrow> rsm_event list \<Rightarrow> pending_requests \<times> 's \<Rightarrow> (pending_requests \<times> 's) outcome" where
  "rsm_run E [] ps = Inr ps"
| "rsm_run E (e # es) ps = bind_outcome (rsm_step E e ps) (rsm_run E es)"

fun consumed :: "rsm_event list \<Rightarrow> command list" where
  "consumed [] = []"
| "consumed (Register c # es) = consumed es"
| "consumed (Consume c # es) = c # consumed es"

fun event_command :: "rsm_event \<Rightarrow> command" where
  "event_command (Register c) = c"
| "event_command (Consume c) = c"

definition request_key :: "command \<Rightarrow> string" where
  "request_key c = uuid_v7_to_string (getUUID c)"

section \<open>Invariant\<close>

text \<open>Every promise is in at most one place: registered, set or broken.\<close>

definition pending_inv :: "pending_requests \<Rightarrow> bool" where
  "pending_inv p \<longleftrightarrow>
     (\<forall>u n. map_of (pend_map p) u = Some n \<longrightarrow>
        n < pend_next p \<and> map_of (pend_done p) n = None \<and> n \<notin> set (pend_broken p)) \<and>
     (\<forall>u u' n. map_of (pend_map p) u = Some n \<longrightarrow> map_of (pend_map p) u' = Some n \<longrightarrow> u' = u) \<and>
     (\<forall>n r. map_of (pend_done p) n = Some r \<longrightarrow> n < pend_next p \<and> n \<notin> set (pend_broken p)) \<and>
     (\<forall>n \<in> set (pend_broken p). n < pend_next p)"

lemma pending_inv_new: "pending_inv pending_new"
  by (simp add: pending_inv_def pending_new_def)

lemma pending_inv_registered:
  assumes "pending_inv p" and "map_of (pend_map p) u = Some n"
  shows "n < pend_next p" and "map_of (pend_done p) n = None" and "n \<notin> set (pend_broken p)"
    and "map_of (pend_map p) u' = Some n \<Longrightarrow> u' = u"
  using assms unfolding pending_inv_def by blast+

lemma pending_inv_add: "pending_inv p \<Longrightarrow> pending_inv (snd (pending_add u p))"
  unfolding pending_inv_def pending_add_def
  by (auto simp: less_Suc_eq split: option.splits if_splits)

lemma pending_inv_complete: "pending_inv p \<Longrightarrow> pending_inv (pending_complete u r p)"
  unfolding pending_inv_def pending_complete_def
  by (auto simp: delete_conv' split: option.splits if_splits)

text \<open>A request waits until its own completion arrives; the others do not touch it.\<close>

lemma future_complete_other:
  assumes "pending_inv p" and "map_of (pend_map p) u = Some n" and "u' \<noteq> u"
  shows "map_of (pend_map (pending_complete u' r p)) u = Some n" and "future_of n (pending_complete u' r p) = future_of n p"
  using assms pending_inv_registered(4) [OF assms(1,2), of u']
  by (auto simp: pending_complete_def future_of_def delete_conv' split: option.splits)

lemma future_complete_own:
  assumes "map_of (pend_map p) u = Some n"
  shows "future_of n (pending_complete u r p) = Ready r"
  using assms by (simp add: pending_complete_def future_of_def)

lemma future_add:
  assumes "pending_inv p"
  shows "future_of (fst (pending_add u p)) (snd (pending_add u p)) = Waiting"
    and "map_of (pend_map (snd (pending_add u p))) u = Some (fst (pending_add u p))"
proof -
  have "map_of (pend_done p) (pend_next p) = None"
    using assms unfolding pending_inv_def by (metis less_irrefl option.exhaust)
  moreover have "pend_next p \<notin> set (pend_broken p)" using assms by (auto simp: pending_inv_def)
  moreover have "map_of (pend_map p) u \<noteq> Some (pend_next p)"
    using pending_inv_registered(1) [OF assms, of u "pend_next p"] by auto
  ultimately show "future_of (fst (pending_add u p)) (snd (pending_add u p)) = Waiting"
    by (auto simp: pending_add_def future_of_def split: option.splits)
  show "map_of (pend_map (snd (pending_add u p))) u = Some (fst (pending_add u p))"
    by (simp add: pending_add_def)
qed

section \<open>Runs\<close>

lemma future_add_other:
  assumes "pending_inv p" and "map_of (pend_map p) u = Some n" and "u' \<noteq> u"
  shows "map_of (pend_map (snd (pending_add u' p))) u = Some n"
    and "future_of n (snd (pending_add u' p)) = future_of n p"
  using assms pending_inv_registered(4) [OF assms(1,2), of u']
  by (auto simp: pending_add_def future_of_def split: option.splits)

lemma future_ready_stable:
  assumes "pending_inv p" and "future_of n p = Ready r"
  shows "future_of n (pending_complete u q p) = Ready r" and "future_of n (snd (pending_add u p)) = Ready r"
proof -
  have d: "map_of (pend_done p) n = Some r"
    using assms(2) by (auto simp: future_of_def split: option.splits if_splits)
  then have "map_of (pend_map p) u \<noteq> Some n" using assms(1) unfolding pending_inv_def by force
  with d show "future_of n (pending_complete u q p) = Ready r" "future_of n (snd (pending_add u p)) = Ready r"
    by (auto simp: future_of_def pending_complete_def pending_add_def split: option.splits)
qed

lemma consume_refines:
  assumes "store_inv st" and "implemented c"
  shows "\<exists>st'. rsm_consume InMemoryKVStore c (p, st) =
      Inr (pending_complete (request_key c) (spec_reply (map_of st) c) p, st') \<and>
    store_inv st' \<and> map_of st' = spec_map (map_of st) c"
proof -
  from mem.applyCommand_refines [OF assms] obtain st'
    where "applyCommand InMemoryKVStore st c = Inr (spec_reply (map_of st) c, st')" "store_inv st'"
      "map_of st' = spec_map (map_of st) c" by auto
  then show ?thesis by (simp add: rsm_consume_def request_key_def)
qed

text \<open>A run refines the abstract map, and \<open>Q\<close>, kept by every step, holds of the requests after it.\<close>

lemma rsm_run_refines:
  assumes "store_inv st" and "pending_inv p" and "Q p"
    and "\<forall>c \<in> set (consumed es). implemented c"
    and add: "\<And>c p. Register c \<in> set es \<Longrightarrow> pending_inv p \<Longrightarrow> Q p \<Longrightarrow> Q (snd (pending_add (request_key c) p))"
    and compl: "\<And>c p r. Consume c \<in> set es \<Longrightarrow> pending_inv p \<Longrightarrow> Q p \<Longrightarrow> Q (pending_complete (request_key c) r p)"
  shows "\<exists>p' st'. rsm_run InMemoryKVStore es (p, st) = Inr (p', st') \<and> store_inv st' \<and> pending_inv p' \<and> Q p' \<and>
    map_of st' = foldl spec_map (map_of st) (consumed es)"
  using assms
proof (induction es arbitrary: p st)
  case Nil
  then show ?case by simp
next
  case (Cons e es)
  show ?case
  proof (cases e)
    case (Register c)
    let ?p = "snd (pending_add (request_key c) p)"
    have "Q ?p" "pending_inv ?p" using Cons.prems Register pending_inv_add by auto
    with Cons.IH [of st ?p] Cons.prems Register show ?thesis
      by (simp add: rsm_step_def rsm_handle_add_def request_key_def)
  next
    case (Consume c)
    then have impl: "implemented c" using Cons.prems(4) by simp
    from consume_refines [OF Cons.prems(1) impl, of p] obtain st' where
      st': "rsm_consume InMemoryKVStore c (p, st) =
          Inr (pending_complete (request_key c) (spec_reply (map_of st) c) p, st')"
        "store_inv st'" "map_of st' = spec_map (map_of st) c" by auto
    let ?p = "pending_complete (request_key c) (spec_reply (map_of st) c) p"
    have "Q ?p" "pending_inv ?p" using Cons.prems Consume pending_inv_complete by auto
    with Cons.IH [of st' ?p] Cons.prems Consume st' show ?thesis by (simp add: rsm_step_def)
  qed
qed

lemma rsm_run_append: "rsm_run E (es @ fs) ps = bind_outcome (rsm_run E es ps) (rsm_run E fs)"
proof (induction es arbitrary: ps)
  case (Cons e es)
  then show ?case by (cases "rsm_step E e ps") auto
qed simp

text \<open>A request that is registered before its command is consumed.\<close>

lemma registered_answer:
  assumes "store_inv st" and "pending_inv p" and "rsm_handle_add c p = (n, p1)"
    and "\<forall>e \<in> set (es @ fs). request_key (event_command e) \<noteq> request_key c"
    and "\<forall>d \<in> set (c # consumed es @ consumed fs). implemented d"
  shows "\<exists>p2 st2. rsm_run InMemoryKVStore (es @ Consume c # fs) (p1, st) = Inr (p2, st2) \<and>
    rsm_handle_answer n p2 = Inr (spec_reply (foldl spec_map (map_of st) (consumed es)) c)"
proof -
  let ?k = "request_key c"
  let ?waits = "\<lambda>p. map_of (pend_map p) ?k = Some n"
  have other: "request_key d \<noteq> ?k" if "Register d \<in> set (es @ fs) \<or> Consume d \<in> set (es @ fs)" for d
    using assms(4) that by force
  have p1: "pending_inv p1" "?waits p1"
    using assms(3) pending_inv_add [OF assms(2), of ?k] future_add(2) [OF assms(2), of ?k]
    by (auto simp: rsm_handle_add_def request_key_def)
  have run1: "\<exists>p' st'. rsm_run InMemoryKVStore es (p1, st) = Inr (p', st') \<and> store_inv st' \<and> pending_inv p' \<and>
      ?waits p' \<and> map_of st' = foldl spec_map (map_of st) (consumed es)"
    by (rule rsm_run_refines [where Q = ?waits, OF assms(1) p1])
      (use assms(5) other future_add_other(1) future_complete_other(1) in auto)
  then obtain p' st' where 1: "rsm_run InMemoryKVStore es (p1, st) = Inr (p', st')" "store_inv st'"
    "pending_inv p'" "?waits p'" "map_of st' = foldl spec_map (map_of st) (consumed es)" by blast
  let ?r = "spec_reply (map_of st') c"
  from consume_refines [OF 1(2), of c p'] assms(5) obtain st'' where
    2: "rsm_consume InMemoryKVStore c (p', st') = Inr (pending_complete ?k ?r p', st'')" "store_inv st''" by auto
  have ready: "future_of n (pending_complete ?k ?r p') = Ready ?r" by (rule future_complete_own [OF 1(4)])
  have "\<exists>p2 st2. rsm_run InMemoryKVStore fs (pending_complete ?k ?r p', st'') = Inr (p2, st2) \<and> store_inv st2 \<and>
      pending_inv p2 \<and> future_of n p2 = Ready ?r \<and> map_of st2 = foldl spec_map (map_of st'') (consumed fs)"
    by (rule rsm_run_refines [where Q = "\<lambda>p. future_of n p = Ready ?r", OF 2(2) pending_inv_complete [OF 1(3)] ready])
      (use assms(5) future_ready_stable in auto)
  then show ?thesis
    using 1 2 by (auto simp: rsm_run_append rsm_step_def rsm_handle_answer_def)
qed

section \<open>The properties\<close>


definition sample_set :: command where
  "sample_set = Set_new zero_uuid (mk_key ''k'') (mk_value ''v'' 0)"


text \<open>
  C39: \<open>handle\<close> registers the request only after it has handed the command to Raft. If the
  command is consumed first, its answer is dropped: the command has taken effect, no later
  consumption of other commands completes the request, and the client is told that this server
  is not the leader.
\<close>

theorem early_completion_is_lost:
  assumes "store_inv st" and "pending_inv p" and "map_of (pend_map p) (request_key c) = None" and "implemented c"
    and "\<forall>e \<in> set es. request_key (event_command e) \<noteq> request_key c"
    and "\<forall>d \<in> set (consumed es). implemented d"
  shows "\<exists>st1 n p1 p2 st2. rsm_consume InMemoryKVStore c (p, st) = Inr (p, st1) \<and>
    map_of st1 = spec_map (map_of st) c \<and> rsm_handle_add c p = (n, p1) \<and>
    rsm_run InMemoryKVStore es (p1, st1) = Inr (p2, st2) \<and> rsm_handle_answer n p2 = Inr not_the_leader"
proof -
  let ?k = "request_key c"
  from consume_refines [OF assms(1,4), of p] obtain st1 where
    1: "rsm_consume InMemoryKVStore c (p, st) = Inr (pending_complete ?k (spec_reply (map_of st) c) p, st1)"
      "store_inv st1" "map_of st1 = spec_map (map_of st) c" by blast
  have same: "pending_complete ?k r p = p" for r using assms(3) by (simp add: pending_complete_def)
  obtain n p1 where add: "rsm_handle_add c p = (n, p1)" by fastforce
  then have a: "n = fst (pending_add ?k p)" "p1 = snd (pending_add ?k p)" by (simp_all add: rsm_handle_add_def request_key_def)
  let ?Q = "\<lambda>p. map_of (pend_map p) ?k = Some n \<and> future_of n p = Waiting"
  have other: "request_key d \<noteq> ?k" if "Register d \<in> set es \<or> Consume d \<in> set es" for d using assms(5) that by force
  have "\<exists>p2 st2. rsm_run InMemoryKVStore es (p1, st1) = Inr (p2, st2) \<and> store_inv st2 \<and> pending_inv p2 \<and> ?Q p2 \<and>
      map_of st2 = foldl spec_map (map_of st1) (consumed es)"
    by (rule rsm_run_refines [where Q = ?Q, OF 1(2)])
      (use a pending_inv_add [OF assms(2)] future_add [OF assms(2)] assms(6) other future_add_other
         future_complete_other in auto)
  then show ?thesis using 1 same add by (auto simp: rsm_handle_answer_def)
qed

theorem early_completion_is_lost_witness:
  "\<exists>st1 n p1 p2 st2. rsm_consume InMemoryKVStore sample_set (pending_new, empty_store) = Inr (pending_new, st1) \<and>
    map_of st1 = spec_map (map_of empty_store) sample_set \<and> rsm_handle_add sample_set pending_new = (n, p1) \<and>
    rsm_run InMemoryKVStore [] (p1, st1) = Inr (p2, st2) \<and> rsm_handle_answer n p2 = Inr not_the_leader"
  by (rule early_completion_is_lost [OF _ pending_inv_new])
    (simp_all add: store_inv_def empty_store_def pending_new_def sample_set_def Set_new_def implemented_def)

end
