(* ===== verification/KvService.thy ===== *)
theory KvService
  imports Rsm
begin

text \<open>
  \<open>src/server/KVStoreServiceImpl.cpp\<close>: the gRPC service of the key-value store, on top of
  \<open>Rsm::handle\<close>. The four request messages of \<open>proto/kvStore.proto\<close> are the constructors of
  \<open>kv_request\<close>, the four reply messages those of \<open>kv_reply\<close>. \<open>pack\<close> serialises the error
  details of a status; \<open>handle\<close> is the call of \<open>rsm.handle\<close>, which may change the server.
\<close>

section \<open>Messages\<close>

record GetRequest =
  gq_key :: pb_key
  gq_requestid :: string

record SetRequest =
  sq_key :: pb_key
  sq_value :: pb_value
  sq_requestid :: string

record EraseRequest =
  eq_key :: pb_key
  eq_requestid :: string

record SizeRequest =
  zq_requestid :: string

datatype kv_request =
    RqGet GetRequest
  | RqSet SetRequest
  | RqErase EraseRequest
  | RqSize SizeRequest

text \<open>A value or size that was not set reads as the default of its type.\<close>

datatype kv_reply =
    RpGet pb_value
  | RpSet
  | RpErase pb_value
  | RpSize u64

definition empty_pb_value :: pb_value where
  "empty_pb_value = \<lparr>pv_data = '''', pv_version = 0\<rparr>"

definition value_message :: "kv_value \<Rightarrow> pb_value" where
  "value_message v = \<lparr>pv_data = val_data v, pv_version = val_version v\<rparr>"

section \<open>Waiting for the replicated state machine\<close>

text \<open>
  A whole call of \<open>Rsm::handle\<close>. \<open>before\<close> is what the other threads do between the return of
  \<open>start\<close> and the registration of the request, \<open>during\<close> what they do until the wait of two
  seconds is over.
\<close>

definition rsm_handle :: "'s engine \<Rightarrow> rsm_event list \<Rightarrow> rsm_event list \<Rightarrow> command
    \<Rightarrow> raft \<times> pending_requests \<times> 's \<Rightarrow> (kv_state \<times> raft \<times> pending_requests \<times> 's) outcome" where
  "rsm_handle E before during c srv =
     (case srv of (s, p, st) \<Rightarrow>
       (case rsm_handle_start c s of
          (Some refused, c', s') \<Rightarrow> Inr (refused, s', p, st)
        | (None, c', s') \<Rightarrow>
            bind_outcome (rsm_run E before (p, st)) (\<lambda>(p1, st1).
              case rsm_handle_add c' p1 of (n, p2) \<Rightarrow>
                bind_outcome (rsm_run E during (p2, st1)) (\<lambda>(p3, st3).
                  bind_outcome (rsm_handle_answer n p3) (\<lambda>r. Inr (r, s', p3, st3))))))"

section \<open>The service\<close>

definition value_answer :: "(ErrorDetails \<Rightarrow> string) \<Rightarrow> (pb_value \<Rightarrow> kv_reply) \<Rightarrow> kv_state \<Rightarrow> (Status \<times> kv_reply) outcome" where
  "value_answer pack reply state =
     (case st_u state of
        UError e \<Rightarrow> bind_outcome (toGrpcStatus pack e) (\<lambda>s. Inr (s, reply empty_pb_value))
      | UValue None \<Rightarrow>
          bind_outcome (toGrpcStatus pack (mk_Error KeyNotFound ''key not found'')) (\<lambda>s.
            Inr (s, reply empty_pb_value))
      | UValue (Some v) \<Rightarrow> Inr (Status_OK, reply (value_message v))
      | _ \<Rightarrow> Inl BadVariantAccess)"

definition service_get :: "(ErrorDetails \<Rightarrow> string) \<Rightarrow> (command \<Rightarrow> 'w \<Rightarrow> (kv_state \<times> 'w) outcome)
    \<Rightarrow> GetRequest \<Rightarrow> 'w \<Rightarrow> ((Status \<times> kv_reply) \<times> 'w) outcome" where
  "service_get pack handle request w =
     (let key = mk_key (pk_data (gq_key request));
          uuid = string_to_uuid_v7 (gq_requestid request)
      in bind_outcome (handle (Get_new uuid key) w) (\<lambda>(state, w').
           bind_outcome (value_answer pack RpGet state) (\<lambda>r. Inr (r, w'))))"

definition service_set :: "(ErrorDetails \<Rightarrow> string) \<Rightarrow> (command \<Rightarrow> 'w \<Rightarrow> (kv_state \<times> 'w) outcome)
    \<Rightarrow> SetRequest \<Rightarrow> 'w \<Rightarrow> ((Status \<times> kv_reply) \<times> 'w) outcome" where
  "service_set pack handle request w =
     (let key = mk_key (pk_data (sq_key request));
          v = mk_value (pv_data (sq_value request)) (pv_version (sq_value request));
          uuid = string_to_uuid_v7 (sq_requestid request)
      in bind_outcome (handle (Set_new uuid key v) w) (\<lambda>(state, w').
           case st_u state of
             UError e \<Rightarrow> bind_outcome (toGrpcStatus pack e) (\<lambda>s. Inr ((s, RpSet), w'))
           | _ \<Rightarrow> Inr ((Status_OK, RpSet), w')))"

definition service_erase :: "(ErrorDetails \<Rightarrow> string) \<Rightarrow> (command \<Rightarrow> 'w \<Rightarrow> (kv_state \<times> 'w) outcome)
    \<Rightarrow> EraseRequest \<Rightarrow> 'w \<Rightarrow> ((Status \<times> kv_reply) \<times> 'w) outcome" where
  "service_erase pack handle request w =
     (let key = mk_key (pk_data (eq_key request));
          uuid = string_to_uuid_v7 (eq_requestid request)
      in bind_outcome (handle (Erase_new uuid key) w) (\<lambda>(state, w').
           bind_outcome (value_answer pack RpErase state) (\<lambda>r. Inr (r, w'))))"

definition service_size :: "(ErrorDetails \<Rightarrow> string) \<Rightarrow> (command \<Rightarrow> 'w \<Rightarrow> (kv_state \<times> 'w) outcome)
    \<Rightarrow> SizeRequest \<Rightarrow> 'w \<Rightarrow> ((Status \<times> kv_reply) \<times> 'w) outcome" where
  "service_size pack handle request w =
     (let uuid = string_to_uuid_v7 (zq_requestid request)
      in bind_outcome (handle (Size_new uuid) w) (\<lambda>(state, w').
           case st_u state of
             UError e \<Rightarrow> bind_outcome (toGrpcStatus pack e) (\<lambda>s. Inr ((s, RpSize 0), w'))
           | USize n \<Rightarrow> Inr ((Status_OK, RpSize n), w')
           | _ \<Rightarrow> Inl BadVariantAccess))"

fun service_call :: "(ErrorDetails \<Rightarrow> string) \<Rightarrow> (command \<Rightarrow> 'w \<Rightarrow> (kv_state \<times> 'w) outcome)
    \<Rightarrow> kv_request \<Rightarrow> 'w \<Rightarrow> ((Status \<times> kv_reply) \<times> 'w) outcome" where
  "service_call pack handle (RqGet q) w = service_get pack handle q w"
| "service_call pack handle (RqSet q) w = service_set pack handle q w"
| "service_call pack handle (RqErase q) w = service_erase pack handle q w"
| "service_call pack handle (RqSize q) w = service_size pack handle q w"

section \<open>Specification\<close>

text \<open>The command a request stands for, and what the abstract map answers to the request.\<close>

fun request_command :: "kv_request \<Rightarrow> command" where
  "request_command (RqGet q) = Get_new (string_to_uuid_v7 (gq_requestid q)) (mk_key (pk_data (gq_key q)))"
| "request_command (RqSet q) = Set_new (string_to_uuid_v7 (sq_requestid q)) (mk_key (pk_data (sq_key q)))
     (mk_value (pv_data (sq_value q)) (pv_version (sq_value q)))"
| "request_command (RqErase q) = Erase_new (string_to_uuid_v7 (eq_requestid q)) (mk_key (pk_data (eq_key q)))"
| "request_command (RqSize q) = Size_new (string_to_uuid_v7 (zq_requestid q))"

definition spec_lookup :: "kv_map \<Rightarrow> pb_key \<Rightarrow> (pb_value \<Rightarrow> kv_reply) \<Rightarrow> Error + kv_reply" where
  "spec_lookup m k reply =
     (case m (mk_key (pk_data k)) of
        None \<Rightarrow> Inl (mk_Error KeyNotFound ''key not found'')
      | Some v \<Rightarrow> Inr (reply (value_message v)))"

fun spec_response :: "kv_map \<Rightarrow> kv_request \<Rightarrow> Error + kv_reply" where
  "spec_response m (RqGet q) = spec_lookup m (gq_key q) RpGet"
| "spec_response m (RqSet q) =
     (case cas_result m (mk_key (pk_data (sq_key q))) (mk_value (pv_data (sq_value q)) (pv_version (sq_value q))) of
        Inl e \<Rightarrow> Inl e
      | Inr _ \<Rightarrow> Inr RpSet)"
| "spec_response m (RqErase q) = spec_lookup m (eq_key q) RpErase"
| "spec_response m (RqSize q) = Inr (RpSize (of_nat (card (dom m))))"

text \<open>What a client makes of a status and a reply: the conversion of \<open>ErrorConverter\<close>.\<close>

definition seen_by_client :: "(string \<Rightarrow> ErrorDetails option) \<Rightarrow> (Status \<times> kv_reply) \<Rightarrow> (Error + kv_reply) outcome" where
  "seen_by_client unpack r = toExpected unpack (fst r) (snd r)"

section \<open>Facts\<close>

lemma getUUID_with_header [simp]: "hdr_uuid h = getUUID c \<Longrightarrow> getUUID (with_header h c) = getUUID c"
  by (cases c) (simp_all add: getUUID_def)

lemma start_leader:
  assumes "role s = Leader" and "\<not> killed s" and "\<not> pendingSnapshot s"
  shows "\<exists>h s'. start c s = (True, with_header h c, s') \<and> hdr_uuid h = getUUID c"
  using assms
  by (intro exI [of _ "(cmd_header c)\<lparr>hdr_term := currentTerm s, hdr_index := log_lastIndex (mainLog s) + 1\<rparr>"])
    (simp add: start_def Let_def getUUID_def)

lemma spec_request_header [simp]:
  "implemented (with_header h (request_command q))"
  "spec_reply m (with_header h (request_command q)) = spec_reply m (request_command q)"
  by (cases q; simp add: implemented_def Get_new_def Set_new_def Erase_new_def Size_new_def)+

lemma toGrpcStatus_seen:
  assumes "\<And>d. unpack (pack d) = Some d" and "err_code e \<in> set listed_codes"
  shows "\<exists>s. toGrpcStatus pack e = Inr s \<and> (\<forall>v :: kv_reply. toExpected unpack s v = Inr (Inl e))"
proof -
  from toString_listed [OF assms(2)] obtain w where w: "toString (err_code e) = Inr w" by blast
  then show ?thesis using assms
    by (simp add: toGrpcStatus_def toExpected_def status_ok_def toGrpcStatusCode_not_ok toError_def
        Error_of_details_def details_of_Error_def code_of_number_listed)
qed

lemma cas_result_listed: "cas_result m k v = Inl e \<Longrightarrow> err_code e \<in> set listed_codes"
  by (auto simp: cas_result_def version_mismatch_def missing_key_def listed_codes_def split: option.splits if_splits)

lemma value_answer_seen:
  assumes "\<And>d. unpack (pack d) = Some d"
  shows "\<exists>r. value_answer pack reply \<lparr>st_key = x, st_u = UValue (m (mk_key (pk_data k)))\<rparr> = Inr r \<and>
    seen_by_client unpack r = Inr (spec_lookup m k reply)"
proof (cases "m (mk_key (pk_data k))")
  case None
  have "err_code (mk_Error KeyNotFound ''key not found'') \<in> set listed_codes"
    by (simp add: mk_Error_def listed_codes_def)
  from toGrpcStatus_seen [of unpack pack, OF assms this] None show ?thesis
    by (auto simp: value_answer_def spec_lookup_def seen_by_client_def)
next
  case (Some v)
  then show ?thesis
    by (simp add: value_answer_def spec_lookup_def seen_by_client_def toExpected_def status_ok_def Status_OK_def)
qed

lemmas request_defs = service_get_def service_set_def service_erase_def service_size_def Let_def
  Get_new_def Set_new_def Erase_new_def Size_new_def

text \<open>The service passes on what the state machine answers.\<close>

lemma service_call_seen:
  assumes codec: "\<And>d. unpack (pack d) = Some d"
    and h: "handle (request_command q) w = Inr (spec_reply m (request_command q), w')"
  shows "\<exists>r. service_call pack handle q w = Inr (r, w') \<and>
    seen_by_client unpack r = Inr (spec_response m q)"
proof (cases q)
  case (RqGet x)
  from value_answer_seen [of unpack pack, OF codec, of RpGet "Some (mk_key (pk_data (gq_key x)))" m "gq_key x"] h RqGet
  show ?thesis by (auto simp: request_defs)
next
  case (RqErase x)
  from value_answer_seen [of unpack pack, OF codec, of RpErase "Some (mk_key (pk_data (eq_key x)))" m "eq_key x"] h RqErase
  show ?thesis by (auto simp: request_defs)
next
  case (RqSize x)
  with h show ?thesis
    by (auto simp: request_defs State_size_def seen_by_client_def toExpected_def status_ok_def Status_OK_def)
next
  case (RqSet x)
  let ?v = "mk_value (pv_data (sq_value x)) (pv_version (sq_value x))"
  show ?thesis
  proof (cases "cas_result m (mk_key (pk_data (sq_key x))) ?v")
    case (Inl e)
    from toGrpcStatus_seen [of unpack pack, OF codec cas_result_listed [OF Inl]] h RqSet Inl
    show ?thesis by (auto simp: request_defs State_mono_def seen_by_client_def)
  next
    case (Inr u)
    with h RqSet show ?thesis
      by (auto simp: request_defs State_mono_def seen_by_client_def toExpected_def status_ok_def Status_OK_def)
  qed
qed

lemma rsm_handle_answered:
  assumes "role s = Leader" and "\<not> killed s" and "\<not> pendingSnapshot s"
    and "store_inv st" and "pending_inv p" and "start c s = (True, c', s')"
    and "\<forall>e \<in> set (es @ fs). request_key (event_command e) \<noteq> request_key c'"
    and "\<forall>d \<in> set (c' # consumed before @ consumed es @ consumed fs). implemented d"
  shows "\<exists>p2 st2. rsm_handle InMemoryKVStore before (es @ Consume c' # fs) c (s, p, st) =
    Inr (spec_reply (foldl spec_map (map_of st) (consumed before @ consumed es)) c', s', p2, st2)"
proof -
  have "\<exists>p1 st1. rsm_run InMemoryKVStore before (p, st) = Inr (p1, st1) \<and> store_inv st1 \<and> pending_inv p1 \<and>
      True \<and> map_of st1 = foldl spec_map (map_of st) (consumed before)"
    by (rule rsm_run_refines [OF assms(4,5)]) (use assms(8) in auto)
  then obtain p1 st1 where 1: "rsm_run InMemoryKVStore before (p, st) = Inr (p1, st1)" "store_inv st1"
    "pending_inv p1" "map_of st1 = foldl spec_map (map_of st) (consumed before)" by blast
  obtain n q where add: "rsm_handle_add c' p1 = (n, q)" by fastforce
  from registered_answer [OF 1(2,3) add assms(7)] assms(8) obtain p2 st2 where
    "rsm_run InMemoryKVStore (es @ Consume c' # fs) (q, st1) = Inr (p2, st2)"
    "rsm_handle_answer n p2 = Inr (spec_reply (foldl spec_map (map_of st1) (consumed es)) c')" by auto
  with 1 add assms(6) show ?thesis by (simp add: rsm_handle_def rsm_handle_start_def)
qed

section \<open>The properties\<close>


definition leader :: raft where
  "leader = idle\<lparr>role := Leader\<rparr>"

definition sample_request :: kv_request where
  "sample_request = RqGet \<lparr>gq_key = \<lparr>pk_data = ''k''\<rparr>, gq_requestid = uuid_v7_to_string (replicate 16 1)\<rparr>"


text \<open>
  A server that is not the leader, is being killed, or waits for a snapshot refuses every
  request: the client reads the error \<open>NotLeader\<close>, and neither the log, the pending requests
  nor the store change.
\<close>

theorem request_refused:
  assumes "role s \<noteq> Leader \<or> killed s \<or> pendingSnapshot s" and codec: "\<And>d. unpack (pack d) = Some d"
  shows "\<exists>r s'. service_call pack (rsm_handle E before during) q (s, p, st) = Inr (r, s', p, st) \<and>
    mainLog s' = mainLog s \<and> saved s' = saved s \<and>
    seen_by_client unpack r = Inr (Inl (mk_Error NotLeader ''not the leader''))"
proof -
  from assms(1) obtain s' where s': "rsm_handle E before during c (s, p, st) = Inr (not_the_leader, s', p, st)"
      "mainLog s' = mainLog s" "saved s' = saved s" for c
    by (cases "killed s \<or> role s \<noteq> Leader") (auto simp: rsm_handle_def rsm_handle_start_def start_def)
  have "err_code (mk_Error NotLeader ''not the leader'') \<in> set listed_codes"
    by (simp add: mk_Error_def listed_codes_def)
  from toGrpcStatus_seen [of unpack pack, OF codec this] obtain t where
    t: "toGrpcStatus pack (mk_Error NotLeader ''not the leader'') = Inr t"
    "\<forall>v :: kv_reply. toExpected unpack t v = Inr (Inl (mk_Error NotLeader ''not the leader''))" by blast
  have "\<exists>r. service_call pack (rsm_handle E before during) q (s, p, st) = Inr (r, s', p, st) \<and>
    seen_by_client unpack r = Inr (Inl (mk_Error NotLeader ''not the leader''))"
    using s'(1) t
    by (cases q) (simp_all add: service_get_def service_set_def service_erase_def service_size_def Let_def
        not_the_leader_def State_error_def value_answer_def seen_by_client_def)
  with s'(2,3) show ?thesis by blast
qed

theorem request_refused_witness:
  "\<exists>r s'. service_call enc_details (rsm_handle InMemoryKVStore [] []) sample_request (idle, pending_new, empty_store) =
      Inr (r, s', pending_new, empty_store) \<and> mainLog s' = mainLog idle \<and> saved s' = saved idle \<and>
    seen_by_client (whole dec_details) r = Inr (Inl (mk_Error NotLeader ''not the leader''))"
  by (rule request_refused) (simp_all add: idle_def raft_members_def whole_roundtrip codec_details)

text \<open>The reply type of a request type.\<close>

fun reply_matches :: "kv_request \<Rightarrow> kv_reply \<Rightarrow> bool" where
  "reply_matches (RqGet _) (RpGet _) = True"
| "reply_matches (RqSet _) RpSet = True"
| "reply_matches (RqErase _) (RpErase _) = True"
| "reply_matches (RqSize _) (RpSize _) = True"
| "reply_matches _ _ = False"

lemma service_call_error:
  assumes "toGrpcStatus pack e = Inr s" and "handle (request_command q) w = Inr (\<lparr>st_key = k, st_u = UError e\<rparr>, w')"
  shows "\<exists>r. service_call pack handle q w = Inr ((s, r), w') \<and> reply_matches q r"
  using assms by (cases q) (simp_all add: request_defs value_answer_def)

lemma service_call_answer:
  assumes "handle (request_command q) w = Inr (spec_reply m (request_command q), w')"
  shows "\<exists>s r. service_call pack handle q w = Inr ((s, r), w') \<and> reply_matches q r"
proof -
  have listed: "\<exists>t. toGrpcStatus pack e = Inr t" if "err_code e \<in> set listed_codes" for e
    using toString_listed [OF that] by (auto simp: toGrpcStatus_def)
  have missing: "\<exists>t. toGrpcStatus pack (mk_Error KeyNotFound ''key not found'') = Inr t"
    by (rule listed) (simp add: mk_Error_def listed_codes_def)
  have va: "\<exists>t v. value_answer pack reply \<lparr>st_key = x, st_u = UValue y\<rparr> = Inr (t, reply v)" for reply x y
    using missing by (cases y) (auto simp: value_answer_def)
  show ?thesis
  proof (cases q)
    case (RqGet x)
    with assms va [of RpGet "Some (mk_key (pk_data (gq_key x)))" "m (mk_key (pk_data (gq_key x)))"] show ?thesis
      by (auto simp: request_defs)
  next
    case (RqErase x)
    with assms va [of RpErase "Some (mk_key (pk_data (eq_key x)))" "m (mk_key (pk_data (eq_key x)))"] show ?thesis
      by (auto simp: request_defs)
  next
    case (RqSize x)
    with assms show ?thesis by (auto simp: request_defs State_size_def)
  next
    case (RqSet x)
    with assms listed cas_result_listed show ?thesis
      by (fastforce simp: request_defs State_mono_def split: sum.splits)
  qed
qed

text \<open>
  C29: the answers have the types that the handlers expect. Whatever the state machine answers
  to the command of a request, or when it refuses or cancels it, the handler reads the
  variant that is there, does not throw, and returns a reply of the type of the request.
\<close>

theorem service_well_typed:
  assumes "handle (request_command q) w = Inr (state, w')"
    and "state = not_the_leader \<or> state = changed_leader \<or>
      store_inv st \<and> applyCommand InMemoryKVStore st (with_header h (request_command q)) = Inr (state, st')"
  shows "\<exists>s r. service_call pack handle q w = Inr ((s, r), w') \<and> reply_matches q r"
proof -
  have nl: "\<exists>t. toGrpcStatus pack (mk_Error NotLeader m) = Inr t" for m
    using toString_listed [of NotLeader] by (auto simp: toGrpcStatus_def mk_Error_def listed_codes_def)
  from assms(2) consider m where "state = \<lparr>st_key = None, st_u = UError (mk_Error NotLeader m)\<rparr>"
    | "store_inv st" "applyCommand InMemoryKVStore st (with_header h (request_command q)) = Inr (state, st')"
    by (auto simp: not_the_leader_def changed_leader_def State_error_def)
  then show ?thesis
  proof cases
    case 1
    from nl obtain t where "toGrpcStatus pack (mk_Error NotLeader m) = Inr t" by blast
    from service_call_error [OF this, where handle = handle and q = q and w = w and k = None and w' = w'] assms(1) 1 show ?thesis by auto
  next
    case 2
    from mem.applyCommand_refines [OF 2(1), of "with_header h (request_command q)"] 2(2)
    have "state = spec_reply (map_of st) (request_command q)" by auto
    then show ?thesis using service_call_answer [of handle q w "map_of st" w' pack] assms(1) by simp
  qed
qed

theorem service_well_typed_witness:
  "\<exists>w s r. service_call enc_details (\<lambda>c st. applyCommand InMemoryKVStore st c) sample_request empty_store = Inr ((s, r), w) \<and>
     reply_matches sample_request r"
proof -
  let ?c = "request_command sample_request"
  have inv: "store_inv empty_store" by (simp add: store_inv_def empty_store_def)
  have h: "with_header (cmd_header ?c) ?c = ?c" by (simp add: sample_request_def Get_new_def)
  from mem.applyCommand_refines [OF inv, of ?c] obtain st where
    st: "applyCommand InMemoryKVStore empty_store ?c = Inr (spec_reply (map_of empty_store) ?c, st)"
    by (auto simp: sample_request_def Get_new_def implemented_def)
  then show ?thesis
    using service_well_typed [of "\<lambda>c st. applyCommand InMemoryKVStore st c" sample_request empty_store _ st empty_store
        "cmd_header ?c" st enc_details] inv h by auto
qed

end
