(* ===== verification/Rpc.thy ===== *)
theory Rpc
  imports KvService
begin

text \<open>
  \<open>src/include/common/RPCService.hpp\<close> and the tables of calls in \<open>src/client/Config.cpp\<close>: a
  connection to one server, its circuit breaker, and the operations it can call.

  gRPC channels are not code of this repository. \<open>conn_env\<close> gives the state that the n-th
  \<open>GetState\<close> reads and the result of the n-th \<open>WaitForConnected\<close>; the record \<open>conns\<close>
  counts these accesses and the channels that were created, which serve as their names. The
  remote calls are the ones of the environment of \<open>Retry\<close>; \<open>replies n\<close> is the reply message
  that the n-th of them leaves behind.
\<close>

section \<open>Connections\<close>

datatype conn_state = CH_IDLE | CH_CONNECTING | CH_READY | CH_TRANSIENT_FAILURE | CH_SHUTDOWN

record conn_env =
  ce_state :: "nat \<Rightarrow> conn_state"
  ce_wait :: "nat \<Rightarrow> bool"

record conns =
  cn_states :: nat
  cn_waits :: nat
  cn_made :: nat

definition conns_init :: conns where
  "conns_init = \<lparr>cn_states = 0, cn_waits = 0, cn_made = 0\<rparr>"

text \<open>
  An entry of the function table: it compares the type of the request with the one of its call
  and answers itself (\<open>Some\<close>) or passes the request to the stub (\<open>None\<close>).
\<close>

type_synonym 'q function_t = "'q \<Rightarrow> Status option"

record 'q RPCService =
  svc_addr :: string
  svc_policy :: RetryPolicy
  svc_breaker :: CircuitBreaker
  svc_functions :: "(string, 'q function_t option) umap"
  svc_channel :: "nat option"
  svc_stub :: "nat option"

definition RPCService_new :: "string \<Rightarrow> RetryPolicy \<Rightarrow> (string, 'q function_t option) umap \<Rightarrow> 'q RPCService" where
  "RPCService_new address p f = \<lparr>svc_addr = address, svc_policy = p, svc_breaker = mk_CircuitBreaker p,
     svc_functions = f, svc_channel = None, svc_stub = None\<rparr>"

definition get_state :: "conn_env \<Rightarrow> conns \<Rightarrow> conn_state \<times> conns" where
  "get_state C n = (ce_state C (cn_states n), n\<lparr>cn_states := cn_states n + 1\<rparr>)"

definition wait_for_connected :: "conn_env \<Rightarrow> conns \<Rightarrow> bool \<times> conns" where
  "wait_for_connected C n = (ce_wait C (cn_waits n), n\<lparr>cn_waits := cn_waits n + 1\<rparr>)"

text \<open>\<open>if (!stub) stub = Service::NewStub(channel)\<close>.\<close>

definition ensure_stub :: "'q RPCService \<Rightarrow> 'q RPCService" where
  "ensure_stub s = (if svc_stub s = None then s\<lparr>svc_stub := svc_channel s\<rparr> else s)"

text \<open>The second half of \<open>connect\<close>: a new channel.\<close>

definition rpc_new_channel :: "conn_env \<Rightarrow> 'q RPCService \<Rightarrow> conns \<Rightarrow> (Error + unit) \<times> 'q RPCService \<times> conns" where
  "rpc_new_channel C s n =
     (let s1 = s\<lparr>svc_channel := Some (cn_made n)\<rparr>;
          (connected, n1) = wait_for_connected C (n\<lparr>cn_made := cn_made n + 1\<rparr>)
      in if \<not> connected
         then (Inl (mk_Error Unknown (''Could not connect to service @'' @ svc_addr s)), s1, n1)
         else (Inr (), s1\<lparr>svc_stub := svc_channel s1\<rparr>, n1))"

definition rpc_connect :: "conn_env \<Rightarrow> 'q RPCService \<Rightarrow> conns \<Rightarrow> (Error + unit) \<times> 'q RPCService \<times> conns" where
  "rpc_connect C s n =
     (if svc_channel s = None then rpc_new_channel C s n
      else
        let (state, n1) = get_state C n in
        if state \<in> {CH_READY, CH_IDLE, CH_CONNECTING}
        then if state = CH_READY then (Inr (), ensure_stub s, n1)
             else let (connected, n2) = wait_for_connected C n1
                  in if connected then (Inr (), ensure_stub s, n2) else rpc_new_channel C s n2
        else rpc_new_channel C s n1)"

definition rpc_connected :: "conn_env \<Rightarrow> 'q RPCService \<Rightarrow> conns \<Rightarrow> bool \<times> conns" where
  "rpc_connected C s n =
     (if svc_channel s = None \<or> svc_stub s = None then (False, n)
      else let (state, n1) = get_state C n in (state = CH_READY, n1))"

definition rpc_available :: "env \<Rightarrow> conn_env \<Rightarrow> 'q RPCService \<Rightarrow> conns \<Rightarrow> world
    \<Rightarrow> bool \<times> 'q RPCService \<times> conns \<times> world" where
  "rpc_available E C s n w =
     (let (isopen, b, w1) = breaker_is_open E (svc_breaker s) w;
          s1 = s\<lparr>svc_breaker := b\<rparr>
      in if isopen then (False, s1, n, w1)
         else let (conn, n1) = rpc_connected C s1 n
              in if conn then (True, s1, n1, w1)
                 else case rpc_connect C s1 n1 of
                        (Inl _, s2, n2) \<Rightarrow> (False, s2, n2, w1)
                      | (Inr _, s2, n2) \<Rightarrow> (True, s2, n2, w1))"

definition rpc_address :: "'q RPCService \<Rightarrow> string" where
  "rpc_address s = svc_addr s"

section \<open>Calls\<close>

text \<open>
  A function that answers itself makes no remote call; the repeater then sees its status
  whenever it runs it.
\<close>

definition bound_env :: "env \<Rightarrow> 'q function_t \<Rightarrow> 'q \<Rightarrow> env" where
  "bound_env E f request = (case f request of None \<Rightarrow> E | Some s \<Rightarrow> E\<lparr>env_rpc := \<lambda>_. s\<rparr>)"

definition rpc_call :: "env \<Rightarrow> conn_env \<Rightarrow> (nat \<Rightarrow> 'r) \<Rightarrow> string \<Rightarrow> 'q \<Rightarrow> 'q RPCService \<Rightarrow> conns \<Rightarrow> world
    \<Rightarrow> ((Error list + 'r) \<times> 'q RPCService \<times> conns \<times> world) outcome" where
  "rpc_call E C replies op request s n w =
     (let (conn, n1) = rpc_connected C s n in
      if \<not> conn then Inr (Inl [mk_Error ServiceTemporarilyUnavailable ''Not connected''], s, n1, w)
      else case map_of (svc_functions s) op of
        Some (Some f) \<Rightarrow>
          bind_outcome (breaker_call (bound_env E f request) op (svc_breaker s) w) (\<lambda>(statuses, b, w1).
            let s1 = s\<lparr>svc_breaker := b\<rparr> in
            if statuses = [] then Inl OutOfRange
            else if status_ok (last statuses) then Inr (Inr (replies (w_rpcs w1 - 1)), s1, n1, w1)
            else bind_outcome (map_outcome (toError (env_details E)) statuses) (\<lambda>errors.
              Inr (Inl errors, s1, n1, w1)))
      | _ \<Rightarrow> Inr (Inl [mk_Error Unknown (''Unknown operation: '' @ op)], s, n1, w))"

section \<open>The tables of calls\<close>

definition kv_function :: "string \<Rightarrow> (kv_request \<Rightarrow> bool) \<Rightarrow> kv_request function_t" where
  "kv_function op expected req =
     (if \<not> expected req then Some (mk_Status INVALID_ARGUMENT (op @ '': type mismatch or null resp'')) else None)"

definition getDefaultKVFunctions :: "(string, kv_request function_t option) umap" where
  "getDefaultKVFunctions =
     [(''get'', Some (kv_function ''get'' (\<lambda>q. case q of RqGet _ \<Rightarrow> True | _ \<Rightarrow> False))),
      (''set'', Some (kv_function ''set'' (\<lambda>q. case q of RqSet _ \<Rightarrow> True | _ \<Rightarrow> False))),
      (''erase'', Some (kv_function ''erase'' (\<lambda>q. case q of RqErase _ \<Rightarrow> True | _ \<Rightarrow> False))),
      (''size'', Some (kv_function ''size'' (\<lambda>q. case q of RqSize _ \<Rightarrow> True | _ \<Rightarrow> False)))]"

definition raft_function :: "string \<Rightarrow> (raft_message \<Rightarrow> bool) \<Rightarrow> raft_message function_t" where
  "raft_function op expected req =
     (if \<not> expected req then Some (mk_Status INVALID_ARGUMENT (op @ '': type mismatch or null resp'')) else None)"

definition getDefaultRaftFunctions :: "(string, raft_message function_t option) umap" where
  "getDefaultRaftFunctions =
     [(''appendEntries'', Some (raft_function ''appendEntries''
         (\<lambda>q. case q of PbAppendEntriesArg _ _ _ _ _ _ \<Rightarrow> True | _ \<Rightarrow> False))),
      (''requestVote'', Some (raft_function ''requestVote''
         (\<lambda>q. case q of PbRequestVoteArg _ _ _ _ \<Rightarrow> True | _ \<Rightarrow> False)))]"

section \<open>Facts\<close>

text \<open>
  What the theorems assume of the environment: draws stay in their interval, and an empty
  \<open>Any\<close> holds no error details.
\<close>

definition net_ok :: "env \<Rightarrow> bool" where
  "net_ok E \<longleftrightarrow> fair_draws E \<and> env_details E '''' = None"

text \<open>A service whose breaker follows a usable policy and whose table passes \<open>op\<close> requests on.\<close>

definition service_ok :: "string \<Rightarrow> 'q \<Rightarrow> 'q RPCService \<Rightarrow> bool" where
  "service_ok op q s \<longleftrightarrow> breaker_ok (svc_breaker s) \<and>
     (\<exists>f. map_of (svc_functions s) op = Some (Some f) \<and> f q = None)"

definition same_service :: "'q RPCService \<Rightarrow> 'q RPCService \<Rightarrow> bool" where
  "same_service s s' \<longleftrightarrow> svc_functions s' = svc_functions s \<and> svc_addr s' = svc_addr s \<and>
     cb_policy (svc_breaker s') = cb_policy (svc_breaker s) \<and> (breaker_ok (svc_breaker s) \<longrightarrow> breaker_ok (svc_breaker s'))"

lemma same_service_refl [simp]: "same_service s s"
  by (simp add: same_service_def)

lemma same_service_ok: "same_service s s' \<Longrightarrow> service_ok op q s \<Longrightarrow> service_ok op q s'"
  by (simp add: same_service_def service_ok_def)

lemma same_service_channel [simp]: "same_service s (s'\<lparr>svc_channel := c\<rparr>) = same_service s s'"
  "same_service s (s'\<lparr>svc_stub := c\<rparr>) = same_service s s'" "same_service s (ensure_stub s') = same_service s s'"
  by (simp_all add: same_service_def ensure_stub_def)

lemma rpc_connect_same: "same_service s (fst (snd (rpc_connect C s n)))"
  by (simp add: rpc_connect_def rpc_new_channel_def Let_def get_state_def wait_for_connected_def)

lemma breaker_is_open_same:
  "breaker_is_open E b w = (r, b', w') \<Longrightarrow> cb_policy b' = cb_policy b \<and> (breaker_ok b \<longrightarrow> breaker_ok b') \<and> w_rpcs w' = w_rpcs w"
  by (auto simp: breaker_is_open_def read_clock_def Let_def breaker_ok_def split: if_splits)

lemma rpc_available_same:
  assumes "rpc_available E C s n w = (r, s', n', w')"
  shows "same_service s s'" and "w_rpcs w' = w_rpcs w"
proof -
  obtain o' b w1 where o: "breaker_is_open E (svc_breaker s) w = (o', b, w1)" by (metis prod_cases3)
  let ?s = "s\<lparr>svc_breaker := b\<rparr>"
  note bo = breaker_is_open_same [OF o]
  obtain c n1 where c: "rpc_connected C ?s n = (c, n1)" by fastforce
  obtain e s2 n2 where e: "rpc_connect C ?s n1 = (e, s2, n2)" by (metis prod_cases3)
  have s1: "same_service s ?s" using bo by (simp add: same_service_def)
  have s2: "same_service s s2" using rpc_connect_same [of ?s C n1] s1 e by (auto simp: same_service_def)
  from assms o c e s1 s2 show "same_service s s'"
    by (auto simp: rpc_available_def Let_def split: if_splits sum.splits)
  from assms o c e bo show "w_rpcs w' = w_rpcs w"
    by (auto simp: rpc_available_def Let_def split: if_splits sum.splits)
qed

lemma map_outcome_failures:
  "\<forall>s \<in> set ss. \<not> status_ok s \<Longrightarrow> \<exists>es. map_outcome (toError d) ss = Inr es \<and> map Inr es = map (toError d) ss"
proof (induction ss)
  case (Cons s ss)
  from Cons.prems toError_failure [of s d] obtain e where "toError d s = Inr e" by auto
  with Cons show ?case by auto
qed simp

lemma retriable_not_ok: "retriable_failure E op s \<Longrightarrow> \<not> status_ok s"
  by (auto simp: retriable_failure_def toError_def status_ok_def)

lemma report_failures:
  assumes "report_of E op a z ss" and "\<not> status_ok (last ss)"
  shows "\<forall>s \<in> set ss. \<not> status_ok s"
proof -
  have "ss = butlast ss @ [last ss]" using assms(1) by (simp add: report_of_def)
  then have "set ss = insert (last ss) (set (butlast ss))" by (metis Un_commute insert_is_Un list.set(1) list.set(2) set_append)
  with assms show ?thesis by (auto simp: report_of_def retriable_not_ok)
qed

lemma report_ok_last:
  assumes "report_of E op a z ss" and "status_ok (last ss)"
  shows "a < z \<and> last ss = env_rpc E (z - 1)"
proof -
  have "\<not> status_ok stopped_status" by (simp add: stopped_status_def mk_Status_def status_ok_def)
  with assms have "ss = map (env_rpc E) [a..<z]" "ss \<noteq> []" unfolding report_of_def by force+
  moreover from this have "a < z" by auto
  ultimately show ?thesis by (simp add: last_map)
qed

text \<open>What a call yields: a refusal without a remote call, or the report of the remote calls it made.\<close>

definition call_result :: "env \<Rightarrow> (nat \<Rightarrow> 'r) \<Rightarrow> string \<Rightarrow> nat \<Rightarrow> nat \<Rightarrow> Error list + 'r \<Rightarrow> bool" where
  "call_result E replies op a z r \<longleftrightarrow>
     (\<exists>e. r = Inl [e] \<and> err_code e = ServiceTemporarilyUnavailable \<and> z = a) \<or>
     (\<exists>ss. report_of E op a z ss \<and>
        (if status_ok (last ss) then r = Inr (replies (z - 1))
         else \<exists>es. r = Inl es \<and> map Inr es = map (toError (env_details E)) ss))"

lemma rpc_call_result:
  assumes ok: "service_ok op q s" and net: "net_ok E"
  shows "\<exists>r s' n' w'. rpc_call E C replies op q s n w = Inr (r, s', n', w') \<and> same_service s s' \<and>
    w_rpcs w' \<le> w_rpcs w + nat (max 1 (failureThreshold (cb_policy (svc_breaker s)))) \<and>
    call_result E replies op (w_rpcs w) (w_rpcs w') r"
proof -
  from ok obtain f where f: "map_of (svc_functions s) op = Some (Some f)" "f q = None" and b: "breaker_ok (svc_breaker s)"
    by (auto simp: service_ok_def)
  obtain c n1 where c: "rpc_connected C s n = (c, n1)" by fastforce
  show ?thesis
  proof (cases c)
    case False
    with c show ?thesis by (auto simp: rpc_call_def call_result_def mk_Error_def)
  next
    case True
    from breaker_call_returns [OF b, of E op w] net obtain ss b' w' where
      r: "breaker_call E op (svc_breaker s) w = Inr (ss, b', w')" "breaker_ok b'" "cb_policy b' = cb_policy (svc_breaker s)"
        "ss = [breaker_open_status] \<and> w_rpcs w' = w_rpcs w \<or> report_of E op (w_rpcs w) (w_rpcs w') ss"
        "w_rpcs w' \<le> w_rpcs w + nat (max 1 (failureThreshold (cb_policy (svc_breaker s))))"
      unfolding breaker_returns_def net_ok_def by blast
    have env: "bound_env E f q = E" using f(2) by (simp add: bound_env_def)
    have same: "same_service s (s\<lparr>svc_breaker := b'\<rparr>)" using r(2,3) by (simp add: same_service_def)
    have "\<exists>res. rpc_call E C replies op q s n w = Inr (res, s\<lparr>svc_breaker := b'\<rparr>, n1, w') \<and>
        call_result E replies op (w_rpcs w) (w_rpcs w') res"
      using r(4)
    proof
      assume o: "ss = [breaker_open_status] \<and> w_rpcs w' = w_rpcs w"
      then show ?thesis using net c True f env r(1)
        by (auto simp: rpc_call_def Let_def breaker_open_status_def mk_Status_def status_ok_def toError_def net_ok_def
            mk_Error_def call_result_def)
    next
      assume rep: "report_of E op (w_rpcs w) (w_rpcs w') ss"
      then have "ss \<noteq> []" by (simp add: report_of_def)
      show ?thesis
      proof (cases "status_ok (last ss)")
        case okay: True
        with rep c True f env r(1) \<open>ss \<noteq> []\<close> show ?thesis by (auto simp: rpc_call_def Let_def call_result_def)
      next
        case False
        from map_outcome_failures [OF report_failures [OF rep False], of "env_details E"] obtain es where
          es: "map_outcome (toError (env_details E)) ss = Inr es" "map Inr es = map (toError (env_details E)) ss" by blast
        with rep c True False f env r(1) \<open>ss \<noteq> []\<close> show ?thesis by (auto simp: rpc_call_def Let_def call_result_def)
      qed
    qed
    with same r(5) show ?thesis by blast
  qed
qed

text \<open>The operation a client names for a request; the default table passes it on.\<close>

fun request_op :: "kv_request \<Rightarrow> string" where
  "request_op (RqGet q) = ''get''"
| "request_op (RqSet q) = ''set''"
| "request_op (RqErase q) = ''erase''"
| "request_op (RqSize q) = ''size''"

lemma service_ok_default:
  "breaker_ok (svc_breaker s) \<Longrightarrow> svc_functions s = getDefaultKVFunctions \<Longrightarrow> service_ok (request_op q) q s"
  by (cases q) (simp_all add: service_ok_def getDefaultKVFunctions_def kv_function_def)

lemma breaker_ok_new: "policy_ok p \<Longrightarrow> failureThreshold p \<le> 65 \<Longrightarrow> breaker_ok (mk_CircuitBreaker p)"
  by (simp add: breaker_ok_def mk_CircuitBreaker_def mk_ExponentialBackoff_def)

section \<open>The properties\<close>

text \<open>
  A call to one server always returns, after at most as many remote calls as the failure
  threshold (one if the threshold is below 1). A success carries the reply of the last remote
  call, which had the status OK; a failure carries at least one error and at most one more
  than there were remote calls.
\<close>

theorem rpc_call_returns:
  assumes "breaker_ok (svc_breaker s)" and "svc_functions s = getDefaultKVFunctions"
    and "\<And>n v. 0 \<le> v \<Longrightarrow> 0 \<le> env_draw E n v \<and> env_draw E n v \<le> v" and "env_details E '''' = None"
  shows "\<exists>r s' n' w'. rpc_call E C replies (request_op q) q s n w = Inr (r, s', n', w') \<and>
    w_rpcs w' \<le> w_rpcs w + nat (max 1 (failureThreshold (cb_policy (svc_breaker s)))) \<and>
    (case r of
       Inr x \<Rightarrow> w_rpcs w < w_rpcs w' \<and> status_ok (env_rpc E (w_rpcs w' - 1)) \<and> x = replies (w_rpcs w' - 1)
     | Inl es \<Rightarrow> es \<noteq> [] \<and> length es \<le> Suc (w_rpcs w' - w_rpcs w))"
proof -
  have net: "net_ok E" using assms(3,4) by (simp add: net_ok_def fair_draws_def)
  from rpc_call_result [OF service_ok_default [OF assms(1,2)] net, of C replies q n w] obtain r s' n' w' where
    r: "rpc_call E C replies (request_op q) q s n w = Inr (r, s', n', w')"
      "w_rpcs w' \<le> w_rpcs w + nat (max 1 (failureThreshold (cb_policy (svc_breaker s))))"
      "call_result E replies (request_op q) (w_rpcs w) (w_rpcs w') r" by blast
  have errs: "es \<noteq> [] \<and> length es \<le> Suc (z - a)"
    if "report_of E op a z ss" and "map Inr es = map (toError (env_details E)) ss" for es ss op a z
  proof -
    have "length es = length ss" using that(2) by (metis length_map)
    moreover have "ss \<noteq> [] \<and> length ss \<le> Suc (z - a)" using that(1) by (auto simp: report_of_def)
    ultimately show ?thesis by auto
  qed
  from r(3) have "case r of
       Inr x \<Rightarrow> w_rpcs w < w_rpcs w' \<and> status_ok (env_rpc E (w_rpcs w' - 1)) \<and> x = replies (w_rpcs w' - 1)
     | Inl es \<Rightarrow> es \<noteq> [] \<and> length es \<le> Suc (w_rpcs w' - w_rpcs w)"
    unfolding call_result_def
    by (auto split: if_splits dest: report_ok_last errs)
  with r show ?thesis by blast
qed

definition connected_service :: "kv_request RPCService" where
  "connected_service = (RPCService_new ''s1'' sample_policy getDefaultKVFunctions)\<lparr>svc_channel := Some 0, svc_stub := Some 0\<rparr>"

definition ready_net :: conn_env where
  "ready_net = \<lparr>ce_state = (\<lambda>_. CH_READY), ce_wait = (\<lambda>_. True)\<rparr>"

theorem rpc_call_returns_witness:
  "\<exists>r s' n' w'. rpc_call (calm_env (\<lambda>_. Status_OK)) ready_net (\<lambda>_. RpSize 0) (request_op sample_request) sample_request
       connected_service conns_init world_init = Inr (r, s', n', w') \<and>
    w_rpcs w' \<le> w_rpcs world_init + nat (max 1 (failureThreshold (cb_policy (svc_breaker connected_service)))) \<and>
    (case r of
       Inr x \<Rightarrow> w_rpcs world_init < w_rpcs w' \<and> status_ok (env_rpc (calm_env (\<lambda>_. Status_OK)) (w_rpcs w' - 1)) \<and> x = RpSize 0
     | Inl es \<Rightarrow> es \<noteq> [] \<and> length es \<le> Suc (w_rpcs w' - w_rpcs world_init))"
  by (rule rpc_call_returns)
    (simp_all add: connected_service_def RPCService_new_def breaker_ok_new sample_policy_def policy_ok_def calm_env_def)

text \<open>
  The table of Raft calls has no entry for InstallSnapshot, so a snapshot never leaves the
  leader: the call returns an error at once and makes no remote call.
\<close>

theorem snapshot_call_unknown:
  assumes "svc_functions s = getDefaultRaftFunctions"
  shows "\<exists>e n'. rpc_call E C replies ''installSnapshot'' q s n w = Inr (Inl [e], s, n', w) \<and>
    (err_code e = Unknown \<or> err_code e = ServiceTemporarilyUnavailable)"
  using assms by (auto simp: rpc_call_def getDefaultRaftFunctions_def mk_Error_def split: prod.split)

theorem snapshot_call_unknown_witness:
  "\<exists>e n'. rpc_call (calm_env (\<lambda>_. Status_OK)) ready_net (\<lambda>_. ()) ''installSnapshot'' (PbInstallSnapshotArg ''a'' 1 1 1 '''')
       (RPCService_new ''s1'' sample_policy getDefaultRaftFunctions) conns_init world_init =
       Inr (Inl [e], RPCService_new ''s1'' sample_policy getDefaultRaftFunctions, n', world_init) \<and>
    (err_code e = Unknown \<or> err_code e = ServiceTemporarilyUnavailable)"
  by (rule snapshot_call_unknown) (simp add: RPCService_new_def)

text \<open>
  A failed reconnection replaces the channel but keeps the stub of the old one. When the new
  channel becomes ready later, the service counts as connected and goes on calling through the
  stub of the channel it has given up.
\<close>

theorem stale_stub:
  assumes "svc_channel s = Some c" and "svc_stub s = Some c" and "c < cn_made n"
    and "ce_state C (cn_states n) = CH_TRANSIENT_FAILURE" and "\<not> ce_wait C (cn_waits n)"
    and "ce_state C (Suc (cn_states n)) = CH_READY"
  shows "\<exists>e s' n' n''. rpc_connect C s n = (Inl e, s', n') \<and> rpc_connected C s' n' = (True, n'') \<and>
    svc_channel s' = Some (cn_made n) \<and> svc_stub s' = Some c \<and> fst (rpc_connect C s' n') = Inr () \<and>
    svc_stub (fst (snd (rpc_connect C s' n'))) = Some c"
  using assms
  by (auto simp: rpc_connect_def rpc_new_channel_def rpc_connected_def get_state_def wait_for_connected_def
      ensure_stub_def Let_def)

theorem stale_stub_witness:
  "\<exists>e s' n' n''. rpc_connect \<lparr>ce_state = (\<lambda>k. if k = 0 then CH_TRANSIENT_FAILURE else CH_READY), ce_wait = (\<lambda>_. False)\<rparr>
      connected_service (conns_init\<lparr>cn_made := 1\<rparr>) = (Inl e, s', n') \<and>
    rpc_connected \<lparr>ce_state = (\<lambda>k. if k = 0 then CH_TRANSIENT_FAILURE else CH_READY), ce_wait = (\<lambda>_. False)\<rparr> s' n' = (True, n'') \<and>
    svc_channel s' = Some 1 \<and> svc_stub s' = Some 0"
  using stale_stub [of connected_service 0 "conns_init\<lparr>cn_made := 1\<rparr>"
      "\<lparr>ce_state = (\<lambda>k. if k = 0 then CH_TRANSIENT_FAILURE else CH_READY), ce_wait = (\<lambda>_. False)\<rparr>"]
  by (auto simp: connected_service_def conns_init_def)

end
