(* ===== verification/ClientConfig.thy ===== *)
theory ClientConfig
  imports Rpc "HOL-Library.Multiset"
begin

text \<open>
  \<open>src/client/Config.cpp\<close>: the servers a client knows and the choice of the one it calls. The
  hash table \<open>services\<close> is an association list in its iteration order, an iterator is a
  position (\<open>None\<close>: the end), and the pointer to a service that the functions return is its
  position too. Everything a choice reads or changes is in the record \<open>client\<close>: the
  configuration, the connections and the world of the retries. \<open>rand n\<close> is the n-th draw of
  \<open>dist(rng)\<close>.
\<close>

section \<open>Definitions\<close>

record Config =
  cfg_policy :: RetryPolicy
  services :: "(string, kv_request RPCService) umap"
  cService :: "nat option"
  cfg_range :: nat
  cfg_draws :: nat

record client =
  cl_config :: Config
  cl_conns :: conns
  cl_world :: world
  cl_uuids :: nat

text \<open>
  The outside of a client: the environment of its remote calls and connections, the replies,
  the draws for the choice of a service, and the request identifiers it generates.
\<close>

record net =
  net_env :: env
  net_conn :: conn_env
  net_reply :: "nat \<Rightarrow> kv_reply"
  net_rand :: "nat \<Rightarrow> nat"
  net_uuid :: "nat \<Rightarrow> string"

text \<open>
  \<open>emplace\<close> does nothing for an address that is there already. \<open>arrange\<close> is the iteration
  order of the table. The range of \<open>dist\<close> comes from the list of addresses.
\<close>

definition Config_new :: "((string, kv_request RPCService) umap \<Rightarrow> (string, kv_request RPCService) umap) \<Rightarrow> string list
    \<Rightarrow> RetryPolicy \<Rightarrow> (string, kv_request function_t option) umap \<Rightarrow> Config outcome" where
  "Config_new arrange addresses p f =
     (if addresses = [] then Inl (InvalidArgument ''Config: No addresses provided'')
      else Inr \<lparr>cfg_policy = p,
                services = arrange (fold (\<lambda>a m. if map_of m a = None then m @ [(a, RPCService_new a p f)] else m) addresses []),
                cService = None, cfg_range = length addresses, cfg_draws = 0\<rparr>)"

definition client_new :: "Config \<Rightarrow> client" where
  "client_new c = \<lparr>cl_config = c, cl_conns = conns_init, cl_world = world_init, cl_uuids = 0\<rparr>"

definition service_at :: "client \<Rightarrow> nat \<Rightarrow> kv_request RPCService" where
  "service_at k i = snd (services (cl_config k) ! i)"

definition put_service :: "nat \<Rightarrow> kv_request RPCService \<Rightarrow> client \<Rightarrow> client" where
  "put_service i s k =
     k\<lparr>cl_config := (cl_config k)\<lparr>services :=
         (services (cl_config k))[i := (fst (services (cl_config k) ! i), s)]\<rparr>\<rparr>"

definition set_cService :: "nat option \<Rightarrow> client \<Rightarrow> client" where
  "set_cService i k = k\<lparr>cl_config := (cl_config k)\<lparr>cService := i\<rparr>\<rparr>"

text \<open>\<open>i->second.available()\<close>.\<close>

definition ask_available :: "net \<Rightarrow> nat \<Rightarrow> client \<Rightarrow> bool \<times> client" where
  "ask_available N i k =
     (case rpc_available (net_env N) (net_conn N) (service_at k i) (cl_conns k) (cl_world k) of
        (b, s, n, w) \<Rightarrow> (b, (put_service i s k)\<lparr>cl_conns := n, cl_world := w\<rparr>))"

fun scan_services :: "net \<Rightarrow> nat list \<Rightarrow> client \<Rightarrow> nat option \<times> client" where
  "scan_services N [] k = (None, k)"
| "scan_services N (i # is) k =
     (if Some i = cService (cl_config k) then scan_services N is k
      else case ask_available N i k of
             (True, k') \<Rightarrow> (Some i, k')
           | (False, k') \<Rightarrow> scan_services N is k')"

definition nextActiveServiceIterator :: "net \<Rightarrow> client \<Rightarrow> nat option \<times> client" where
  "nextActiveServiceIterator N k = scan_services N [0..<length (services (cl_config k))] k"

definition no_services_left :: Error where
  "no_services_left = mk_Error AllServicesUnavailable ''No available services left''"

definition nextService :: "net \<Rightarrow> client \<Rightarrow> (Error + nat) \<times> client" where
  "nextService N k =
     (let (cok, k1) = (case cService (cl_config k) of
                         None \<Rightarrow> (False, k)
                       | Some i \<Rightarrow> ask_available N i k)
      in case (cok, cService (cl_config k)) of
           (True, Some i) \<Rightarrow> (Inr i, k1)
         | _ \<Rightarrow>
             (case nextActiveServiceIterator N k1 of
                (None, k2) \<Rightarrow> (Inl no_services_left, set_cService None k2)
              | (Some i, k2) \<Rightarrow> (Inr i, set_cService (Some i) k2)))"

text \<open>The iterator \<open>std::next(services.begin(), d)\<close> beyond the end is undefined.\<close>

fun random_tries :: "net \<Rightarrow> nat \<Rightarrow> client \<Rightarrow> ((Error + nat) \<times> client) outcome" where
  "random_tries N 0 k = Inr (Inl no_services_left, k)"
| "random_tries N (Suc j) k =
     (let i = net_rand N (cfg_draws (cl_config k));
          k1 = k\<lparr>cl_config := (cl_config k)\<lparr>cfg_draws := cfg_draws (cl_config k) + 1\<rparr>\<rparr>
      in if i \<ge> length (services (cl_config k)) then Inl OutOfRange
         else if Some i = cService (cl_config k1) then random_tries N j k1
         else case ask_available N i k1 of
                (True, k2) \<Rightarrow> Inr (Inr i, set_cService (Some i) k2)
              | (False, k2) \<Rightarrow> random_tries N j k2)"

definition randomService :: "net \<Rightarrow> client \<Rightarrow> ((Error + nat) \<times> client) outcome" where
  "randomService N k = random_tries N (10 * length (services (cl_config k))) k"

section \<open>Facts\<close>

definition same_entry :: "string \<times> kv_request RPCService \<Rightarrow> string \<times> kv_request RPCService \<Rightarrow> bool" where
  "same_entry x y \<longleftrightarrow> fst y = fst x \<and> same_service (snd x) (snd y)"

lemma same_entry_trans: "same_entry x y \<Longrightarrow> same_entry y z \<Longrightarrow> same_entry x z"
  by (simp add: same_entry_def same_service_def)

text \<open>
  What every choice keeps: the servers, the tables and policies of their services, and the
  number of remote calls.
\<close>

definition same_client :: "client \<Rightarrow> client \<Rightarrow> bool" where
  "same_client k k' \<longleftrightarrow>
     list_all2 same_entry (services (cl_config k)) (services (cl_config k')) \<and>
     cfg_policy (cl_config k') = cfg_policy (cl_config k) \<and> cfg_range (cl_config k') = cfg_range (cl_config k) \<and>
     cl_uuids k' = cl_uuids k"

lemma same_client_refl [simp]: "same_client k k"
  by (auto simp: same_client_def same_entry_def list_all2_conv_all_nth)

lemma same_client_trans: "same_client k k1 \<Longrightarrow> same_client k1 k2 \<Longrightarrow> same_client k k2"
  unfolding same_client_def
  using list_all2_trans [of same_entry same_entry same_entry, OF same_entry_trans] by auto

lemma same_client_length: "same_client k k' \<Longrightarrow> length (services (cl_config k')) = length (services (cl_config k))"
  by (auto simp: same_client_def list_all2_lengthD)

lemma same_client_at:
  assumes "same_client k k'" and "i < length (services (cl_config k))"
  shows "same_service (service_at k i) (service_at k' i)"
  using assms by (auto simp: same_client_def service_at_def same_entry_def list_all2_conv_all_nth)

lemma same_client_set_cService [simp]: "same_client k (set_cService i k') = same_client k k'"
  by (simp add: same_client_def set_cService_def)

lemma set_cService_id: "cService (cl_config k) = i \<Longrightarrow> set_cService i k = k"
  by (auto simp: set_cService_def)

lemma same_client_put:
  assumes "same_service (service_at k i) s"
  shows "same_client k ((put_service i s k)\<lparr>cl_conns := n, cl_world := w\<rparr>)"
  using assms
  by (auto simp: same_client_def put_service_def service_at_def same_entry_def list_all2_conv_all_nth nth_list_update_at)

lemma ask_available_same:
  assumes "ask_available N i k = (b, k')"
  shows "same_client k k' \<and> w_rpcs (cl_world k') = w_rpcs (cl_world k) \<and> cService (cl_config k') = cService (cl_config k)"
proof -
  obtain r s n w where r: "rpc_available (net_env N) (net_conn N) (service_at k i) (cl_conns k) (cl_world k) = (r, s, n, w)"
    by (metis prod_cases4)
  have k': "k' = (put_service i s k)\<lparr>cl_conns := n, cl_world := w\<rparr>" using assms r by (simp add: ask_available_def)
  from rpc_available_same [OF r] same_client_put [OF rpc_available_same(1) [OF r]] k' show ?thesis by (simp add: put_service_def)
qed

lemma scan_services_same:
  assumes "scan_services N is k = (r, k')" and "set is \<subseteq> {..<length (services (cl_config k))}"
  shows "same_client k k' \<and> w_rpcs (cl_world k') = w_rpcs (cl_world k) \<and>
    (\<forall>i. r = Some i \<longrightarrow> i < length (services (cl_config k')))"
  using assms
proof (induction "is" arbitrary: k)
  case (Cons i "is")
  show ?case
  proof (cases "Some i = cService (cl_config k)")
    case True
    with Cons show ?thesis by auto
  next
    case False
    obtain b k1 where a: "ask_available N i k = (b, k1)" by fastforce
    note s1 = ask_available_same [OF a]
    have len: "length (services (cl_config k1)) = length (services (cl_config k))"
      using s1 same_client_length by blast
    show ?thesis
    proof (cases b)
      case True
      with Cons.prems False a s1 len show ?thesis by auto
    next
      case F: False
      with Cons.prems False a len have "scan_services N is k1 = (r, k')" "set is \<subseteq> {..<length (services (cl_config k1))}"
        by auto
      from Cons.IH [OF this] s1 show ?thesis using same_client_trans by auto
    qed
  qed
qed simp

lemma nextService_same:
  assumes "nextService N k = (r, k')" and "\<forall>i. cService (cl_config k) = Some i \<longrightarrow> i < length (services (cl_config k))"
  shows "same_client k k' \<and> w_rpcs (cl_world k') = w_rpcs (cl_world k) \<and>
    (\<forall>i. cService (cl_config k') = Some i \<longrightarrow> i < length (services (cl_config k'))) \<and>
    (\<forall>i. r = Inr i \<longrightarrow> cService (cl_config k') = Some i) \<and> (\<forall>e. r = Inl e \<longrightarrow> cService (cl_config k') = None \<and> e = no_services_left)"
proof -
  obtain cok k1 where c: "(case cService (cl_config k) of None \<Rightarrow> (False, k) | Some i \<Rightarrow> ask_available N i k) = (cok, k1)"
    by fastforce
  have s1: "same_client k k1 \<and> w_rpcs (cl_world k1) = w_rpcs (cl_world k) \<and> cService (cl_config k1) = cService (cl_config k)"
    using c ask_available_same by (auto split: option.splits)
  note len1 = same_client_length [OF conjunct1 [OF s1]]
  obtain q k2 where q: "nextActiveServiceIterator N k1 = (q, k2)" by fastforce
  have "set [0..<length (services (cl_config k1))] \<subseteq> {..<length (services (cl_config k1))}" by auto
  from scan_services_same [OF q [unfolded nextActiveServiceIterator_def] this] have
    s2: "same_client k1 k2" "w_rpcs (cl_world k2) = w_rpcs (cl_world k1)" "\<And>i. q = Some i \<Longrightarrow> i < length (services (cl_config k2))"
    by auto
  have s3: "same_client k k2" using s1 s2(1) same_client_trans by blast
  show ?thesis
  proof (cases "cok \<and> cService (cl_config k) \<noteq> None")
    case True
    with assms(1) c have "r = Inr (the (cService (cl_config k))) \<and> k' = k1" by (auto simp: nextService_def)
    with True s1 len1 assms(2) show ?thesis by auto
  next
    case False
    with assms(1) c q have "(case q of None \<Rightarrow> (Inl no_services_left, set_cService None k2)
        | Some i \<Rightarrow> (Inr i, set_cService (Some i) k2)) = (r, k')"
      by (auto simp: nextService_def split: bool.splits option.splits)
    with s1 s2 s3 show ?thesis by (cases q) (auto simp: set_cService_def same_client_def)
  qed
qed

lemma random_tries_same:
  assumes "\<And>n. net_rand N n < length (services (cl_config k))"
    and "\<forall>i. cService (cl_config k) = Some i \<longrightarrow> i < length (services (cl_config k))"
  shows "\<exists>r k'. random_tries N j k = Inr (r, k') \<and> same_client k k' \<and> w_rpcs (cl_world k') = w_rpcs (cl_world k) \<and>
    (\<forall>i. cService (cl_config k') = Some i \<longrightarrow> i < length (services (cl_config k')))"
  using assms
proof (induction j arbitrary: k)
  case (Suc j)
  let ?i = "net_rand N (cfg_draws (cl_config k))"
  let ?k1 = "k\<lparr>cl_config := (cl_config k)\<lparr>cfg_draws := cfg_draws (cl_config k) + 1\<rparr>\<rparr>"
  have in_range: "?i < length (services (cl_config k))" by (rule Suc.prems(1))
  have k1: "same_client k ?k1" "w_rpcs (cl_world ?k1) = w_rpcs (cl_world k)"
    by (auto simp: same_client_def same_entry_def list_all2_conv_all_nth)
  show ?case
  proof (cases "Some ?i = cService (cl_config ?k1)")
    case True
    then have eq: "random_tries N (Suc j) k = random_tries N j ?k1" using in_range by (simp add: Let_def)
    have "\<exists>r k'. random_tries N j ?k1 = Inr (r, k') \<and> same_client ?k1 k' \<and> w_rpcs (cl_world k') = w_rpcs (cl_world ?k1) \<and>
        (\<forall>i. cService (cl_config k') = Some i \<longrightarrow> i < length (services (cl_config k')))"
      by (rule Suc.IH) (use Suc.prems in simp_all)
    with k1 same_client_trans show ?thesis unfolding eq by metis
  next
    case False
    obtain b k2 where a: "ask_available N ?i ?k1 = (b, k2)" by fastforce
    note s2 = ask_available_same [OF a]
    have s: "same_client k k2" using k1(1) s2 same_client_trans by blast
    note len = same_client_length [OF s]
    show ?thesis
    proof (cases b)
      case True
      with a False in_range s s2 len show ?thesis by (auto simp: Let_def set_cService_def same_client_def)
    next
      case b: False
      have "\<exists>r k'. random_tries N j k2 = Inr (r, k') \<and> same_client k2 k' \<and> w_rpcs (cl_world k') = w_rpcs (cl_world k2) \<and>
        (\<forall>i. cService (cl_config k') = Some i \<longrightarrow> i < length (services (cl_config k')))"
        by (rule Suc.IH) (use Suc.prems len s2 in auto)
      then obtain r k' where k': "random_tries N j k2 = Inr (r, k')" "same_client k2 k'"
        "w_rpcs (cl_world k') = w_rpcs (cl_world k2)"
        "\<forall>i. cService (cl_config k') = Some i \<longrightarrow> i < length (services (cl_config k'))" by blast
      have "random_tries N (Suc j) k = Inr (r, k')" using a False b in_range k'(1) by (simp add: Let_def)
      with k' s s2 k1 same_client_trans [of k k2 k'] show ?thesis by auto
    qed
  qed
qed auto

text \<open>Asking servers one after the other, all of them without success.\<close>

fun refused_all :: "net \<Rightarrow> nat list \<Rightarrow> client \<Rightarrow> client \<Rightarrow> bool" where
  "refused_all N [] k k' \<longleftrightarrow> k' = k"
| "refused_all N (i # is) k k' \<longleftrightarrow>
     (case ask_available N i k of (True, _) \<Rightarrow> False | (False, k1) \<Rightarrow> refused_all N is k1 k')"

abbreviation not_current :: "client \<Rightarrow> nat \<Rightarrow> bool" where
  "not_current k i \<equiv> Some i \<noteq> cService (cl_config k)"

lemma scan_services_none:
  assumes "scan_services N is k = (None, k')"
  shows "refused_all N (filter (not_current k) is) k k'"
  using assms
proof (induction "is" arbitrary: k)
  case (Cons i "is")
  obtain b k1 where a: "ask_available N i k = (b, k1)" by fastforce
  have cs: "cService (cl_config k1) = cService (cl_config k)" using ask_available_same [OF a] by simp
  from Cons.prems Cons.IH [of k] Cons.IH [of k1, unfolded cs] a show ?case
    by (cases b; cases "not_current k i") simp_all
qed simp

lemma scan_services_some:
  assumes "scan_services N is k = (Some j, k')"
  shows "\<exists>before after k1. is = before @ j # after \<and> not_current k j \<and>
    refused_all N (filter (not_current k) before) k k1 \<and> ask_available N j k1 = (True, k')"
  using assms
proof (induction "is" arbitrary: k)
  case (Cons i "is")
  obtain b k1 where a: "ask_available N i k = (b, k1)" by fastforce
  have cs: "cService (cl_config k1) = cService (cl_config k)" using ask_available_same [OF a] by simp
  consider (skip) "\<not> not_current k i" | (found) "not_current k i" b | (refused) "not_current k i" "\<not> b" by blast
  then show ?case
  proof cases
    case skip
    then have "scan_services N is k = (Some j, k')" using Cons.prems by simp
    from Cons.IH [OF this] obtain before after k2 where x: "is = before @ j # after" "not_current k j"
      "refused_all N (filter (not_current k) before) k k2" "ask_available N j k2 = (True, k')" by blast
    have "refused_all N (filter (not_current k) (i # before)) k k2" using x(3) skip by simp
    with x show ?thesis by (metis append_Cons)
  next
    case found
    then have "j = i" "k' = k1" using Cons.prems a by simp_all
    moreover have "refused_all N (filter (not_current k) []) k k" by simp
    ultimately show ?thesis using found a by (metis append_Nil)
  next
    case refused
    then have "scan_services N is k1 = (Some j, k')" using Cons.prems a by simp
    from Cons.IH [OF this] obtain before after k2 where x: "is = before @ j # after" "not_current k j"
      "refused_all N (filter (not_current k) before) k1 k2" "ask_available N j k2 = (True, k')" unfolding cs by blast
    have "refused_all N (filter (not_current k) (i # before)) k k2" using x(3) refused a by simp
    with x show ?thesis by (metis append_Cons)
  qed
qed simp

section \<open>The properties\<close>

text \<open>The order in which \<open>nextService\<close> asks: the current server first, then the others in table order.\<close>

definition asking_order :: "client \<Rightarrow> nat list" where
  "asking_order k =
     (case cService (cl_config k) of None \<Rightarrow> [] | Some i \<Rightarrow> [i]) @
     filter (not_current k) [0..<length (services (cl_config k))]"

lemma asking_order_perm:
  assumes "\<forall>i. cService (cl_config k) = Some i \<longrightarrow> i < length (services (cl_config k))"
  shows "distinct (asking_order k) \<and> set (asking_order k) = {..<length (services (cl_config k))}"
  using assms by (cases "cService (cl_config k)") (auto simp: asking_order_def)

text \<open>The first server of the order that is available, after all before it have refused.\<close>

definition first_available :: "net \<Rightarrow> nat list \<Rightarrow> client \<Rightarrow> Error + nat \<Rightarrow> client \<Rightarrow> bool" where
  "first_available N order k r k' \<longleftrightarrow>
     (case r of
        Inl e \<Rightarrow> e = no_services_left \<and> (\<exists>k2. refused_all N order k k2 \<and> k' = set_cService None k2)
      | Inr i \<Rightarrow> \<exists>before after k1 k2. order = before @ i # after \<and> refused_all N before k k1 \<and>
          ask_available N i k1 = (True, k2) \<and> k' = set_cService (Some i) k2)"

lemma refused_all_append:
  "refused_all N xs a b \<Longrightarrow> refused_all N ys b c \<Longrightarrow> refused_all N (xs @ ys) a c"
  by (induction xs arbitrary: a) (auto split: prod.splits bool.splits)

lemma first_available_found:
  "order = before @ i # after \<Longrightarrow> refused_all N before k k1 \<Longrightarrow> ask_available N i k1 = (True, k2) \<Longrightarrow>
   first_available N order k (Inr i) (set_cService (Some i) k2)"
  unfolding first_available_def by auto

lemma nextActive_first:
  assumes "refused_all N pre k k1" and "same_client k k1" and cs: "cService (cl_config k1) = cService (cl_config k)"
    and r: "(case nextActiveServiceIterator N k1 of (None, k2) \<Rightarrow> (Inl no_services_left, set_cService None k2)
        | (Some i, k2) \<Rightarrow> (Inr i, set_cService (Some i) k2)) = (r, k')"
  shows "first_available N (pre @ filter (not_current k) [0..<length (services (cl_config k))]) k r k'"
proof -
  obtain q k2 where q: "nextActiveServiceIterator N k1 = (q, k2)" by fastforce
  note len = same_client_length [OF assms(2)]
  note q' = q [unfolded nextActiveServiceIterator_def]
  show ?thesis
  proof (cases q)
    case None
    with q r have "r = Inl no_services_left" "k' = set_cService None k2" by auto
    moreover from scan_services_none [OF q' [unfolded None], unfolded cs len] have "refused_all N (pre @
        filter (not_current k) [0..<length (services (cl_config k))]) k k2"
      by (rule refused_all_append [OF assms(1)])
    ultimately show ?thesis unfolding first_available_def by (simp only: sum.case) blast
  next
    case (Some i)
    with q r have rk: "r = Inr i" "k' = set_cService (Some i) k2" by auto
    from scan_services_some [OF q' [unfolded Some], unfolded cs len] obtain before after k3 where b: "[0..<length (services (cl_config k))] = before @ i # after"
      "Some i \<noteq> cService (cl_config k)"
      "refused_all N (filter (not_current k) before) k1 k3" "ask_available N i k3 = (True, k2)"
      by blast
    have "filter (not_current k) [0..<length (services (cl_config k))] =
        filter (not_current k) before @ i # filter (not_current k) after"
      unfolding b(1) using b(2) by simp
    then show ?thesis unfolding rk
      by (intro first_available_found [OF _ refused_all_append [OF assms(1) b(3)] b(4)]) simp
  qed
qed

lemma nextService_first:
  assumes "nextService N k = (r, k')"
  shows "first_available N (asking_order k) k r k'"
proof (cases "cService (cl_config k)")
  case None
  from assms None have r: "(case nextActiveServiceIterator N k of (None, k2) \<Rightarrow> (Inl no_services_left, set_cService None k2)
        | (Some i, k2) \<Rightarrow> (Inr i, set_cService (Some i) k2)) = (r, k')" by (simp add: nextService_def)
  have "refused_all N [] k k" by simp
  from nextActive_first [OF this same_client_refl refl r] show ?thesis
    unfolding asking_order_def None option.case .
next
  case (Some i)
  obtain b k1 where a: "ask_available N i k = (b, k1)" by fastforce
  note same = ask_available_same [OF a]
  have order: "asking_order k = [i] @ filter (not_current k) [0..<length (services (cl_config k))]"
    using Some by (simp add: asking_order_def)
  show ?thesis
  proof (cases b)
    case True
    then have "r = Inr i \<and> k' = k1" using assms a Some by (simp add: nextService_def)
    moreover have "set_cService (Some i) k1 = k1" using same Some by (intro set_cService_id) simp
    ultimately have rk: "r = Inr i" "k' = set_cService (Some i) k1" by simp_all
    have "asking_order k = [] @ i # filter (not_current k) [0..<length (services (cl_config k))]"
      using order by simp
    moreover have "refused_all N [] k k" by simp
    ultimately show ?thesis unfolding rk by (rule first_available_found) (use a True in simp)
  next
    case False
    then have r: "(case nextActiveServiceIterator N k1 of (None, k2) \<Rightarrow> (Inl no_services_left, set_cService None k2)
        | (Some i, k2) \<Rightarrow> (Inr i, set_cService (Some i) k2)) = (r, k')"
      using assms a Some by (simp add: nextService_def)
    have "refused_all N [i] k k1" using a False by simp
    from nextActive_first [OF this _ _ r] same show ?thesis unfolding order by blast
  qed
qed

text \<open>
  The choice of a server. \<open>nextService\<close> asks every server at most once, the current one
  first. It returns the first that is available, which becomes the current one, after all the
  ones before it have refused; it fails only if every server has refused, and then no server is
  current.
\<close>

theorem nextService_correct:
  assumes "nextService N k = (r, k')"
    and "\<forall>i. cService (cl_config k) = Some i \<longrightarrow> i < length (services (cl_config k))"
  shows "distinct (asking_order k) \<and> set (asking_order k) = {..<length (services (cl_config k))} \<and>
    (case r of
       Inl e \<Rightarrow> e = no_services_left \<and> (\<exists>k2. refused_all N (asking_order k) k k2 \<and> k' = set_cService None k2)
     | Inr i \<Rightarrow> \<exists>before after k1 k2. asking_order k = before @ i # after \<and> refused_all N before k k1 \<and>
         ask_available N i k1 = (True, k2) \<and> k' = set_cService (Some i) k2)"
proof -
  note a = asking_order_perm [OF assms(2)] and f = nextService_first [OF assms(1), unfolded first_available_def]
  from a f show ?thesis by (intro conjI) (assumption | elim conjE)+
qed

definition sample_config :: Config where
  "sample_config = \<lparr>cfg_policy = sample_policy,
     services = [(''s1'', RPCService_new ''s1'' sample_policy getDefaultKVFunctions),
                 (''s2'', RPCService_new ''s2'' sample_policy getDefaultKVFunctions)],
     cService = None, cfg_range = 2, cfg_draws = 0\<rparr>"

lemma sample_config_new:
  "Config_new (\<lambda>m. m) [''s1'', ''s2''] sample_policy getDefaultKVFunctions = Inr sample_config"
  by (simp add: Config_new_def sample_config_def)

definition second_up :: net where
  "second_up = \<lparr>net_env = calm_env (\<lambda>_. Status_OK),
     net_conn = \<lparr>ce_state = (\<lambda>_. CH_IDLE), ce_wait = (\<lambda>n. n \<noteq> 0)\<rparr>,
     net_reply = (\<lambda>_. RpSet), net_rand = (\<lambda>_. 0), net_uuid = (\<lambda>_. '''')\<rparr>"

text \<open>Of two servers the first does not accept the connection; the second is chosen.\<close>

theorem nextService_correct_witness:
  "\<exists>k' before after k1 k2. nextService second_up (client_new sample_config) = (Inr 1, k') \<and>
     asking_order (client_new sample_config) = before @ 1 # after \<and>
     refused_all second_up before (client_new sample_config) k1 \<and>
     ask_available second_up 1 k1 = (True, k2) \<and> k' = set_cService (Some 1) k2"
proof -
  let ?k = "client_new sample_config"
  obtain k' where k': "nextService second_up ?k = (Inr 1, k')"
    by (simp add: nextService_def nextActiveServiceIterator_def client_new_def sample_config_def ask_available_def
        service_at_def rpc_available_def breaker_is_open_def RPCService_new_def mk_CircuitBreaker_def rpc_connected_def
        rpc_connect_def rpc_new_channel_def wait_for_connected_def second_up_def conns_init_def put_service_def
        Let_def upt_rec)
  have "\<forall>i. cService (cl_config ?k) = Some i \<longrightarrow> i < length (services (cl_config ?k))"
    by (simp add: client_new_def sample_config_def)
  from nextService_correct [OF k' this] k' show ?thesis by (simp only: sum.case) blast
qed

lemma emplaced:
  "distinct (map fst m) \<Longrightarrow>
   distinct (map fst (fold (\<lambda>a m. if map_of m a = None then m @ [(a, RPCService_new a p f)] else m) addresses m)) \<and>
   set (map fst (fold (\<lambda>a m. if map_of m a = None then m @ [(a, RPCService_new a p f)] else m) addresses m)) =
     set (map fst m) \<union> set addresses"
proof (induction addresses arbitrary: m)
  case (Cons a as)
  show ?case
  proof (cases "map_of m a = None")
    case True
    then have "a \<notin> set (map fst m)" by (simp add: map_of_eq_None_iff)
    with Cons.prems have "distinct (map fst (m @ [(a, RPCService_new a p f)]))" by auto
    from Cons.IH [OF this] True show ?thesis by auto
  next
    case False
    then have "a \<in> set (map fst m)" by (simp add: map_of_eq_None_iff)
    with Cons.IH [OF Cons.prems] False show ?thesis by auto
  qed
qed simp

lemma Config_new_length:
  assumes "Config_new arrange addresses p f = Inr c" and "\<And>m. mset (arrange m) = mset m"
  shows "length (services c) = card (set addresses) \<and> cfg_range c = length addresses"
proof -
  let ?t = "fold (\<lambda>a m. if map_of m a = None then m @ [(a, RPCService_new a p f)] else m) addresses []"
  from emplaced [of "[]" p f addresses] have "length (map fst ?t) = card (set addresses)"
    using distinct_card [of "map fst ?t"] by simp
  moreover have "length (arrange ?t) = length ?t" using arg_cong [OF assms(2), of size ?t] by simp
  ultimately show ?thesis using assms(1) by (auto simp: Config_new_def split: if_splits)
qed

text \<open>
  An address that is given twice makes \<open>randomService\<close> run past the table. The table has
  one service per distinct address, but positions are drawn from a range as long as the list of
  addresses, so a draw at its end has no service.
\<close>

theorem duplicate_address_overrun:
  assumes "Config_new arrange addresses p f = Inr c" and "\<And>m. mset (arrange m) = mset m"
    and "\<not> distinct addresses" and "net_rand N 0 = cfg_range c - 1"
  shows "length (services c) < cfg_range c \<and> randomService N (client_new c) = Inl OutOfRange"
proof -
  have ne: "addresses \<noteq> []" using assms(3) by auto
  have "card (set addresses) < length addresses"
    using assms(3) card_distinct [of addresses] card_length [of addresses] by linarith
  with Config_new_length [OF assms(1,2)] have len: "length (services c) < cfg_range c" by simp
  have "0 < length (services c)"
    using Config_new_length [OF assms(1,2)] ne by (simp add: card_gt_0_iff)
  then obtain j where j: "10 * length (services c) = Suc j" by (cases "10 * length (services c)") auto
  have "cfg_draws c = 0" using assms(1) by (simp add: Config_new_def split: if_splits) force
  moreover have "length (services c) \<le> net_rand N 0" using assms(4) len by simp
  ultimately have "randomService N (client_new c) = Inl OutOfRange"
    using j by (simp add: randomService_def client_new_def Let_def)
  with len show ?thesis by simp
qed

theorem duplicate_address_overrun_witness:
  "\<exists>c. Config_new (\<lambda>m. m) [''s1'', ''s1''] sample_policy getDefaultKVFunctions = Inr c \<and>
     length (services c) < cfg_range c \<and> randomService (second_up\<lparr>net_rand := \<lambda>_. 1\<rparr>) (client_new c) = Inl OutOfRange"
proof -
  obtain c where c: "Config_new (\<lambda>m. m) [''s1'', ''s1''] sample_policy getDefaultKVFunctions = Inr c" "cfg_range c = 2"
    by (simp add: Config_new_def)
  from duplicate_address_overrun [OF c(1), of "second_up\<lparr>net_rand := \<lambda>_. 1\<rparr>"] c show ?thesis by simp
qed

end
