(* ===== verification/KvClient.thy ===== *)
theory KvClient
  imports ClientConfig
begin

text \<open>
  \<open>src/include/client/KVStoreClient.hpp\<close> and \<open>src/client/KVStoreClient.cpp\<close>: the client of the
  key-value store. A call tries up to \<open>servicesToTry\<close> servers, each through its circuit breaker.
  The loops that wait for a condition may not end; they are partial functions whose value
  \<open>None\<close> is a loop that runs forever.
\<close>

section \<open>Calls\<close>

fun with_requestid :: "string \<Rightarrow> kv_request \<Rightarrow> kv_request" where
  "with_requestid u (RqGet q) = RqGet (q\<lparr>gq_requestid := u\<rparr>)"
| "with_requestid u (RqSet q) = RqSet (q\<lparr>sq_requestid := u\<rparr>)"
| "with_requestid u (RqErase q) = RqErase (q\<lparr>eq_requestid := u\<rparr>)"
| "with_requestid u (RqSize q) = RqSize (q\<lparr>zq_requestid := u\<rparr>)"

definition all_unavailable :: Error where
  "all_unavailable = mk_Error AllServicesUnavailable ''All services are unavailable''"

text \<open>One use of the server at position \<open>j\<close>.\<close>

definition call_service :: "net \<Rightarrow> string \<Rightarrow> kv_request \<Rightarrow> nat \<Rightarrow> client
    \<Rightarrow> ((Error list + kv_reply) \<times> client) outcome" where
  "call_service N op q j k =
     bind_outcome (rpc_call (net_env N) (net_conn N) (net_reply N) op q (service_at k j) (cl_conns k) (cl_world k))
       (\<lambda>(r, s, n, w). Inr (r, (put_service j s k)\<lparr>cl_conns := n, cl_world := w\<rparr>))"

fun client_tries :: "net \<Rightarrow> string \<Rightarrow> kv_request \<Rightarrow> nat \<Rightarrow> client \<Rightarrow> ((Error list + kv_reply) \<times> client) outcome" where
  "client_tries N op q 0 k = Inr (Inl [all_unavailable], k)"
| "client_tries N op q (Suc i) k =
     (case nextService N k of
        (Inl e, k1) \<Rightarrow> client_tries N op q i k1
      | (Inr j, k1) \<Rightarrow>
          bind_outcome (call_service N op q j k1) (\<lambda>(r, k2).
            case r of
              Inr reply \<Rightarrow> Inr (Inr reply, k2)
            | Inl errors \<Rightarrow>
                if errors = [] then Inl OutOfRange
                else if err_code (last errors) = NotLeader
                then bind_outcome (randomService N k2) (\<lambda>(_, k3). client_tries N op q i k3)
                else if \<not> isRetriable op (err_code (last errors)) then Inr (Inl errors, k2)
                else client_tries N op q i k2))"

definition client_call :: "net \<Rightarrow> string \<Rightarrow> kv_request \<Rightarrow> client \<Rightarrow> ((Error list + kv_reply) \<times> client) outcome" where
  "client_call N op q k =
     client_tries N op (with_requestid (net_uuid N (cl_uuids k)) q)
       (nat (servicesToTry (cfg_policy (cl_config k)))) (k\<lparr>cl_uuids := cl_uuids k + 1\<rparr>)"

definition get_request :: "kv_key \<Rightarrow> kv_request" where
  "get_request key = RqGet \<lparr>gq_key = \<lparr>pk_data = key_data key\<rparr>, gq_requestid = ''''\<rparr>"

definition set_request :: "kv_key \<Rightarrow> kv_value \<Rightarrow> kv_request" where
  "set_request key v = RqSet \<lparr>sq_key = \<lparr>pk_data = key_data key\<rparr>,
     sq_value = \<lparr>pv_data = val_data v, pv_version = val_version v\<rparr>, sq_requestid = ''''\<rparr>"

definition erase_request :: "kv_key \<Rightarrow> kv_request" where
  "erase_request key = RqErase \<lparr>eq_key = \<lparr>pk_data = key_data key\<rparr>, eq_requestid = ''''\<rparr>"

definition size_request :: kv_request where
  "size_request = RqSize \<lparr>zq_requestid = ''''\<rparr>"

text \<open>The replies are typed, so a reply to another request cannot occur.\<close>

definition client_get :: "net \<Rightarrow> kv_key \<Rightarrow> client \<Rightarrow> ((Error + kv_value) \<times> client) outcome" where
  "client_get N key k =
     bind_outcome (client_call N ''get'' (get_request key) k) (\<lambda>(t, k').
       case t of
         Inr (RpGet v) \<Rightarrow> Inr (Inr (Value_of_proto v), k')
       | Inr _ \<Rightarrow> Inl Unreachable
       | Inl errors \<Rightarrow> Inr (Inl (last errors), k'))"

definition client_set :: "net \<Rightarrow> kv_key \<Rightarrow> kv_value \<Rightarrow> client \<Rightarrow> ((Error + unit) \<times> client) outcome" where
  "client_set N key v k =
     bind_outcome (client_call N ''set'' (set_request key v) k) (\<lambda>(t, k').
       case t of
         Inr _ \<Rightarrow> Inr (Inr (), k')
       | Inl errors \<Rightarrow>
           if length errors > 1 \<and> err_code (last errors) = VersionMismatch
           then bind_outcome (Error_of_code Maybe) (\<lambda>e. Inr (Inl e, k'))
           else Inr (Inl (last errors), k'))"

definition client_erase :: "net \<Rightarrow> kv_key \<Rightarrow> client \<Rightarrow> ((Error + kv_value) \<times> client) outcome" where
  "client_erase N key k =
     bind_outcome (client_call N ''erase'' (erase_request key) k) (\<lambda>(t, k').
       case t of
         Inr (RpErase v) \<Rightarrow> Inr (Inr (Value_of_proto v), k')
       | Inr _ \<Rightarrow> Inl Unreachable
       | Inl errors \<Rightarrow> Inr (Inl (last errors), k'))"

definition client_size :: "net \<Rightarrow> client \<Rightarrow> ((Error + u64) \<times> client) outcome" where
  "client_size N k =
     bind_outcome (client_call N ''size'' size_request k) (\<lambda>(t, k').
       case t of
         Inr (RpSize n) \<Rightarrow> Inr (Inr n, k')
       | Inr _ \<Rightarrow> Inl Unreachable
       | Inl errors \<Rightarrow> Inr (Inl (last errors), k'))"

section \<open>Waiting\<close>

partial_function (option) waitGet :: "net \<Rightarrow> kv_key \<Rightarrow> kv_value \<Rightarrow> client \<Rightarrow> (bool \<times> client) outcome option" where
  "waitGet N key v k =
     (case client_get N key k of
        Inl x \<Rightarrow> Some (Inl x)
      | Inr (t, k') \<Rightarrow>
          (case t of
             Inr u \<Rightarrow> Some (Inr (Value_eq u v, k'))
           | Inl e \<Rightarrow> if err_code e = KeyNotFound then Some (Inr (False, k')) else waitGet N key v k'))"

partial_function (option) waitNotFound :: "net \<Rightarrow> kv_key \<Rightarrow> client \<Rightarrow> (bool \<times> client) outcome option" where
  "waitNotFound N key k =
     (case client_get N key k of
        Inl x \<Rightarrow> Some (Inl x)
      | Inr (t, k') \<Rightarrow>
          (case t of
             Inr u \<Rightarrow> Some (Inr (False, k'))
           | Inl e \<Rightarrow> if err_code e = KeyNotFound then Some (Inr (True, k')) else waitNotFound N key k'))"

partial_function (option) waitGet_version :: "net \<Rightarrow> kv_key \<Rightarrow> u64 \<Rightarrow> client \<Rightarrow> (kv_value \<times> client) outcome option" where
  "waitGet_version N key version k =
     (case client_get N key k of
        Inl x \<Rightarrow> Some (Inl x)
      | Inr (t, k') \<Rightarrow>
          (case t of
             Inr u \<Rightarrow> if val_version u = version then Some (Inr (u, k')) else waitGet_version N key version k'
           | Inl e \<Rightarrow> waitGet_version N key version k'))"

partial_function (option) waitSet :: "net \<Rightarrow> kv_key \<Rightarrow> kv_value \<Rightarrow> client \<Rightarrow> client outcome option" where
  "waitSet N key v k =
     (case client_set N key v k of
        Inl x \<Rightarrow> Some (Inl x)
      | Inr (t, k') \<Rightarrow>
          (case t of
             Inr _ \<Rightarrow> Some (Inr k')
           | Inl e \<Rightarrow>
               Option.bind (waitGet N key (mk_value (val_data v) (val_version v + 1)) k') (\<lambda>g.
                 case g of
                   Inl x \<Rightarrow> Some (Inl x)
                 | Inr (found, k'') \<Rightarrow> if found then Some (Inr k'') else waitSet N key v k'')))"

section \<open>What a call amounts to\<close>

text \<open>
  The services follow one policy and have the default table, the current server and every draw
  are positions of the table.
\<close>

definition client_ok :: "net \<Rightarrow> client \<Rightarrow> bool" where
  "client_ok N k \<longleftrightarrow> net_ok (net_env N) \<and>
     (\<forall>i < length (services (cl_config k)). breaker_ok (svc_breaker (service_at k i)) \<and>
        svc_functions (service_at k i) = getDefaultKVFunctions \<and>
        failureThreshold (cb_policy (svc_breaker (service_at k i))) = failureThreshold (cfg_policy (cl_config k))) \<and>
     (\<forall>i. cService (cl_config k) = Some i \<longrightarrow> i < length (services (cl_config k))) \<and>
     (\<forall>n. net_rand N n < length (services (cl_config k)))"

abbreviation rpcs :: "client \<Rightarrow> nat" where
  "rpcs k \<equiv> w_rpcs (cl_world k)"

lemma client_ok_same:
  assumes "client_ok N k" and "same_client k k'"
    and "\<forall>i. cService (cl_config k') = Some i \<longrightarrow> i < length (services (cl_config k'))"
  shows "client_ok N k'"
proof -
  note len = same_client_length [OF assms(2)]
  have "breaker_ok (svc_breaker (service_at k' i)) \<and> svc_functions (service_at k' i) = getDefaultKVFunctions \<and>
      failureThreshold (cb_policy (svc_breaker (service_at k' i))) = failureThreshold (cfg_policy (cl_config k'))"
    if i: "i < length (services (cl_config k'))" for i
    using same_client_at [OF assms(2), of i] i assms(1,2) len
    by (simp add: client_ok_def same_service_def same_client_def)
  with assms len show ?thesis by (simp add: client_ok_def)
qed

text \<open>The errors after which a client goes on to another server.\<close>

definition goes_on :: "string \<Rightarrow> Error list \<Rightarrow> bool" where
  "goes_on op es \<longleftrightarrow> es \<noteq> [] \<and> (err_code (last es) = NotLeader \<or> isRetriable op (err_code (last es)))"

text \<open>
  The calls of at most \<open>i\<close> servers, as remote calls from number \<open>a\<close> up to \<open>z\<close>: each but the
  last ends with an error after which the client goes on.
\<close>

inductive tries :: "env \<Rightarrow> (nat \<Rightarrow> kv_reply) \<Rightarrow> string \<Rightarrow> nat \<Rightarrow> nat \<Rightarrow> nat \<Rightarrow> Error list + kv_reply \<Rightarrow> bool"
  for E replies op where
  exhausted: "tries E replies op 0 a a (Inl [all_unavailable])"
| unreached: "tries E replies op i a z r \<Longrightarrow> tries E replies op (Suc i) a z r"
| answered: "call_result E replies op a z r \<Longrightarrow> \<forall>es. r = Inl es \<longrightarrow> es \<noteq> [] \<and> \<not> goes_on op es \<Longrightarrow>
    tries E replies op (Suc i) a z r"
| again: "call_result E replies op a b (Inl es) \<Longrightarrow> goes_on op es \<Longrightarrow> tries E replies op i b z r \<Longrightarrow>
    tries E replies op (Suc i) a z r"

inductive_cases triesE: "tries E replies op i a z r"

lemma call_result_mono: "call_result E replies op a z r \<Longrightarrow> a \<le> z"
  by (auto simp: call_result_def report_of_def)

lemma call_result_errors: "call_result E replies op a z (Inl es) \<Longrightarrow> es \<noteq> []"
  by (auto simp: call_result_def report_of_def split: if_splits)

lemma tries_mono: "tries E replies op i a z r \<Longrightarrow> a \<le> z"
  by (induction rule: tries.induct) (auto dest: call_result_mono)

lemma tries_errors: "tries E replies op i a z (Inl es) \<Longrightarrow> es \<noteq> []"
  by (induction i a z "Inl es :: Error list + kv_reply" rule: tries.induct) auto

lemma call_service_result:
  assumes ok: "client_ok N k" and j: "j < length (services (cl_config k))"
  shows "\<exists>r k'. call_service N (request_op q) q j k = Inr (r, k') \<and> client_ok N k' \<and> same_client k k' \<and>
    rpcs k' \<le> rpcs k + nat (max 1 (failureThreshold (cfg_policy (cl_config k)))) \<and>
    call_result (net_env N) (net_reply N) (request_op q) (rpcs k) (rpcs k') r"
proof -
  let ?s = "service_at k j"
  have s: "breaker_ok (svc_breaker ?s)" "svc_functions ?s = getDefaultKVFunctions"
    "failureThreshold (cb_policy (svc_breaker ?s)) = failureThreshold (cfg_policy (cl_config k))" and net: "net_ok (net_env N)"
    using ok j by (auto simp: client_ok_def)
  from rpc_call_result [OF service_ok_default [OF s(1,2)] net, of "net_conn N" "net_reply N" q "cl_conns k" "cl_world k"]
  obtain r s' n' w' where
    r: "rpc_call (net_env N) (net_conn N) (net_reply N) (request_op q) q ?s (cl_conns k) (cl_world k) = Inr (r, s', n', w')"
      "same_service ?s s'" "w_rpcs w' \<le> rpcs k + nat (max 1 (failureThreshold (cb_policy (svc_breaker ?s))))"
      "call_result (net_env N) (net_reply N) (request_op q) (rpcs k) (w_rpcs w') r" by blast
  let ?k' = "(put_service j s' k)\<lparr>cl_conns := n', cl_world := w'\<rparr>"
  have same: "same_client k ?k'" by (rule same_client_put [OF r(2)])
  have "client_ok N ?k'"
    by (rule client_ok_same [OF ok same]) (use ok in \<open>simp add: client_ok_def put_service_def\<close>)
  moreover have "call_service N (request_op q) q j k = Inr (r, ?k')" using r(1) by (simp add: call_service_def)
  ultimately show ?thesis using same r s(3) by (intro exI [of _ r] exI [of _ ?k']) simp
qed

lemma nextService_ok:
  assumes "nextService N k = (r, k')" and "client_ok N k"
  shows "client_ok N k' \<and> same_client k k' \<and> rpcs k' = rpcs k \<and> (\<forall>j. r = Inr j \<longrightarrow> j < length (services (cl_config k')))"
proof -
  have c: "\<forall>i. cService (cl_config k) = Some i \<longrightarrow> i < length (services (cl_config k))"
    using assms(2) by (simp add: client_ok_def)
  note n = nextService_same [OF assms(1) c]
  then have "client_ok N k'" using client_ok_same [OF assms(2)] by blast
  with n show ?thesis by blast
qed

lemma randomService_ok:
  assumes "client_ok N k"
  shows "\<exists>r k'. randomService N k = Inr (r, k') \<and> client_ok N k' \<and> same_client k k' \<and> rpcs k' = rpcs k"
proof -
  have draws: "\<And>n. net_rand N n < length (services (cl_config k))"
    and c: "\<forall>i. cService (cl_config k) = Some i \<longrightarrow> i < length (services (cl_config k))"
    using assms by (auto simp: client_ok_def)
  from random_tries_same [of N k "10 * length (services (cl_config k))", OF draws c] client_ok_same [OF assms]
  show ?thesis unfolding randomService_def by blast
qed

lemma client_tries_result:
  assumes "client_ok N k"
  shows "\<exists>r k'. client_tries N (request_op q) q i k = Inr (r, k') \<and> client_ok N k' \<and> same_client k k' \<and>
    rpcs k' \<le> rpcs k + i * nat (max 1 (failureThreshold (cfg_policy (cl_config k)))) \<and>
    tries (net_env N) (net_reply N) (request_op q) i (rpcs k) (rpcs k') r"
  using assms
proof (induction i arbitrary: k)
  case 0
  then show ?case by (auto intro: tries.exhausted)
next
  case (Suc i)
  let ?t = "nat (max 1 (failureThreshold (cfg_policy (cl_config k))))"
  have rest: "\<exists>r k'. client_tries N (request_op q) q i k2 = Inr (r, k') \<and> client_ok N k' \<and> same_client k k' \<and>
      rpcs k' \<le> rpcs k2 + i * ?t \<and> tries (net_env N) (net_reply N) (request_op q) i (rpcs k2) (rpcs k') r"
    if "client_ok N k2" "same_client k k2" for k2
  proof -
    have "cfg_policy (cl_config k2) = cfg_policy (cl_config k)" using that(2) by (simp add: same_client_def)
    with Suc.IH [OF that(1)] same_client_trans [OF that(2)] show ?thesis by metis
  qed
  obtain s k1 where n: "nextService N k = (s, k1)" by fastforce
  note k1 = nextService_ok [OF n Suc.prems]
  show ?case
  proof (cases s)
    case (Inl e)
    with rest [of k1] n k1 show ?thesis by (fastforce intro: tries.unreached)
  next
    case (Inr j)
    from call_service_result [of N k1 j q] k1 Inr obtain r k2 where
      r: "call_service N (request_op q) q j k1 = Inr (r, k2)" "client_ok N k2" "same_client k1 k2"
        "rpcs k2 \<le> rpcs k1 + ?t" "call_result (net_env N) (net_reply N) (request_op q) (rpcs k) (rpcs k2) r"
      by (auto simp: same_client_def)
    have k2: "same_client k k2" using k1 r(3) same_client_trans by blast
    show ?thesis
    proof (cases "\<exists>es. r = Inl es \<and> goes_on (request_op q) es")
      case False
      have ne: "\<forall>es. r = Inl es \<longrightarrow> es \<noteq> []" using call_result_errors r(5) by blast
      have "client_tries N (request_op q) q (Suc i) k = Inr (r, k2)"
        using False n Inr r(1) ne by (auto simp: goes_on_def split: sum.splits)
      moreover have "tries (net_env N) (net_reply N) (request_op q) (Suc i) (rpcs k) (rpcs k2) r"
        using False r(5) ne by (intro tries.answered) auto
      ultimately show ?thesis using r k2 k1 by (auto intro!: exI [of _ r] exI [of _ k2])
    next
      case True
      then obtain es where es: "r = Inl es" "goes_on (request_op q) es" by blast
      from randomService_ok [OF r(2)] obtain x k3 where k3: "randomService N k2 = Inr (x, k3)" "client_ok N k3"
        "same_client k2 k3" "rpcs k3 = rpcs k2" by blast
      define k4 where "k4 = (if err_code (last es) = NotLeader then k3 else k2)"
      have eq: "client_tries N (request_op q) q (Suc i) k = client_tries N (request_op q) q i k4"
        using es n Inr r(1) k3(1) by (auto simp: goes_on_def k4_def)
      have k4: "client_ok N k4" "same_client k k4" "rpcs k4 = rpcs k2"
        using r(2) k2 k3 same_client_trans by (auto simp: k4_def)
      from rest [OF k4(1,2)] obtain r' k' where k': "client_tries N (request_op q) q i k4 = Inr (r', k')"
        "client_ok N k'" "same_client k k'" "rpcs k' \<le> rpcs k4 + i * ?t"
        "tries (net_env N) (net_reply N) (request_op q) i (rpcs k4) (rpcs k') r'" by blast
      have "tries (net_env N) (net_reply N) (request_op q) (Suc i) (rpcs k) (rpcs k') r'"
        using tries.again r(5) es k'(5) k4(3) by metis
      moreover have "rpcs k' \<le> rpcs k + Suc i * ?t" using k'(4) k4(3) r(4) k1 by simp
      ultimately show ?thesis using k' eq by metis
    qed
  qed
qed

lemma request_op_requestid [simp]: "request_op (with_requestid u q) = request_op q"
  by (cases q) simp_all

lemma spec_response_requestid [simp]: "spec_response m (with_requestid u q) = spec_response m q"
  by (cases q) (simp_all add: spec_lookup_def)

lemma mk_key_data [simp]: "mk_key (key_data key) = key"
  by (cases key) (simp add: mk_key_def)

lemma mk_value_data [simp]: "mk_value (val_data v) (val_version v) = v"
  by (cases v) (simp add: mk_value_def)

text \<open>The most remote calls that one operation can make.\<close>

definition call_budget :: "client \<Rightarrow> nat" where
  "call_budget k = nat (servicesToTry (cfg_policy (cl_config k))) *
     nat (max 1 (failureThreshold (cfg_policy (cl_config k))))"

lemma client_call_result:
  assumes "client_ok N k"
  shows "\<exists>r k'. client_call N (request_op q) q k = Inr (r, k') \<and> client_ok N k' \<and> rpcs k' \<le> rpcs k + call_budget k \<and>
    cl_uuids k' = Suc (cl_uuids k) \<and>
    tries (net_env N) (net_reply N) (request_op q) (nat (servicesToTry (cfg_policy (cl_config k)))) (rpcs k) (rpcs k') r"
proof -
  let ?k = "k\<lparr>cl_uuids := cl_uuids k + 1\<rparr>" and ?q = "with_requestid (net_uuid N (cl_uuids k)) q"
  have "client_ok N ?k" using assms by (simp add: client_ok_def service_at_def)
  from client_tries_result [OF this, of ?q "nat (servicesToTry (cfg_policy (cl_config k)))"] show ?thesis
    by (simp add: client_call_def call_budget_def same_client_def) metis
qed

lemma tries_success:
  "tries E replies op i a z (Inr x) \<Longrightarrow> a < z \<and> status_ok (env_rpc E (z - 1)) \<and> x = replies (z - 1)"
proof (induction i a z "Inr x :: Error list + kv_reply" rule: tries.induct)
  case (answered a z i)
  then show ?case by (auto simp: call_result_def dest: report_ok_last split: if_splits)
next
  case (again a b es i z)
  then show ?case using call_result_mono by fastforce
qed auto

text \<open>An error that speaks of the data is the answer to the last remote call.\<close>

lemma report_last_error:
  assumes "report_of E op a z ss" and "map Inr es = map (toError (env_details E)) ss" and "env_details E '''' = None"
    and "err_code (last es) \<noteq> Cancelled"
  shows "a < z \<and> toError (env_details E) (env_rpc E (z - 1)) = Inr (last es) \<and> (length es = 1 \<longrightarrow> z = Suc a)"
proof -
  have ne: "ss \<noteq> []" using assms(1) by (simp add: report_of_def)
  have len: "length es = length ss" using assms(2) by (metis length_map)
  have last: "toError (env_details E) (last ss) = Inr (last es)"
    using arg_cong [OF assms(2), of last] ne len by (cases es) (auto simp: last_map)
  have "toError (env_details E) stopped_status = Inr (mk_Error Cancelled ''Repeater stopped'')"
    using assms(3) by (simp add: toError_def stopped_status_def mk_Status_def)
  then have "err_code (last es) = Cancelled" if "last ss = stopped_status"
    using last that by (simp add: mk_Error_def) (metis Error.select_convs(1))
  with assms(4) have "last ss \<noteq> stopped_status" by blast
  with assms(1) have ss: "ss = map (env_rpc E) [a..<z]" by (auto simp: report_of_def)
  with ne have "a < z" by auto
  with ss last len show ?thesis by (auto simp: last_map)
qed

definition about_data :: "Error \<Rightarrow> bool" where
  "about_data e \<longleftrightarrow> err_code e = VersionMismatch \<or> err_code e = KeyNotFound"

lemma call_result_data_error:
  assumes "call_result E replies op a z (Inl es)" and "env_details E '''' = None" and "about_data (last es)"
  shows "a < z \<and> toError (env_details E) (env_rpc E (z - 1)) = Inr (last es) \<and> (length es = 1 \<longrightarrow> z = Suc a)"
proof -
  from assms(1,3) obtain ss where "report_of E op a z ss" "map Inr es = map (toError (env_details E)) ss"
    unfolding call_result_def about_data_def by (auto split: if_splits)
  from report_last_error [OF this assms(2)] assms(3) show ?thesis by (auto simp: about_data_def)
qed

lemma tries_data_error:
  assumes "tries E replies op i a z (Inl es)" and "env_details E '''' = None" and "about_data (last es)"
  shows "a < z \<and> toError (env_details E) (env_rpc E (z - 1)) = Inr (last es) \<and>
    (i \<le> 1 \<longrightarrow> length es = 1 \<longrightarrow> z = Suc a)"
  using assms(1,3)
proof (induction i a z "Inl es :: Error list + kv_reply" rule: tries.induct)
  case (exhausted a)
  then show ?case by (auto simp: about_data_def all_unavailable_def mk_Error_def)
next
  case (unreached i a z)
  then show ?case by auto
next
  case (answered a z i)
  with call_result_data_error [OF answered(1) assms(2)] show ?case by simp
next
  case (again a b fs i z)
  have ab: "a \<le> b" using again(1) call_result_mono by blast
  have "i \<noteq> 0"
  proof
    assume "i = 0"
    with again(3) have "es = [all_unavailable]" by (auto elim: triesE)
    with again(5) show False by (simp add: about_data_def all_unavailable_def mk_Error_def)
  qed
  with again ab show ?case by auto
qed

section \<open>The properties\<close>

text \<open>
  What the servers do, seen from a client: \<open>ex\<close> is the contents of the store when the n-th
  remote call was executed (\<open>None\<close>: it was not executed). The client gets the answer of the
  abstract map to its request on these contents, or an error of the transport or of a server
  that is not the leader, which says nothing about whether the call was executed.
\<close>

definition map_answer :: "net \<Rightarrow> kv_request \<Rightarrow> nat \<Rightarrow> kv_map option \<Rightarrow> bool" where
  "map_answer N q n ex \<longleftrightarrow>
     (\<exists>m. ex = Some m \<and> seen_by_client (env_details (net_env N)) (env_rpc (net_env N) n, net_reply N n) =
        Inr (spec_response m q)) \<or>
     (\<exists>e. toError (env_details (net_env N)) (env_rpc (net_env N) n) = Inr e \<and>
        err_code e \<in> {Unknown, ServiceTemporarilyUnavailable, AllServicesUnavailable, Timeout, NotLeader, Cancelled})"

lemma map_answer_ok:
  assumes "map_answer N q n ex" and "status_ok (env_rpc (net_env N) n)"
  shows "\<exists>m. ex = Some m \<and> spec_response m q = Inr (net_reply N n)"
  using assms by (auto simp: map_answer_def seen_by_client_def toExpected_def toError_def status_ok_def)

lemma map_answer_error:
  assumes "map_answer N q n ex" and "toError (env_details (net_env N)) (env_rpc (net_env N) n) = Inr e"
    and "about_data e"
  shows "\<exists>m. ex = Some m \<and> spec_response m q = Inl e"
proof -
  have "\<not> status_ok (env_rpc (net_env N) n)" using assms(2) by (auto simp: toError_def status_ok_def)
  with assms show ?thesis
    by (auto simp: map_answer_def about_data_def seen_by_client_def toExpected_def)
qed

text \<open>The outcome of a call in terms of the contents of the store when its remote calls were executed.\<close>

definition call_data :: "(nat \<Rightarrow> kv_map option) \<Rightarrow> kv_request \<Rightarrow> client \<Rightarrow> client \<Rightarrow> Error list + kv_reply \<Rightarrow> bool" where
  "call_data exec q k k' r \<longleftrightarrow>
     (case r of
        Inr x \<Rightarrow> \<exists>n \<in> {rpcs k..<rpcs k'}. \<exists>m. exec n = Some m \<and> spec_response m q = Inr x
      | Inl es \<Rightarrow> es \<noteq> [] \<and> (about_data (last es) \<longrightarrow>
          (\<exists>n \<in> {rpcs k..<rpcs k'}. \<exists>m. exec n = Some m \<and> spec_response m q = Inl (last es)) \<and>
          (servicesToTry (cfg_policy (cl_config k)) \<le> 1 \<longrightarrow> length es = 1 \<longrightarrow> rpcs k' = Suc (rpcs k))))"

lemma client_call_data:
  assumes ok: "client_ok N k"
    and ans: "\<And>n. rpcs k \<le> n \<Longrightarrow> n < rpcs k + call_budget k \<Longrightarrow> map_answer N q n (exec n)"
  shows "\<exists>r k'. client_call N (request_op q) q k = Inr (r, k') \<and> client_ok N k' \<and> rpcs k' \<le> rpcs k + call_budget k \<and>
    call_data exec q k k' r"
proof -
  from client_call_result [OF ok, of q] obtain r k' where
    r: "client_call N (request_op q) q k = Inr (r, k')" "client_ok N k'" "rpcs k' \<le> rpcs k + call_budget k" and
    t: "tries (net_env N) (net_reply N) (request_op q) (nat (servicesToTry (cfg_policy (cl_config k)))) (rpcs k) (rpcs k') r"
    by blast
  let ?n = "rpcs k' - 1"
  have last: "map_answer N q ?n (exec ?n)" "?n \<in> {rpcs k..<rpcs k'}" if "rpcs k < rpcs k'"
    using ans [of ?n] r(3) that by auto
  show ?thesis
  proof (cases r)
    case (Inr x)
    from tries_success [OF t [unfolded Inr]] have s: "rpcs k < rpcs k'" "status_ok (env_rpc (net_env N) ?n)"
      "x = net_reply N ?n" by auto
    from map_answer_ok [OF last(1) [OF s(1)] s(2)] last(2) [OF s(1)] s(3)
    have "\<exists>n \<in> {rpcs k..<rpcs k'}. \<exists>m. exec n = Some m \<and> spec_response m q = Inr x" by blast
    with r Inr show ?thesis by (auto simp: call_data_def)
  next
    case (Inl es)
    have details: "env_details (net_env N) '''' = None" using ok by (simp add: client_ok_def net_ok_def)
    have "(\<exists>n \<in> {rpcs k..<rpcs k'}. \<exists>m. exec n = Some m \<and> spec_response m q = Inl (last es)) \<and>
         (servicesToTry (cfg_policy (cl_config k)) \<le> 1 \<longrightarrow> length es = 1 \<longrightarrow> rpcs k' = Suc (rpcs k))"
      if data: "about_data (last es)"
    proof -
      from tries_data_error [OF t [unfolded Inl] details data] have s: "rpcs k < rpcs k'"
        "toError (env_details (net_env N)) (env_rpc (net_env N) ?n) = Inr (last es)"
        "nat (servicesToTry (cfg_policy (cl_config k))) \<le> 1 \<longrightarrow> length es = 1 \<longrightarrow> rpcs k' = Suc (rpcs k)" by auto
      from map_answer_error [OF last(1) [OF s(1)] s(2) data] last(2) [OF s(1)] s(3) show ?thesis by auto
    qed
    with tries_errors [OF t [unfolded Inl]] r Inl show ?thesis by (auto simp: call_data_def)
  qed
qed

text \<open>
  C17: reads. A \<open>get\<close> returns after at most \<open>servicesToTry\<close> times the failure threshold remote
  calls. The value it returns is the one the store held when one of these calls was executed,
  and if it returns \<open>KeyNotFound\<close> the store had no such key then.
\<close>

theorem client_get_correct:
  assumes "client_ok N k"
    and "\<And>n. rpcs k \<le> n \<Longrightarrow> n < rpcs k + call_budget k \<Longrightarrow> map_answer N (get_request key) n (exec n)"
  shows "\<exists>r k'. client_get N key k = Inr (r, k') \<and> rpcs k' \<le> rpcs k + call_budget k \<and>
    (case r of
       Inr v \<Rightarrow> \<exists>n \<in> {rpcs k..<rpcs k'}. \<exists>m. exec n = Some m \<and> m key = Some v
     | Inl e \<Rightarrow> err_code e = KeyNotFound \<longrightarrow> (\<exists>n \<in> {rpcs k..<rpcs k'}. \<exists>m. exec n = Some m \<and> m key = None))"
proof -
  let ?q = "get_request key"
  have resp: "spec_response m ?q = (case m key of None \<Rightarrow> Inl (mk_Error KeyNotFound ''key not found'')
      | Some v \<Rightarrow> Inr (RpGet (value_message v)))" for m
    by (simp add: get_request_def spec_lookup_def)
  have op: "request_op ?q = ''get''" by (simp add: get_request_def)
  from client_call_data [of N k ?q exec, OF assms, unfolded op] obtain r k' where
    r: "client_call N ''get'' ?q k = Inr (r, k')" "rpcs k' \<le> rpcs k + call_budget k" and
    data: "call_data exec ?q k k' r" by blast
  show ?thesis
  proof (cases r)
    case (Inr x)
    with data obtain n m where m: "n \<in> {rpcs k..<rpcs k'}" "exec n = Some m" "spec_response m ?q = Inr x"
      by (auto simp: call_data_def)
    then obtain v where v: "m key = Some v" "x = RpGet (value_message v)" unfolding resp by (auto split: option.splits)
    then have "client_get N key k = Inr (Inr v, k')"
      using r(1) Inr by (simp add: client_get_def Value_of_proto_def value_message_def)
    with m v(1) r(2) show ?thesis by (intro exI [of _ "Inr v"] exI [of _ k']) auto
  next
    case (Inl es)
    then have "client_get N key k = Inr (Inl (last es), k')" using r(1) by (simp add: client_get_def)
    moreover have "\<exists>n \<in> {rpcs k..<rpcs k'}. \<exists>m. exec n = Some m \<and> m key = None" if "err_code (last es) = KeyNotFound"
      using data that Inl by (fastforce simp: about_data_def call_data_def resp split: option.splits)
    ultimately show ?thesis using r(2) by (intro exI [of _ "Inl (last es)"] exI [of _ k']) auto
  qed
qed

definition sample_net :: "(nat \<Rightarrow> Status) \<Rightarrow> (nat \<Rightarrow> kv_reply) \<Rightarrow> net" where
  "sample_net f g = \<lparr>net_env = (calm_env f)\<lparr>env_details := whole dec_details\<rparr>, net_conn = ready_net,
     net_reply = g, net_rand = (\<lambda>_. 0), net_uuid = (\<lambda>_. '''')\<rparr>"

lemma no_empty_details: "whole dec_details '''' = None"
  by (simp add: whole_def dec_details_def dec_via_def dec_pair_def dec_int_def)

lemma sample_ok: "client_ok (sample_net f g) (client_new sample_config)"
  using no_empty_details
  by (auto simp: client_ok_def net_ok_def fair_draws_def sample_net_def calm_env_def client_new_def sample_config_def
      service_at_def RPCService_new_def breaker_ok_def mk_CircuitBreaker_def mk_ExponentialBackoff_def policy_ok_def
      sample_policy_def less_Suc_eq)

theorem client_get_correct_witness:
  "\<exists>r k'. client_get (sample_net (\<lambda>_. Status_OK) (\<lambda>_. RpGet \<lparr>pv_data = ''v'', pv_version = 1\<rparr>)) (mk_key ''k'') (client_new sample_config) =
      Inr (r, k') \<and> rpcs k' \<le> rpcs (client_new sample_config) + call_budget (client_new sample_config) \<and>
    (case r of
       Inr v \<Rightarrow> \<exists>n \<in> {rpcs (client_new sample_config)..<rpcs k'}. \<exists>m. Some [mk_key ''k'' \<mapsto> mk_value ''v'' 1] = Some m \<and> m (mk_key ''k'') = Some v
     | Inl e \<Rightarrow> err_code e = KeyNotFound \<longrightarrow>
         (\<exists>n \<in> {rpcs (client_new sample_config)..<rpcs k'}. \<exists>m. Some [mk_key ''k'' \<mapsto> mk_value ''v'' 1] = Some m \<and> m (mk_key ''k'') = None))"
  by (rule client_get_correct [OF sample_ok])
    (simp add: map_answer_def sample_net_def calm_env_def seen_by_client_def toExpected_def status_ok_def Status_OK_def
      get_request_def spec_lookup_def value_message_def mk_value_def mk_key_def)

text \<open>Whether the n-th remote call of a set was executed and accepted.\<close>

definition applied :: "(nat \<Rightarrow> kv_map option) \<Rightarrow> kv_key \<Rightarrow> kv_value \<Rightarrow> nat \<Rightarrow> bool" where
  "applied exec key v n \<longleftrightarrow> (\<exists>m. exec n = Some m \<and> cas_result m key v = Inr ())"

lemma set_response:
  "spec_response m (set_request key v) = (case cas_result m key v of Inl e \<Rightarrow> Inl e | Inr _ \<Rightarrow> Inr RpSet)"
  by (simp add: set_request_def)

lemma set_response_ok: "spec_response m (set_request key v) = Inr x \<Longrightarrow> cas_result m key v = Inr ()"
  by (cases "cas_result m key v") (auto simp: set_response)

lemma set_response_error: "spec_response m (set_request key v) = Inl e \<Longrightarrow> cas_result m key v = Inl e"
  by (cases "cas_result m key v") (auto simp: set_response)


definition one_server :: client where
  "one_server = client_new (sample_config\<lparr>cfg_policy := sample_policy\<lparr>servicesToTry := 1\<rparr>\<rparr>)"

definition mismatch_status :: Status where
  "mismatch_status = \<lparr>error_code = INVALID_ARGUMENT, error_message = ''VersionMismatch'',
     error_details = enc_details (details_of_Error (version_mismatch (mk_key ''k'') (mk_value ''a'' 1) (mk_value ''a'' 0)))\<rparr>"

lemma mismatch_seen:
  "toError (whole dec_details) mismatch_status = Inr (version_mismatch (mk_key ''k'') (mk_value ''a'' 1) (mk_value ''a'' 0))"
  by (simp add: mismatch_status_def toError_def whole_roundtrip codec_details Error_of_details_def details_of_Error_def
      version_mismatch_def code_of_number_def listed_codes_def)

lemma mismatch_response:
  "spec_response [mk_key ''k'' \<mapsto> mk_value ''a'' 1] (set_request (mk_key ''k'') (mk_value ''a'' 0)) =
     Inl (version_mismatch (mk_key ''k'') (mk_value ''a'' 1) (mk_value ''a'' 0))"
  by (simp add: set_response cas_result_def current_version_def mk_value_def)


text \<open>A client that tries each server once, and a network that loses its first reply.\<close>

definition lossy_net :: net where
  "lossy_net = sample_net (\<lambda>n. if n = 0 then mk_Status UNAVAILABLE ''connection lost'' else mismatch_status) (\<lambda>_. RpSet)"

definition impatient_config :: Config where
  "impatient_config = (let p = sample_policy\<lparr>failureThreshold := 1\<rparr> in
     sample_config\<lparr>cfg_policy := p,
       services := [(''s1'', RPCService_new ''s1'' p getDefaultKVFunctions), (''s2'', RPCService_new ''s2'' p getDefaultKVFunctions)]\<rparr>)"

definition lossy_exec :: "nat \<Rightarrow> kv_map option" where
  "lossy_exec n = (if n = 0 then Some Map.empty else Some [mk_key ''k'' \<mapsto> mk_value ''a'' 1])"

lemma result_caseD:
  "(case x of Inr (Inl e, k) \<Rightarrow> P e k | _ \<Rightarrow> False) \<Longrightarrow> \<exists>e k. x = Inr (Inl e, k) \<and> P e k"
  for x :: "'a + ('b + 'c) \<times> 'd"
proof (cases x)
  case (Inr y)
  then show "(case x of Inr (Inl e, k) \<Rightarrow> P e k | _ \<Rightarrow> False) \<Longrightarrow> ?thesis"
    by (cases y; cases "fst y") auto
qed simp

lemma result_caseD':
  "(case x of Inr (Inr u, k) \<Rightarrow> P u k | _ \<Rightarrow> False) \<Longrightarrow> \<exists>u k. x = Inr (Inr u, k) \<and> P u k"
  for x :: "'a + ('b + 'c) \<times> 'd"
proof (cases x)
  case (Inr y)
  then show "(case x of Inr (Inr u, k) \<Rightarrow> P u k | _ \<Rightarrow> False) \<Longrightarrow> ?thesis"
    by (cases y; cases "fst y") auto
qed simp

lemma lossy_run:
  "case client_set lossy_net (mk_key ''k'') (mk_value ''a'' 0) (client_new impatient_config) of
     Inr (Inl e, k') \<Rightarrow> err_code e = VersionMismatch \<and> rpcs k' = 2
   | _ \<Rightarrow> False"
  by code_simp

text \<open>
  C37: a \<open>set\<close> can report \<open>VersionMismatch\<close> although it was applied. The reply to the remote
  call at the first server is lost after the value was written; the client goes on to the second
  server, whose answer is the only error of that call, so it is passed on as a definite refusal
  instead of \<open>Maybe\<close>.
\<close>

theorem set_mismatch_after_apply:
  "\<exists>e k'. client_set lossy_net (mk_key ''k'') (mk_value ''a'' 0) (client_new impatient_config) = Inr (Inl e, k') \<and>
     err_code e = VersionMismatch \<and> rpcs k' = 2 \<and> applied lossy_exec (mk_key ''k'') (mk_value ''a'' 0) 0 \<and>
     map_answer lossy_net (set_request (mk_key ''k'') (mk_value ''a'' 0)) 0 (lossy_exec 0) \<and>
     map_answer lossy_net (set_request (mk_key ''k'') (mk_value ''a'' 0)) 1 (lossy_exec 1)"
proof -
  from result_caseD [OF lossy_run] obtain e k' where
    "client_set lossy_net (mk_key ''k'') (mk_value ''a'' 0) (client_new impatient_config) = Inr (Inl e, k')"
    "err_code e = VersionMismatch" "rpcs k' = 2"
    by blast
  moreover have "applied lossy_exec (mk_key ''k'') (mk_value ''a'' 0) 0"
    by (simp add: applied_def lossy_exec_def cas_result_def current_version_def mk_value_def)
  moreover have "map_answer lossy_net (set_request (mk_key ''k'') (mk_value ''a'' 0)) 0 (lossy_exec 0)"
    using no_empty_details
    by (simp add: map_answer_def lossy_net_def sample_net_def calm_env_def toError_def mk_Status_def mk_Error_def)
  moreover have "map_answer lossy_net (set_request (mk_key ''k'') (mk_value ''a'' 0)) 1 (lossy_exec 1)"
    unfolding map_answer_def seen_by_client_def toExpected_def using mismatch_seen mismatch_response
    by (simp add: lossy_net_def sample_net_def status_ok_def mismatch_status_def calm_env_def lossy_exec_def)
  ultimately show ?thesis by blast
qed

text \<open>
  Erasures. If an \<open>erase\<close> succeeds, one of its remote calls was executed on a store that
  held the returned value under the key; if it reports \<open>KeyNotFound\<close>, the last one executed
  found no such key.
\<close>

theorem client_erase_correct:
  assumes "client_ok N k"
    and "\<And>n. rpcs k \<le> n \<Longrightarrow> n < rpcs k + call_budget k \<Longrightarrow> map_answer N (erase_request key) n (exec n)"
  shows "\<exists>r k'. client_erase N key k = Inr (r, k') \<and> rpcs k' \<le> rpcs k + call_budget k \<and>
    (case r of
       Inr v \<Rightarrow> \<exists>n \<in> {rpcs k..<rpcs k'}. \<exists>m. exec n = Some m \<and> m key = Some v
     | Inl e \<Rightarrow> err_code e = KeyNotFound \<longrightarrow> (\<exists>n \<in> {rpcs k..<rpcs k'}. \<exists>m. exec n = Some m \<and> m key = None))"
proof -
  let ?q = "erase_request key"
  have resp: "spec_response m ?q = (case m key of None \<Rightarrow> Inl (mk_Error KeyNotFound ''key not found'')
      | Some v \<Rightarrow> Inr (RpErase (value_message v)))" for m
    by (simp add: erase_request_def spec_lookup_def)
  have op: "request_op ?q = ''erase''" by (simp add: erase_request_def)
  from client_call_data [of N k ?q exec, OF assms, unfolded op] obtain r k' where
    r: "client_call N ''erase'' ?q k = Inr (r, k')" "rpcs k' \<le> rpcs k + call_budget k" and
    data: "call_data exec ?q k k' r" by blast
  show ?thesis
  proof (cases r)
    case (Inr x)
    with data obtain n m where m: "n \<in> {rpcs k..<rpcs k'}" "exec n = Some m" "spec_response m ?q = Inr x"
      by (auto simp: call_data_def)
    then obtain v where v: "m key = Some v" "x = RpErase (value_message v)" unfolding resp by (auto split: option.splits)
    then have "client_erase N key k = Inr (Inr v, k')"
      using r(1) Inr by (simp add: client_erase_def Value_of_proto_def value_message_def)
    with m v(1) r(2) show ?thesis by (intro exI [of _ "Inr v"] exI [of _ k']) auto
  next
    case (Inl es)
    then have "client_erase N key k = Inr (Inl (last es), k')" using r(1) by (simp add: client_erase_def)
    moreover have "\<exists>n \<in> {rpcs k..<rpcs k'}. \<exists>m. exec n = Some m \<and> m key = None" if "err_code (last es) = KeyNotFound"
      using data that Inl by (fastforce simp: about_data_def call_data_def resp split: option.splits)
    ultimately show ?thesis using r(2) by (intro exI [of _ "Inl (last es)"] exI [of _ k']) auto
  qed
qed

section \<open>The waiting loops\<close>

text \<open>A get that decides a waiting loop: a value, or the answer that there is none.\<close>

definition decided :: "Error + kv_value \<Rightarrow> bool" where
  "decided t \<longleftrightarrow> (\<forall>e. t = Inl e \<longrightarrow> err_code e = KeyNotFound)"

lemma waitGet_step: "client_get N key k = Inr (Inl e, k') \<Longrightarrow> err_code e \<noteq> KeyNotFound \<Longrightarrow> waitGet N key v k = waitGet N key v k'"
  by (subst waitGet.simps) simp

lemma waitGet_done: "client_get N key k = Inr (t, k') \<Longrightarrow> decided t \<Longrightarrow> waitGet N key v k = Some (Inr (t = Inr v, k'))"
  by (subst waitGet.simps) (auto simp: decided_def split: sum.splits)

lemma waitGet_sound:
  assumes "waitGet N key v k = Some r"
  shows "\<forall>b k'. r = Inr (b, k') \<longrightarrow> (\<exists>k1 t. client_get N key k1 = Inr (t, k') \<and> decided t \<and> (b \<longleftrightarrow> t = Inr v))"
proof (rule waitGet.raw_induct [OF _ assms])
  fix f N key v k r
  assume IH: "\<And>N key v k r. f N key v k = Some r \<Longrightarrow>
      \<forall>b k'. r = Inr (b, k') \<longrightarrow> (\<exists>k1 t. client_get N key k1 = Inr (t, k') \<and> decided t \<and> (b \<longleftrightarrow> t = Inr v))"
    and r: "(case client_get N key k of Inl x \<Rightarrow> Some (Inl x)
      | Inr (t, k') \<Rightarrow> (case t of Inl e \<Rightarrow> if err_code e = KeyNotFound then Some (Inr (False, k')) else f N key v k'
        | Inr u \<Rightarrow> Some (Inr (Value_eq u v, k')))) = Some r"
  show "\<forall>b k'. r = Inr (b, k') \<longrightarrow> (\<exists>k1 t. client_get N key k1 = Inr (t, k') \<and> decided t \<and> (b \<longleftrightarrow> t = Inr v))"
  proof (intro allI impI)
    fix b k'
    assume b: "r = Inr (b, k')"
    with r obtain t k1 where g: "client_get N key k = Inr (t, k1)" by (auto split: sum.splits)
    show "\<exists>k1 t. client_get N key k1 = Inr (t, k') \<and> decided t \<and> (b \<longleftrightarrow> t = Inr v)"
    proof (cases "decided t")
      case True
      with r g b have "k' = k1" "b \<longleftrightarrow> t = Inr v" by (auto simp: decided_def split: sum.splits if_splits)
      with g True show ?thesis by blast
    next
      case False
      with r g b have "f N key v k1 = Some (Inr (b, k'))" by (auto simp: decided_def split: sum.splits if_splits)
      from IH [OF this] show ?thesis by blast
    qed
  qed
qed

text \<open>The value was set, or a \<open>get\<close> has read it back with the next version, and the client is \<open>k'\<close> then.\<close>

definition stored :: "net \<Rightarrow> kv_key \<Rightarrow> kv_value \<Rightarrow> client \<Rightarrow> bool" where
  "stored N key v k' \<longleftrightarrow> (\<exists>k1. client_set N key v k1 = Inr (Inr (), k') \<or>
     client_get N key k1 = Inr (Inr (mk_value (val_data v) (val_version v + 1)), k'))"

text \<open>One turn of the loop; \<open>f\<close> is the rest of it.\<close>

lemma waitSet_turn:
  assumes "(case client_set N key v k of Inl x \<Rightarrow> Some (Inl x)
      | Inr (t, k') \<Rightarrow> (case t of
          Inl e \<Rightarrow> Option.bind (waitGet N key (mk_value (val_data v) (val_version v + 1)) k') (\<lambda>g. case g of Inl x \<Rightarrow> Some (Inl x)
            | Inr (found, k'') \<Rightarrow> if found then Some (Inr k'') else f N key v k'')
        | Inr _ \<Rightarrow> Some (Inr k'))) = Some (Inr k')"
  shows "stored N key v k' \<or> (\<exists>k2. f N key v k2 = Some (Inr k'))"
proof -
  let ?v = "mk_value (val_data v) (val_version v + 1)"
  from assms obtain t k1 where s: "client_set N key v k = Inr (t, k1)" by (auto split: sum.splits)
  show ?thesis
  proof (cases t)
    case (Inr u)
    with assms s show ?thesis by (auto simp: stored_def)
  next
    case (Inl e)
    with assms s obtain g where g: "waitGet N key ?v k1 = Some g"
      "(case g of Inl x \<Rightarrow> Some (Inl x) | Inr (found, k'') \<Rightarrow> if found then Some (Inr k'') else f N key v k'') = Some (Inr k')"
      by (auto simp: Option.bind_eq_Some_conv)
    then obtain found k2 where f: "g = Inr (found, k2)" by (cases g) auto
    show ?thesis
    proof (cases found)
      case True
      with g f have "k2 = k'" by simp
      with waitGet_sound [OF g(1)] f True show ?thesis unfolding stored_def by blast
    next
      case False
      with g f show ?thesis by auto
    qed
  qed
qed

text \<open>
  \<open>waitSet\<close> returns only after its value was in the store: its last \<open>set\<close> was
  successful, or a \<open>get\<close> has read back the data with the next version.
\<close>

theorem waitSet_stored:
  assumes "waitSet N key v k = Some (Inr k')"
  shows "\<exists>k1. client_set N key v k1 = Inr (Inr (), k') \<or>
    client_get N key k1 = Inr (Inr (mk_value (val_data v) (val_version v + 1)), k')"
proof -
  let ?P = "\<lambda>N key v k (r :: client outcome). \<forall>k'. r = Inr k' \<longrightarrow> stored N key v k'"
  have "?P N key v k (Inr k')"
    by (rule waitSet.raw_induct [where P = ?P, OF _ assms]) (blast dest: waitSet_turn)
  then show ?thesis by (simp add: stored_def)
qed

lemma quick_set:
  "case client_set (sample_net (\<lambda>_. Status_OK) (\<lambda>_. RpSet)) (mk_key ''k'') (mk_value ''a'' 0) (client_new sample_config) of
     Inr (Inr _, k') \<Rightarrow> True
   | _ \<Rightarrow> False"
  by code_simp

text \<open>A set that is accepted at once.\<close>

theorem waitSet_stored_witness:
  "\<exists>k' k1. waitSet (sample_net (\<lambda>_. Status_OK) (\<lambda>_. RpSet)) (mk_key ''k'') (mk_value ''a'' 0) (client_new sample_config) = Some (Inr k') \<and>
     (client_set (sample_net (\<lambda>_. Status_OK) (\<lambda>_. RpSet)) (mk_key ''k'') (mk_value ''a'' 0) k1 = Inr (Inr (), k') \<or>
      client_get (sample_net (\<lambda>_. Status_OK) (\<lambda>_. RpSet)) (mk_key ''k'') k1 =
        Inr (Inr (mk_value (val_data (mk_value ''a'' 0)) (val_version (mk_value ''a'' 0) + 1)), k'))"
proof -
  from quick_set obtain k' where "client_set (sample_net (\<lambda>_. Status_OK) (\<lambda>_. RpSet)) (mk_key ''k'') (mk_value ''a'' 0)
      (client_new sample_config) = Inr (Inr (), k')"
    by (auto split: sum.splits)
  then have "waitSet (sample_net (\<lambda>_. Status_OK) (\<lambda>_. RpSet)) (mk_key ''k'') (mk_value ''a'' 0) (client_new sample_config) = Some (Inr k')"
    by (subst waitSet.simps) simp
  with waitSet_stored [OF this] show ?thesis by blast
qed

text \<open>
  The waiting loops end. \<open>waitGet\<close> returns as soon as a \<open>get\<close> is answered, whatever
  errors the earlier ones had, and says whether the value was the expected one.
\<close>

theorem waitGet_returns:
  assumes "\<And>i. i < n \<Longrightarrow> \<exists>e. client_get N key (ks i) = Inr (Inl e, ks (Suc i)) \<and> err_code e \<noteq> KeyNotFound"
    and "client_get N key (ks n) = Inr (t, k')" and "decided t"
  shows "waitGet N key v (ks 0) = Some (Inr (t = Inr v, k'))"
proof -
  have skip: "waitGet N key v (ks 0) = waitGet N key v (ks i)" if "i \<le> n" for i
    using that
  proof (induction i)
    case (Suc i)
    then show ?case using assms(1) [of i] waitGet_step by fastforce
  qed simp
  show ?thesis unfolding skip [OF order_refl] by (rule waitGet_done [OF assms(2,3)])
qed

lemma quick_get:
  "case client_get (sample_net (\<lambda>_. Status_OK) (\<lambda>_. RpGet \<lparr>pv_data = ''v'', pv_version = 1\<rparr>)) (mk_key ''k'') (client_new sample_config) of
     Inr (Inr u, k') \<Rightarrow> u = mk_value ''v'' 1
   | _ \<Rightarrow> False"
  by code_simp

theorem waitGet_returns_witness:
  "\<exists>k'. waitGet (sample_net (\<lambda>_. Status_OK) (\<lambda>_. RpGet \<lparr>pv_data = ''v'', pv_version = 1\<rparr>)) (mk_key ''k'') (mk_value ''v'' 1)
     (client_new sample_config) = Some (Inr (True, k'))"
proof -
  let ?N = "sample_net (\<lambda>_. Status_OK) (\<lambda>_. RpGet \<lparr>pv_data = ''v'', pv_version = 1\<rparr>)"
  from quick_get obtain k' where g: "client_get ?N (mk_key ''k'') (client_new sample_config) = Inr (Inr (mk_value ''v'' 1), k')"
    by (auto split: sum.splits)
  from waitGet_returns [of 0 ?N "mk_key ''k''" "\<lambda>_. client_new sample_config", OF _ g] show ?thesis
    by (auto simp: decided_def)
qed

theorem client_erase_correct_witness:
  "\<exists>r k'. client_erase (sample_net (\<lambda>_. Status_OK) (\<lambda>_. RpErase \<lparr>pv_data = ''v'', pv_version = 1\<rparr>)) (mk_key ''k'') (client_new sample_config) =
      Inr (r, k') \<and> rpcs k' \<le> rpcs (client_new sample_config) + call_budget (client_new sample_config) \<and>
    (case r of
       Inr v \<Rightarrow> \<exists>n \<in> {rpcs (client_new sample_config)..<rpcs k'}. \<exists>m. Some [mk_key ''k'' \<mapsto> mk_value ''v'' 1] = Some m \<and> m (mk_key ''k'') = Some v
     | Inl e \<Rightarrow> err_code e = KeyNotFound \<longrightarrow>
         (\<exists>n \<in> {rpcs (client_new sample_config)..<rpcs k'}. \<exists>m. Some [mk_key ''k'' \<mapsto> mk_value ''v'' 1] = Some m \<and> m (mk_key ''k'') = None))"
  by (rule client_erase_correct [OF sample_ok])
    (simp add: map_answer_def sample_net_def calm_env_def seen_by_client_def toExpected_def status_ok_def Status_OK_def
      erase_request_def spec_lookup_def value_message_def mk_value_def mk_key_def)

end
