(* ===== verification/RaftService.thy ===== *)
theory RaftService
  imports RaftServer
begin

text \<open>
  \<open>src/raft/RaftServiceImpl.cpp\<close>: the gRPC service that passes the messages of the other
  servers to the Raft server. A call returns its status, the reply message and the new state;
  for AppendEntries also whether the handler goes on to apply committed entries. \<open>ser\<close> and
  \<open>parse\<close> are the serialisation of commands inside log entries.
\<close>

section \<open>Definitions\<close>

definition service_requestVote :: "int \<Rightarrow> int \<Rightarrow> raft_message \<Rightarrow> raft \<Rightarrow> (Status \<times> raft_message \<times> raft) outcome" where
  "service_requestVote t1 t2 request s =
     bind_outcome (RequestVoteArg_of_message request) (\<lambda>arg.
       case requestVoteHandler t1 t2 arg s of (r, s') \<Rightarrow>
         Inr (Status_OK, PbRequestVoteReply (rvr_voteGranted r) (rvr_term r), s'))"

definition service_appendEntries :: "(string \<Rightarrow> pb_command option) \<Rightarrow> u64 \<times> u64 \<Rightarrow> int \<Rightarrow> int \<Rightarrow> raft_message \<Rightarrow> raft
    \<Rightarrow> (Status \<times> raft_message \<times> bool \<times> raft) outcome" where
  "service_appendEntries parse junk t1 t2 request s =
     bind_outcome (AppendEntriesArg_of_message parse request) (\<lambda>arg.
       case appendEntriesHandler junk t1 t2 arg s of (r, ap, s') \<Rightarrow>
         Inr (Status_OK,
              PbAppendEntriesReply (aer_success r) (aer_term r) (aer_conflictTerm r) (aer_conflictIndex r), ap, s'))"

text \<open>The field \<open>success\<close> of the reply is not set, so it keeps its default.\<close>

definition service_installSnapshot :: "int \<Rightarrow> int \<Rightarrow> raft_message \<Rightarrow> raft \<Rightarrow> (Status \<times> raft_message \<times> raft) outcome" where
  "service_installSnapshot t1 t2 request s =
     bind_outcome (InstallSnapshotArg_of_message request) (\<lambda>arg.
       case installSnapshotHandler t1 t2 arg s of (r, s') \<Rightarrow>
         Inr (Status_OK, PbInstallSnapshotReply False (isr_term r), s'))"

text \<open>
  A call of a peer as the calling server sees it when the network delivers it: its argument is
  converted to a message, served, and the reply converted back.
\<close>

definition peer_requestVote :: "int \<Rightarrow> int \<Rightarrow> RequestVoteArg \<Rightarrow> raft \<Rightarrow> (RequestVoteReply \<times> raft) outcome" where
  "peer_requestVote t1 t2 arg s =
     bind_outcome (service_requestVote t1 t2 (RequestVoteArg_message arg) s) (\<lambda>(st, m, s').
       bind_outcome (RequestVoteReply_of_message m) (\<lambda>r. Inr (r, s')))"

definition peer_appendEntries :: "(pb_command \<Rightarrow> string option) \<Rightarrow> (string \<Rightarrow> pb_command option) \<Rightarrow> u64 \<times> u64
    \<Rightarrow> int \<Rightarrow> int \<Rightarrow> AppendEntriesArg \<Rightarrow> raft \<Rightarrow> (AppendEntriesReply \<times> bool \<times> raft) outcome" where
  "peer_appendEntries ser parse junk t1 t2 arg s =
     bind_outcome (AppendEntriesArg_message ser arg) (\<lambda>q.
       bind_outcome (service_appendEntries parse junk t1 t2 q s) (\<lambda>(st, m, ap, s').
         bind_outcome (AppendEntriesReply_of_message m) (\<lambda>r. Inr (r, ap, s'))))"

definition peer_installSnapshot :: "int \<Rightarrow> int \<Rightarrow> InstallSnapshotArg \<Rightarrow> raft \<Rightarrow> (InstallSnapshotReply \<times> raft) outcome" where
  "peer_installSnapshot t1 t2 arg s =
     bind_outcome (service_installSnapshot t1 t2 (InstallSnapshotArg_message arg) s) (\<lambda>(st, m, s').
       bind_outcome (InstallSnapshotReply_of_message m) (\<lambda>r. Inr (r, s')))"

section \<open>The properties\<close>

lemma AppendEntriesArg_delivered:
  assumes "\<forall>e \<in> set (log_data (ae_entries a)). command_wire ser parse (le_command e)"
    and "AppendEntriesArg_message ser a = Inr q"
  shows "AppendEntriesArg_of_message parse q = Inr (a\<lparr>ae_entries := log_of (map wire_entry (log_data (ae_entries a)))\<rparr>)"
proof -
  from entries_roundtrip [OF assms(1)] obtain ms
    where "map_outcome (entry_message ser) (log_data (ae_entries a)) = Inr ms"
      "map_outcome (entry_of_message parse) ms = Inr (map wire_entry (log_data (ae_entries a)))"
    by (auto simp: bind_outcome_Inr)
  with assms(2) show ?thesis
    by (auto simp: AppendEntriesArg_message_def AppendEntriesArg_of_message_def fold_log_append log_new_def log_of_def)
qed

lemma AppendEntriesArg_sent:
  assumes "\<forall>e \<in> set (log_data (ae_entries a)). command_wire ser parse (le_command e)"
  shows "\<exists>q. AppendEntriesArg_message ser a = Inr q"
  using entries_roundtrip [OF assms]
  by (auto simp: AppendEntriesArg_message_def bind_outcome_Inr)

text \<open>
  C28: the wire is transparent. A vote request that is delivered has exactly the effect and the
  reply of the peer's handler, and an AppendEntries call those of the handler on the entries
  as they are read back from the wire.
\<close>

theorem peer_calls_transparent:
  assumes "\<forall>e \<in> set (log_data (ae_entries a)). command_wire ser parse (le_command e)"
  shows "peer_requestVote t1 t2 v s = Inr (requestVoteHandler t1 t2 v s)
    \<and> peer_appendEntries ser parse junk t1 t2 a s =
        Inr (appendEntriesHandler junk t1 t2 (a\<lparr>ae_entries := log_of (map wire_entry (log_data (ae_entries a)))\<rparr>) s)"
proof
  show "peer_requestVote t1 t2 v s = Inr (requestVoteHandler t1 t2 v s)"
    by (cases v) (simp add: peer_requestVote_def service_requestVote_def RequestVoteArg_of_message_def
        RequestVoteArg_message_def mk_RequestVoteArg_def RequestVoteReply_of_message_def mk_RequestVoteReply_def
        split: prod.split)
  from AppendEntriesArg_sent [OF assms] obtain q where q: "AppendEntriesArg_message ser a = Inr q" by blast
  from AppendEntriesArg_delivered [OF assms q] q
  show "peer_appendEntries ser parse junk t1 t2 a s =
      Inr (appendEntriesHandler junk t1 t2 (a\<lparr>ae_entries := log_of (map wire_entry (log_data (ae_entries a)))\<rparr>) s)"
    by (simp add: peer_appendEntries_def service_appendEntries_def AppendEntriesReply_of_message_def split: prod.split)
qed

text \<open>A vote is asked for and an entry sent over the wire, with the codec of commands.\<close>

theorem peer_calls_transparent_witness:
  "peer_requestVote 0 0 (mk_RequestVoteArg ''a'' 1 0 0) idle = Inr (requestVoteHandler 0 0 (mk_RequestVoteArg ''a'' 1 0 0) idle)
   \<and> peer_appendEntries (\<lambda>m. Some (enc_command m)) (whole dec_command) (0, 0) 0 0 sample_arg idle =
       Inr (appendEntriesHandler (0, 0) 0 0
         (sample_arg\<lparr>ae_entries := log_of (map wire_entry (log_data (ae_entries sample_arg)))\<rparr>) idle)"
  by (rule peer_calls_transparent)
    (simp add: command_wire_def whole_roundtrip [OF codec_command] sample_arg_def
        mk_AppendEntriesArg_def log_data_def log_of_def getUUID_def Get_new_def fresh_hdr_def zero_uuid_def)

text \<open>
  C38: a snapshot is never acknowledged over gRPC. Although the handler has installed the
  snapshot, the reply that reaches the leader says it has not, and the leader does not advance
  its indices for the peer, so it sends the snapshot again and again.
\<close>

theorem snapshot_never_acknowledged:
  "\<exists>r s'. peer_installSnapshot t1 t2 arg s = Inr (r, s') \<and> s' = snd (installSnapshotHandler t1 t2 arg s) \<and>
     \<not> isr_success r \<and>
     \<not> fst (appendEntries_snapReply now peerId arg (Some r) b lead) \<and>
     nextIndex (snd (snd (appendEntries_snapReply now peerId arg (Some r) b lead))) = nextIndex lead \<and>
     matchIndex (snd (snd (appendEntries_snapReply now peerId arg (Some r) b lead))) = matchIndex lead"
proof -
  let ?r = "\<lparr>isr_success = False, isr_term = isr_term (fst (installSnapshotHandler t1 t2 arg s))\<rparr>"
  have "peer_installSnapshot t1 t2 arg s = Inr (?r, snd (installSnapshotHandler t1 t2 arg s))"
    by (cases arg) (simp add: peer_installSnapshot_def service_installSnapshot_def InstallSnapshotArg_of_message_def
        InstallSnapshotArg_message_def mk_InstallSnapshotArg_def InstallSnapshotReply_of_message_def split: prod.split)
  moreover have "\<not> fst (appendEntries_snapReply now peerId arg (Some ?r) b lead)"
    "nextIndex (snd (snd (appendEntries_snapReply now peerId arg (Some ?r) b lead))) = nextIndex lead"
    "matchIndex (snd (snd (appendEntries_snapReply now peerId arg (Some ?r) b lead))) = matchIndex lead"
    by (auto simp: appendEntries_snapReply_def ae_step_down_def becameFollower_def Let_def)
  ultimately show ?thesis by simp
qed

end
