(* ===== verification/GoApply.thy ===== *)
theory GoApply
  imports KvService
begin

text \<open>
  The replicated state machine under the Go tests: the apply channel
  (\<open>src/goRaft/cgo/GoChannel.cpp\<close> over \<open>SendToApplyCh\<close> and \<open>ReceiveFromApplyCh\<close> of
  \<open>src/goRaft/cgo_callbacks.go\<close>), the state machine (\<open>GoStateMachine.cpp\<close> over
  \<open>state_machine_go_apply_command\<close>) and the submission of a request
  (\<open>src/goRaft/cgo_rsm.go\<close> over \<open>rsm_wrapper.cpp\<close>).

  Go hands bytes to C++ by copying them into a buffer that C++ provides. A copy that does not
  fit is undefined behaviour, the outcome \<open>BufferOverrun\<close>; a Go panic of an index out of range
  is \<open>OutOfRange\<close>. The codecs are an argument, the record \<open>go_codec\<close>: protocol buffers for
  commands and states, gob for the requests and answers of the service under test.
\<close>

section \<open>Decimal integers\<close>

text \<open>\<open>strconv.Atoi\<close>: an optional sign, at least one digit, and a value of 64 bits.\<close>

definition digit :: "char \<Rightarrow> bool" where
  "digit c \<longleftrightarrow> 48 \<le> (of_char c :: nat) \<and> (of_char c :: nat) \<le> 57"

definition digits_value :: "string \<Rightarrow> int" where
  "digits_value ds = foldl (\<lambda>n c. 10 * n + (int (of_char c) - 48)) 0 ds"

definition atoi :: "string \<Rightarrow> int option" where
  "atoi s =
     (let (neg, ds) = (case s of c # cs \<Rightarrow> if c = CHR ''-'' then (True, cs) else if c = CHR ''+'' then (False, cs) else (False, s)
                       | [] \<Rightarrow> (False, []));
          v = (if neg then - digits_value ds else digits_value ds)
      in if ds \<noteq> [] \<and> list_all digit ds \<and> - (2 ^ 63) \<le> v \<and> v < 2 ^ 63 then Some v else None)"

definition itoa :: "int \<Rightarrow> string" where
  "itoa i = (if i < 0 then CHR ''-'' # to_string_nat (nat (- i)) else to_string_nat (nat i))"

section \<open>Codecs\<close>

record ('q, 'p) go_codec =
  gc_ser :: "pb_command \<Rightarrow> string option"
  gc_parse :: "string \<Rightarrow> pb_command option"
  gc_sser :: "pb_state \<Rightarrow> string"
  gc_sparse :: "string \<Rightarrow> pb_state option"
  gc_encq :: "'q \<Rightarrow> string"
  gc_decq :: "string \<Rightarrow> 'q option"
  gc_encp :: "'p \<Rightarrow> string"
  gc_decp :: "string \<Rightarrow> 'p option"

text \<open>
  What the libraries document: a message is read back as it was written, a command has at least
  its operation and is not empty, and neither is a gob value.
\<close>

definition go_codec_ok :: "('q, 'p) go_codec \<Rightarrow> bool" where
  "go_codec_ok K \<longleftrightarrow>
     (\<forall>m. \<exists>b. gc_ser K m = Some b \<and> b \<noteq> [] \<and> gc_parse K b = Some m) \<and>
     (\<forall>x. gc_sparse K (gc_sser K x) = Some x \<and> gc_sser K x \<noteq> []) \<and>
     (\<forall>q. gc_decq K (gc_encq K q) = Some q \<and> gc_encq K q \<noteq> []) \<and>
     (\<forall>p. gc_decp K (gc_encp K p) = Some p)"

section \<open>The apply channel\<close>

datatype go_command = GoString string | GoInt int | GoBytes string

record ApplyMsg =
  am_CommandValid :: bool
  am_Command :: go_command
  am_CommandIndex :: int
  am_SnapshotValid :: bool
  am_Snapshot :: string
  am_SnapshotTerm :: int
  am_SnapshotIndex :: int

text \<open>A message that carries a command, and one that carries a snapshot; other fields are zero.\<close>

definition command_msg :: "go_command \<Rightarrow> int \<Rightarrow> ApplyMsg" where
  "command_msg c i = \<lparr>am_CommandValid = True, am_Command = c, am_CommandIndex = i,
     am_SnapshotValid = False, am_Snapshot = '''', am_SnapshotTerm = 0, am_SnapshotIndex = 0\<rparr>"

definition snapshot_msg :: "string \<Rightarrow> int \<Rightarrow> int \<Rightarrow> ApplyMsg" where
  "snapshot_msg d i t = \<lparr>am_CommandValid = False, am_Command = GoString '''', am_CommandIndex = 0,
     am_SnapshotValid = True, am_Snapshot = d, am_SnapshotTerm = t, am_SnapshotIndex = i\<rparr>"

text \<open>
  Only snapshots, requests and test commands reach the channel; each sets the part of the
  message that its case reads.
\<close>

definition apply_msg :: "pb_command \<Rightarrow> string \<Rightarrow> int \<Rightarrow> ApplyMsg" where
  "apply_msg m b index =
     (if pc_op m = ''i''
      then snapshot_msg (pv_data (pc_value m)) (sint (pc_index m)) (sint (pv_version (pc_value m)))
      else if pc_op m = ''r'' then command_msg (GoBytes b) index
      else case atoi (pk_data (pc_key m)) of
        None \<Rightarrow> command_msg (GoString (pk_data (pc_key m))) index
      | Some x \<Rightarrow> command_msg (GoInt x) index)"

text \<open>
  \<open>registered\<close>: the handle has not been freed. \<open>taken\<close>: a receiver takes the message within a
  quarter of a second. The result is 0 with the message that was taken, or 1.
\<close>

definition SendToApplyCh :: "('q, 'p) go_codec \<Rightarrow> bool \<Rightarrow> bool \<Rightarrow> string \<Rightarrow> int \<Rightarrow> int \<times> ApplyMsg option" where
  "SendToApplyCh K registered taken s index =
     (if s = [] then (1, None)
      else if \<not> registered then (1, None)
      else case gc_parse K s of
        None \<Rightarrow> (1, None)
      | Some m \<Rightarrow> if \<not> taken then (1, None) else (0, Some (apply_msg m s index)))"

text \<open>The index is passed as a C \<open>int\<close>.\<close>

definition c_int :: "u64 \<Rightarrow> int" where
  "c_int i = sint (ucast i :: 32 word)"

definition GoChannel_sendUntil :: "('q, 'p) go_codec \<Rightarrow> bool \<Rightarrow> bool \<Rightarrow> command \<Rightarrow> (bool \<times> ApplyMsg option) outcome" where
  "GoChannel_sendUntil K registered taken command =
     bind_outcome (serialize (gc_ser K) command) (\<lambda>c.
       case SendToApplyCh K registered taken c (c_int (hdr_index (cmd_header command))) of
         (r, m) \<Rightarrow> Inr (r = 0, m))"

text \<open>What the receiver finds within 50 milliseconds.\<close>

datatype go_recv = NoHandle | RecvTimeout | RecvClosed | RecvMsg ApplyMsg

text \<open>The copy into a buffer of \<open>cap\<close> bytes. Go takes the address of the first byte, which must exist.\<close>

definition copy_out :: "nat \<Rightarrow> string \<Rightarrow> (int \<times> string) outcome" where
  "copy_out cap b =
     (if b = [] then Inl OutOfRange
      else if cap < length b then Inl BufferOverrun
      else Inr (int (length b), b))"

text \<open>The result: the returned size and the bytes written. Snapshots are marshalled without an operation.\<close>

definition ReceiveFromApplyCh :: "('q, 'p) go_codec \<Rightarrow> nat \<Rightarrow> go_recv \<Rightarrow> (int \<times> string) outcome" where
  "ReceiveFromApplyCh K cap r =
     (case r of
        NoHandle \<Rightarrow> Inr (1, [])
      | RecvTimeout \<Rightarrow> Inr (- 1, [])
      | RecvClosed \<Rightarrow> Inr (- 2, [])
      | RecvMsg msg \<Rightarrow>
          if am_CommandValid msg
          then copy_out cap (case am_Command msg of GoString s \<Rightarrow> s | GoInt i \<Rightarrow> itoa i | GoBytes b \<Rightarrow> b)
          else if am_SnapshotValid msg
          then (case gc_ser K (empty_pb_command\<lparr>pc_index := word_of_int (am_SnapshotIndex msg),
                    pc_value := \<lparr>pv_data = am_Snapshot msg, pv_version = word_of_int (am_SnapshotTerm msg)\<rparr>\<rparr>) of
                  None \<Rightarrow> Inr (- 1, [])
                | Some b \<Rightarrow> copy_out cap b)
          else Inr (- 1, []))"

definition channel_buffer :: nat where
  "channel_buffer = 1024"

text \<open>A buffer of zeros, of which the first bytes were overwritten with \<open>b\<close>, cut to \<open>n\<close> bytes.\<close>

definition resized :: "nat \<Rightarrow> string \<Rightarrow> string" where
  "resized n b = take n (b @ replicate n (CHR 0x00))"

definition GoChannel_receiveUntil :: "('q, 'p) go_codec \<Rightarrow> go_recv \<Rightarrow> (ChannelError + command option) outcome" where
  "GoChannel_receiveUntil K r =
     bind_outcome (ReceiveFromApplyCh K channel_buffer r) (\<lambda>(size, b).
       if size = - 2 then Inr (Inl Closed)
       else if size < 0 then Inr (Inr None)
       else bind_outcome (commandFactory (gc_parse K) (resized (nat size) b)) (\<lambda>c. Inr (Inr (Some c))))"

text \<open>\<open>receive\<close> always finds nothing, and \<open>send\<close> does nothing; the Raft server calls neither.\<close>

definition GoChannel_receive :: "command option" where
  "GoChannel_receive = None"

section \<open>The state machine\<close>

text \<open>
  The service under test is \<open>doOp\<close>, in Go. \<open>None\<close> stands for the size -1. A command without a
  value has no data either.
\<close>

definition state_machine_go_apply_command :: "('q, 'p) go_codec \<Rightarrow> ('q \<Rightarrow> 'g \<Rightarrow> 'p \<times> 'g) \<Rightarrow> string \<Rightarrow> 'g \<Rightarrow> string option \<times> 'g" where
  "state_machine_go_apply_command K doOp command g =
     (case gc_parse K command of
        None \<Rightarrow> (None, g)
      | Some m \<Rightarrow>
          if pv_data (pc_value m) = [] then (None, g)
          else case gc_decq K (pv_data (pc_value m)) of
            None \<Rightarrow> (None, g)
          | Some req \<Rightarrow> (case doOp req g of (rep, g') \<Rightarrow>
              (Some (gc_sser K \<lparr>ps_key = None, ps_result = PbValue \<lparr>pv_data = gc_encp K rep, pv_version = 0\<rparr>\<rparr>), g')))"

definition state_buffer :: nat where
  "state_buffer = 4096"

text \<open>The size is compared with the buffer only after the copy was made.\<close>

definition GoStateMachine_applyCommand :: "('q, 'p) go_codec \<Rightarrow> ('q \<Rightarrow> 'g \<Rightarrow> 'p \<times> 'g) \<Rightarrow> command \<Rightarrow> 'g
    \<Rightarrow> (kv_state option \<times> 'g) outcome" where
  "GoStateMachine_applyCommand K doOp command g =
     bind_outcome (serialize (gc_ser K) command) (\<lambda>c.
       case state_machine_go_apply_command K doOp c g of
         (None, g') \<Rightarrow> bind_outcome (Error_of_code Unknown) (\<lambda>e. Inr (Some (State_error e), g'))
       | (Some b, g') \<Rightarrow>
           bind_outcome (copy_out state_buffer b) (\<lambda>(size, b').
             if size > int state_buffer
             then bind_outcome (Error_of_code Internal) (\<lambda>e. Inr (Some (State_error e), g'))
             else Inr (state_fromString (gc_sparse K) (resized (nat size) b'), g')))"

text \<open>A snapshot of it is an empty command, and installing one does nothing.\<close>

definition GoStateMachine_snapshot :: "uuid \<Rightarrow> command" where
  "GoStateMachine_snapshot u = InstallSnapshotCommand_new u 0 0 []"

definition GoStateMachine_installSnapshot :: "command \<Rightarrow> 'g \<Rightarrow> 'g" where
  "GoStateMachine_installSnapshot c g = g"

section \<open>Submission\<close>

text \<open>
  The loop of the consumer thread of \<open>Rsm\<close> over this channel and this machine: what it does with
  a command, and what it does with the results of its receives. The machine's null pointer would
  be dereferenced by the request that waits for it.
\<close>

definition go_consume :: "('q, 'p) go_codec \<Rightarrow> ('q \<Rightarrow> 'g \<Rightarrow> 'p \<times> 'g) \<Rightarrow> command \<Rightarrow> pending_requests \<times> 'g
    \<Rightarrow> (pending_requests \<times> 'g) outcome" where
  "go_consume K doOp c pg =
     bind_outcome (GoStateMachine_applyCommand K doOp c (snd pg)) (\<lambda>(st, g').
       case st of
         None \<Rightarrow> Inl NullPointer
       | Some st' \<Rightarrow> Inr (pending_complete (uuid_v7_to_string (getUUID c)) st' (fst pg), g'))"

fun go_consume_all :: "('q, 'p) go_codec \<Rightarrow> ('q \<Rightarrow> 'g \<Rightarrow> 'p \<times> 'g) \<Rightarrow> go_recv list \<Rightarrow> pending_requests \<times> 'g
    \<Rightarrow> (pending_requests \<times> 'g) outcome" where
  "go_consume_all K doOp [] pg = Inr pg"
| "go_consume_all K doOp (r # rs) pg =
     bind_outcome (GoChannel_receiveUntil K r) (\<lambda>x.
       case x of
         Inl Closed \<Rightarrow> Inr pg
       | Inr None \<Rightarrow> go_consume_all K doOp rs pg
       | Inr (Some c) \<Rightarrow> bind_outcome (go_consume K doOp c pg) (go_consume_all K doOp rs))"

text \<open>\<open>Rsm::handle\<close> on the same parts; \<open>rs\<close> is what the consumer receives until the wait is over.\<close>

definition go_handle :: "('q, 'p) go_codec \<Rightarrow> ('q \<Rightarrow> 'g \<Rightarrow> 'p \<times> 'g) \<Rightarrow> go_recv list \<Rightarrow> command
    \<Rightarrow> raft \<times> pending_requests \<times> 'g \<Rightarrow> (kv_state \<times> raft \<times> pending_requests \<times> 'g) outcome" where
  "go_handle K doOp rs c srv =
     (case srv of (s, p, g) \<Rightarrow>
       (case rsm_handle_start c s of
          (Some refused, c', s') \<Rightarrow> Inr (refused, s', p, g)
        | (None, c', s') \<Rightarrow>
            (case rsm_handle_add c' p of (n, p1) \<Rightarrow>
               bind_outcome (go_consume_all K doOp rs (p1, g)) (\<lambda>(p2, g').
                 bind_outcome (rsm_handle_answer n p2) (\<lambda>r. Inr (r, s', p2, g'))))))"

text \<open>\<open>None\<close> stands for the size -1, of a handle that was killed.\<close>

definition rsm_submit :: "('q, 'p) go_codec \<Rightarrow> (command \<Rightarrow> 'w \<Rightarrow> (kv_state \<times> 'w) outcome) \<Rightarrow> bool \<Rightarrow> nat \<Rightarrow> string \<Rightarrow> 'w
    \<Rightarrow> (string option \<times> 'w) outcome" where
  "rsm_submit K handle alive cap command w =
     (if \<not> alive then Inr (None, w)
      else bind_outcome (commandFactory (gc_parse K) command) (\<lambda>c.
        bind_outcome (handle c w) (\<lambda>(s, w').
          let out = gc_sser K (state_toProto s)
          in if cap < length out then Inl BufferOverrun else Inr (Some out, w'))))"

definition submit_buffer :: nat where
  "submit_buffer = 64 * 1024"

datatype go_err = GoOK | ErrWrongLeader

text \<open>The command of a request. The identifier \<open>u\<close> is drawn by the Go library.\<close>

definition submit_message :: "('q, 'p) go_codec \<Rightarrow> uuid \<Rightarrow> 'q \<Rightarrow> pb_command" where
  "submit_message K u req = empty_pb_command\<lparr>pc_op := ''r'', pc_value := \<lparr>pv_data = gc_encq K req, pv_version = 0\<rparr>,
     pc_uuid := uuid_v7_to_string u\<rparr>"

definition Submit :: "('q, 'p) go_codec \<Rightarrow> (command \<Rightarrow> 'w \<Rightarrow> (kv_state \<times> 'w) outcome) \<Rightarrow> bool \<Rightarrow> uuid \<Rightarrow> 'q \<Rightarrow> 'w
    \<Rightarrow> ((go_err \<times> 'p option) \<times> 'w) outcome" where
  "Submit K handle alive u req w =
     (case gc_ser K (submit_message K u req) of
        None \<Rightarrow> Inr ((ErrWrongLeader, None), w)
      | Some b \<Rightarrow> bind_outcome (rsm_submit K handle alive submit_buffer b w) (\<lambda>(r, w').
          let answer = (case r of
              None \<Rightarrow> None
            | Some out \<Rightarrow> (case gc_sparse K out of
                None \<Rightarrow> None
              | Some st \<Rightarrow> (case ps_result st of PbValue v \<Rightarrow> gc_decp K (pv_data v) | _ \<Rightarrow> None)))
          in Inr ((if answer = None then ErrWrongLeader else GoOK, answer), w')))"

section \<open>Facts\<close>

lemma resized_all [simp]: "resized (length b) b = b"
  by (simp add: resized_def)

lemma copy_out_ok: "b \<noteq> [] \<Longrightarrow> length b \<le> cap \<Longrightarrow> copy_out cap b = Inr (int (length b), b)"
  by (simp add: copy_out_def)

lemma go_codec_command:
  assumes "go_codec_ok K"
  obtains b where "serialize (gc_ser K) c = Inr b" "gc_ser K (command_message c) = Some b" "b \<noteq> []"
    "gc_parse K b = Some (command_message c)"
  using assms unfolding go_codec_ok_def serialize_def by (metis option.simps(5))

text \<open>The bytes of a request on the channel, and how they come out of it.\<close>

definition request_bytes :: "('q, 'p) go_codec \<Rightarrow> command \<Rightarrow> string" where
  "request_bytes K c = the (gc_ser K (command_message c))"

lemma request_sent:
  assumes "go_codec_ok K"
  shows "GoChannel_sendUntil K True True (CRms h d) =
    Inr (True, Some (command_msg (GoBytes (request_bytes K (CRms h d))) (c_int (hdr_index h))))"
proof -
  obtain b where b: "serialize (gc_ser K) (CRms h d) = Inr b" "gc_ser K (command_message (CRms h d)) = Some b" "b \<noteq> []"
    "gc_parse K b = Some (command_message (CRms h d))" by (rule go_codec_command [OF assms])
  moreover have "pc_op (command_message (CRms h d)) = ''r''" by (simp add: RmsCommand_message_def)
  ultimately show ?thesis
    by (simp add: GoChannel_sendUntil_def SendToApplyCh_def apply_msg_def request_bytes_def)
qed

lemma request_received:
  assumes "go_codec_ok K" and "length (hdr_uuid h) = 16"
  shows "GoChannel_receiveUntil K (RecvMsg (command_msg (GoBytes (request_bytes K (CRms h d))) i)) =
    (if length (request_bytes K (CRms h d)) \<le> channel_buffer
     then Inr (Inr (Some (CRms (h\<lparr>hdr_term := 0\<rparr>) d))) else Inl BufferOverrun)"
proof -
  obtain b where b: "gc_ser K (command_message (CRms h d)) = Some b" "b \<noteq> []"
    "gc_parse K b = Some (command_message (CRms h d))" by (rule go_codec_command [OF assms(1)])
  have "commandFactory (gc_parse K) b = Inr (CRms (h\<lparr>hdr_term := 0\<rparr>) d)"
    using b(3) command_message_roundtrip [of "CRms h d"] assms(2)
    by (cases h) (simp add: commandFactory_def getUUID_def)
  with b show ?thesis
    by (simp add: GoChannel_receiveUntil_def ReceiveFromApplyCh_def command_msg_def request_bytes_def copy_out_def)
qed

text \<open>The bytes of the answer that the state machine returns.\<close>

definition answer_bytes :: "('q, 'p) go_codec \<Rightarrow> 'p \<Rightarrow> string" where
  "answer_bytes K rep = gc_sser K \<lparr>ps_key = None, ps_result = PbValue \<lparr>pv_data = gc_encp K rep, pv_version = 0\<rparr>\<rparr>"

lemma request_applied:
  assumes "go_codec_ok K"
  shows "GoStateMachine_applyCommand K doOp (CRms h (gc_encq K req)) g =
    (if length (answer_bytes K (fst (doOp req g))) \<le> state_buffer
     then Inr (Some (State_string (gc_encp K (fst (doOp req g)))), snd (doOp req g)) else Inl BufferOverrun)"
proof -
  let ?c = "CRms h (gc_encq K req)"
  obtain b where b: "serialize (gc_ser K) ?c = Inr b" "gc_parse K b = Some (command_message ?c)"
    by (rule go_codec_command [OF assms])
  have q: "gc_decq K (gc_encq K req) = Some req" "gc_encq K req \<noteq> []"
    and s: "\<And>x. gc_sparse K (gc_sser K x) = Some x" "\<And>x. gc_sser K x \<noteq> []"
    using assms unfolding go_codec_ok_def by auto
  have run: "state_machine_go_apply_command K doOp b g = (Some (answer_bytes K (fst (doOp req g))), snd (doOp req g))"
    using b(2) q by (simp add: state_machine_go_apply_command_def RmsCommand_message_def answer_bytes_def split: prod.split)
  have st: "state_fromString (gc_sparse K) (answer_bytes K rep) = Some (State_string (gc_encp K rep))" for rep
    by (simp add: state_fromString_def answer_bytes_def s)
  have ne: "answer_bytes K rep \<noteq> []" for rep by (simp add: answer_bytes_def s)
  show ?thesis using b(1) by (simp add: GoStateMachine_applyCommand_def run copy_out_def st ne)
qed

lemma go_consume_timeouts: "go_consume_all K doOp (replicate k RecvTimeout @ rs) pg = go_consume_all K doOp rs pg"
  by (induction k) (simp_all add: GoChannel_receiveUntil_def ReceiveFromApplyCh_def)

text \<open>The message that the consumer receives for the command \<open>c\<close> of a request.\<close>

definition delivered :: "('q, 'p) go_codec \<Rightarrow> command \<Rightarrow> go_recv" where
  "delivered K c = RecvMsg (command_msg (GoBytes (request_bytes K c)) (c_int (hdr_index (cmd_header c))))"

lemma go_handle_answered:
  assumes "go_codec_ok K" and "pending_inv p" and "length (hdr_uuid h) = 16"
    and "start c s = (True, CRms h (gc_encq K req), s')"
    and "length (request_bytes K (CRms h (gc_encq K req))) \<le> channel_buffer"
    and "length (answer_bytes K (fst (doOp req g))) \<le> state_buffer"
  shows "\<exists>p'. go_handle K doOp (replicate k RecvTimeout @ [delivered K (CRms h (gc_encq K req))]) c (s, p, g) =
    Inr (State_string (gc_encp K (fst (doOp req g))), s', p', snd (doOp req g))"
proof -
  let ?c = "CRms h (gc_encq K req)" and ?k = "uuid_v7_to_string (hdr_uuid h)" and ?a = "State_string (gc_encp K (fst (doOp req g)))"
  obtain n p1 where add: "pending_add ?k p = (n, p1)" by fastforce
  with future_add(2) [OF assms(2), of ?k] have "map_of (pend_map p1) ?k = Some n" by simp
  then have ready: "future_of n (pending_complete ?k ?a p1) = Ready ?a" by (rule future_complete_own)
  have "go_consume_all K doOp (replicate k RecvTimeout @ [delivered K ?c]) (p1, g) = Inr (pending_complete ?k ?a p1, snd (doOp req g))"
    using assms(5,6)
    by (simp add: go_consume_timeouts go_consume_def delivered_def getUUID_def request_received [OF assms(1,3)]
        request_applied [OF assms(1)])
  with add ready assms(4) show ?thesis
    by (simp add: go_handle_def rsm_handle_start_def rsm_handle_add_def rsm_handle_answer_def getUUID_def)
qed

text \<open>The command that \<open>rsm_submit\<close> makes of a submitted request.\<close>

lemma submit_command:
  assumes "length u = 16"
  shows "command_of_message (submit_message K u req) = Inr (CRms (fresh_hdr u) (gc_encq K req))"
  using assms
  by (simp add: command_of_message_def submit_message_def empty_pb_command_def of_proto_defs fresh_hdr_def
      uuid_string_roundtrip_aux)

section \<open>The properties\<close>



text \<open>A codec with all the laws, for a service whose requests and answers are strings.\<close>

definition state_fields :: "pb_state \<Rightarrow> string option \<times> nat \<times> (string \<times> u64) \<times> u64 \<times> ErrorDetails" where
  "state_fields x =
     (let d0 = \<lparr>ed_code = 0, ed_what = [], ed_key = [], ed_value = [], ed_version = 0\<rparr> in
      (map_option pk_data (ps_key x),
       case ps_result x of
         PbUnset \<Rightarrow> (0, ([], 0), 0, d0)
       | PbValue v \<Rightarrow> (1, (pv_data v, pv_version v), 0, d0)
       | PbSize n \<Rightarrow> (2, ([], 0), n, d0)
       | PbError d \<Rightarrow> (3, ([], 0), 0, d)))"

definition state_of_fields :: "string option \<times> nat \<times> (string \<times> u64) \<times> u64 \<times> ErrorDetails \<Rightarrow> pb_state" where
  "state_of_fields f =
     (case f of (k, t, (d, v), n, e) \<Rightarrow>
        \<lparr>ps_key = map_option (\<lambda>x. \<lparr>pk_data = x\<rparr>) k,
         ps_result = (if t = 0 then PbUnset else if t = 1 then PbValue \<lparr>pv_data = d, pv_version = v\<rparr>
           else if t = 2 then PbSize n else PbError e)\<rparr>)"

definition enc_state :: "pb_state \<Rightarrow> string" where
  "enc_state = enc_via state_fields
     (enc_pair (enc_option enc_string) (enc_pair enc_nat (enc_pair (enc_pair enc_string enc_u64) (enc_pair enc_u64 enc_details))))"

definition dec_state :: "string \<Rightarrow> (pb_state \<times> string) option" where
  "dec_state = dec_via state_of_fields
     (dec_pair (dec_option dec_string) (dec_pair dec_nat (dec_pair (dec_pair dec_string dec_u64) (dec_pair dec_u64 dec_details))))"

lemma state_fields_inverse: "state_of_fields (state_fields x) = x"
proof -
  have "map_option (\<lambda>x. \<lparr>pk_data = x\<rparr>) (map_option pk_data k) = k" for k :: "pb_key option"
    by (cases k) simp_all
  then show ?thesis
    by (cases x; cases "ps_result x") (simp_all add: state_of_fields_def state_fields_def)
qed

lemma codec_state: "codec enc_state dec_state"
  unfolding enc_state_def dec_state_def
  by (rule codec_via) (simp_all add: codecs codec_details state_fields_inverse)

definition string_codec :: "(string, string) go_codec" where
  "string_codec = \<lparr>gc_ser = (\<lambda>m. Some (enc_command m)), gc_parse = whole dec_command, gc_sser = enc_state,
     gc_sparse = whole dec_state, gc_encq = enc_string, gc_decq = whole dec_string, gc_encp = enc_string,
     gc_decp = whole dec_string\<rparr>"

lemma enc_nat_nonempty [simp]: "enc_nat n \<noteq> []"
  by (cases n) simp_all

lemma string_codec_ok: "go_codec_ok string_codec"
  unfolding go_codec_ok_def string_codec_def
  by (simp add: whole_roundtrip [OF codec_command] whole_roundtrip [OF codec_state] whole_roundtrip [OF codec_string])
    (simp add: enc_command_def enc_state_def enc_via_def enc_pair_def enc_list_def enc_option_def)

text \<open>A service that stores the last request and answers with the one before.\<close>

definition swap_service :: "string \<Rightarrow> string \<Rightarrow> string \<times> string" where
  "swap_service req g = (g, req)"

abbreviation swap_command :: command where
  "swap_command \<equiv> fst (snd (start (CRms (fresh_hdr (replicate 16 1)) (gc_encq string_codec ''new'')) leader))"

lemma swap_fits:
  "length (request_bytes string_codec swap_command) \<le> 1024"
  "length (answer_bytes string_codec (fst (swap_service ''new'' ''old''))) \<le> 4096"
  by code_simp+



text \<open>
  A snapshot does not survive the apply channel. The receiver gets a message without an
  operation, and the command factory throws in the consumer thread. After the handle of the
  channel was freed, the receiver takes the error for the size of a command of one byte.
\<close>

theorem apply_channel_loses_snapshot:
  assumes "go_codec_ok K" and "length (the (gc_ser K (empty_pb_command\<lparr>pc_index := lii, pc_value := \<lparr>pv_data = d, pv_version = lit\<rparr>\<rparr>))) \<le> 1024"
  shows "\<exists>m. GoChannel_sendUntil K True True (CInstallSnapshot h lii lit d) = Inr (True, Some m) \<and>
      GoChannel_receiveUntil K (RecvMsg m) = Inl (InvalidArgument ''commandFactory: unknown command'') \<and>
    GoChannel_receiveUntil K NoHandle = bind_outcome (commandFactory (gc_parse K) [CHR 0x00]) (\<lambda>c. Inr (Inr (Some c)))"
proof -
  let ?c = "CInstallSnapshot h lii lit d"
  let ?q = "empty_pb_command\<lparr>pc_index := lii, pc_value := \<lparr>pv_data = d, pv_version = lit\<rparr>\<rparr>"
  obtain b where b: "serialize (gc_ser K) ?c = Inr b" "b \<noteq> []" "gc_parse K b = Some (command_message ?c)"
    by (rule go_codec_command [OF assms(1)])
  have m: "apply_msg (command_message ?c) b i = snapshot_msg d (sint lii) (sint lit)" for i
    by (simp add: apply_msg_def InstallSnapshotCommand_message_def)
  then have "GoChannel_sendUntil K True True ?c = Inr (True, Some (snapshot_msg d (sint lii) (sint lit)))"
    using b by (simp add: GoChannel_sendUntil_def SendToApplyCh_def)
  moreover from assms(1) obtain b' where b': "gc_ser K ?q = Some b'" "b' \<noteq> []" "gc_parse K b' = Some ?q"
    unfolding go_codec_ok_def by blast
  have "commandFactory (gc_parse K) b' = Inl (InvalidArgument ''commandFactory: unknown command'')"
    by (simp add: commandFactory_def b'(3) command_of_message_def empty_pb_command_def)
  with b' assms(2) have "GoChannel_receiveUntil K (RecvMsg (snapshot_msg d (sint lii) (sint lit))) =
      Inl (InvalidArgument ''commandFactory: unknown command'')"
    by (simp add: GoChannel_receiveUntil_def ReceiveFromApplyCh_def snapshot_msg_def copy_out_def channel_buffer_def)
  moreover have "GoChannel_receiveUntil K NoHandle = bind_outcome (commandFactory (gc_parse K) [CHR 0x00]) (\<lambda>c. Inr (Inr (Some c)))"
    by (simp add: GoChannel_receiveUntil_def ReceiveFromApplyCh_def resized_def)
  ultimately show ?thesis by blast
qed

theorem apply_channel_loses_snapshot_witness:
  "\<exists>m. GoChannel_sendUntil string_codec True True (CInstallSnapshot (fresh_hdr []) 3 1 ''state'') = Inr (True, Some m) \<and>
      GoChannel_receiveUntil string_codec (RecvMsg m) = Inl (InvalidArgument ''commandFactory: unknown command'')"
proof -
  have "length (the (gc_ser string_codec (empty_pb_command\<lparr>pc_index := 3, pc_value := \<lparr>pv_data = ''state'', pv_version = 1\<rparr>\<rparr>))) \<le> 1024"
    by code_simp
  from apply_channel_loses_snapshot [OF string_codec_ok this, of "fresh_hdr []"] show ?thesis by blast
qed

end
