(* ===== verification/GoRpc.thy ===== *)
theory GoRpc
  imports Rpc RaftService GoApply
begin

text \<open>
  The Raft server under the Go tests: the C entry points of \<open>src/goRaft/cgo/raft_wrapper.cpp\<close>, the
  client \<open>src/include/goRaft/cgo/GoRPCClient.hpp\<close> and the Go functions between them
  (\<open>src/goRaft/cgo_raft.go\<close>, \<open>labRpcCall\<close> of \<open>cgo_callbacks.go\<close>). A call goes from the C++
  client through Go and the simulated network to Go and the C++ handler of the peer, as bytes at
  each border. The Go structures have the fields of the messages and are written as messages.
\<close>

section \<open>Messages as bytes\<close>

datatype raft_type =
    T_AppendEntriesArg
  | T_AppendEntriesReply
  | T_RequestVoteArg
  | T_RequestVoteReply
  | T_InstallSnapshotArg
  | T_InstallSnapshotReply

fun message_type :: "raft_message \<Rightarrow> raft_type" where
  "message_type (PbAppendEntriesArg _ _ _ _ _ _) = T_AppendEntriesArg"
| "message_type (PbAppendEntriesReply _ _ _ _) = T_AppendEntriesReply"
| "message_type (PbRequestVoteArg _ _ _ _) = T_RequestVoteArg"
| "message_type (PbRequestVoteReply _ _) = T_RequestVoteReply"
| "message_type (PbInstallSnapshotArg _ _ _ _ _) = T_InstallSnapshotArg"
| "message_type (PbInstallSnapshotReply _ _) = T_InstallSnapshotReply"

text \<open>The reply type of a request type.\<close>

fun map_to :: "raft_type \<Rightarrow> raft_type option" where
  "map_to T_AppendEntriesArg = Some T_AppendEntriesReply"
| "map_to T_RequestVoteArg = Some T_RequestVoteReply"
| "map_to T_InstallSnapshotArg = Some T_InstallSnapshotReply"
| "map_to _ = None"

text \<open>
  \<open>rc_parse\<close> is \<open>ParseFromString\<close>, which fails on malformed bytes; \<open>rc_read\<close> is what it leaves in
  the message in either case.
\<close>

record raft_codec =
  rc_ser :: "raft_message \<Rightarrow> string option"
  rc_parse :: "raft_type \<Rightarrow> string \<Rightarrow> raft_message option"
  rc_read :: "raft_type \<Rightarrow> string \<Rightarrow> raft_message"

definition is_reply :: "raft_message \<Rightarrow> bool" where
  "is_reply m \<longleftrightarrow> message_type m \<in> {T_AppendEntriesReply, T_RequestVoteReply, T_InstallSnapshotReply}"

fun sender :: "raft_message \<Rightarrow> string" where
  "sender (PbAppendEntriesArg l _ _ _ _ _) = l"
| "sender (PbRequestVoteArg c _ _ _) = c"
| "sender (PbInstallSnapshotArg l _ _ _ _) = l"
| "sender _ = []"

text \<open>
  What protocol buffers document: messages are read back as they were written and by their own
  type, a message with a set field is not empty, and a reply, a flag and at most three integers
  of 64 bits, takes no more than 64 bytes.
\<close>

definition raft_codec_ok :: "raft_codec \<Rightarrow> bool" where
  "raft_codec_ok K \<longleftrightarrow>
     (\<forall>m. \<exists>b. rc_ser K m = Some b \<and> rc_parse K (message_type m) b = Some m \<and>
        (is_reply m \<longrightarrow> length b \<le> 64) \<and> (sender m \<noteq> [] \<longrightarrow> b \<noteq> [])) \<and>
     (\<forall>T b m. rc_parse K T b = Some m \<longrightarrow> message_type m = T \<and> rc_read K T b = m)"

section \<open>The C entry points\<close>

record GoRPCClient =
  grc_peerId :: int
  grc_policy :: RetryPolicy
  grc_handle :: u64
  grc_breaker :: CircuitBreaker

definition GoRPCClient_new :: "int \<Rightarrow> RetryPolicy \<Rightarrow> u64 \<Rightarrow> GoRPCClient" where
  "GoRPCClient_new pid p h = \<lparr>grc_peerId = pid, grc_policy = p, grc_handle = h, grc_breaker = mk_CircuitBreaker p\<rparr>"

record RaftHandle =
  rh_id :: int
  rh_servers :: int
  rh_selfId :: string
  rh_peers :: "string list"
  rh_policy :: RetryPolicy
  rh_callback :: u64
  rh_channelCallback :: u64
  rh_peerIds :: "(string, int) umap"
  rh_clients :: "(string, GoRPCClient) umap"
  rh_raft :: raft

definition peer_name :: "int \<Rightarrow> string" where
  "peer_name i = ''peer_'' @ itoa i"

text \<open>The body of the loop over the servers, and the client that the Raft server asks for.\<close>

definition add_peer :: "int \<Rightarrow> string list \<times> (string, int) umap \<Rightarrow> string list \<times> (string, int) umap" where
  "add_peer i pm = (fst pm @ [peer_name i], AList.update (peer_name i) i (snd pm))"

definition make_client :: "(string, int) umap \<Rightarrow> RetryPolicy \<Rightarrow> u64 \<Rightarrow> string \<Rightarrow> (string, GoRPCClient) umap
    \<Rightarrow> (string, GoRPCClient) umap outcome" where
  "make_client ids p cb address cs =
     (case map_of ids address of
        None \<Rightarrow> Inl OutOfRange
      | Some i \<Rightarrow> Inr (AList.update address (GoRPCClient_new i p cb) cs))"

fun make_clients :: "(string, int) umap \<Rightarrow> RetryPolicy \<Rightarrow> u64 \<Rightarrow> string list \<Rightarrow> (string, GoRPCClient) umap
    \<Rightarrow> (string, GoRPCClient) umap outcome" where
  "make_clients ids p cb [] cs = Inr cs"
| "make_clients ids p cb (a # as) cs = bind_outcome (make_client ids p cb a cs) (make_clients ids p cb as)"

text \<open>
  The delays of the policy are given in milliseconds and kept in microseconds. The constructor of
  the Raft server asks for one client per peer.
\<close>

definition create_raft :: "stable_load \<Rightarrow> int \<Rightarrow> int \<Rightarrow> u64 \<Rightarrow> u64 \<Rightarrow> int \<Rightarrow> PersistentState option \<Rightarrow> RaftHandle outcome" where
  "create_raft load pid servers cb channelCb now sv =
     (let (ps, ids) = fold add_peer [0..servers - 1] ([], []) in
      bind_outcome (mk_RetryPolicy 2000 50000 60000 10 1 4 4) (\<lambda>policy.
        bind_outcome (RaftImpl_new load ps (peer_name pid) policy now sv) (\<lambda>s.
          bind_outcome (make_clients ids policy cb (filter (\<lambda>a. a \<noteq> peer_name pid) ps) []) (\<lambda>cs.
            Inr \<lparr>rh_id = pid, rh_servers = servers, rh_selfId = peer_name pid, rh_peers = ps, rh_policy = policy,
                 rh_callback = cb, rh_channelCallback = channelCb, rh_peerIds = ids, rh_clients = cs, rh_raft = s\<rparr>))))"

text \<open>Deleting the handle destroys the server; the result is what the server leaves behind.\<close>

definition kill_raft :: "RaftHandle option \<Rightarrow> raft option" where
  "kill_raft h = map_option (\<lambda>x. RaftImpl_destroy (rh_raft x)) h"

text \<open>The handle of a replicated state machine; \<open>maxraftstate\<close> is stored and not read.\<close>

record RsmHandle =
  rsmh_id :: int
  rsmh_servers :: int
  rsmh_maxraftstate :: int
  rsmh_raftHandle :: RaftHandle
  rsmh_pending :: pending_requests

definition create_rsm :: "stable_load \<Rightarrow> int \<Rightarrow> int \<Rightarrow> u64 \<Rightarrow> u64 \<Rightarrow> int \<Rightarrow> int \<Rightarrow> PersistentState option \<Rightarrow> RsmHandle outcome" where
  "create_rsm load pid servers rpc ch maxraftstate now sv =
     bind_outcome (create_raft load pid servers rpc ch now sv) (\<lambda>h.
       Inr \<lparr>rsmh_id = pid, rsmh_servers = servers, rsmh_maxraftstate = maxraftstate, rsmh_raftHandle = h,
            rsmh_pending = pending_new\<rparr>)"

definition rsm_raft_handle :: "RsmHandle option \<Rightarrow> RaftHandle option" where
  "rsm_raft_handle h = map_option rsmh_raftHandle h"

text \<open>The state machine is destroyed before the server.\<close>

definition rsm_kill :: "RsmHandle option \<Rightarrow> (pending_requests \<times> raft option) option" where
  "rsm_kill h =
     (case h of
        None \<Rightarrow> None
      | Some x \<Rightarrow> let r = rsm_raft_handle h; p = rsm_destroy (rsmh_pending x) in Some (p, kill_raft r))"

text \<open>
  The reply of an entry point: serialised and copied to a buffer of \<open>cap\<close> bytes that is not
  checked. \<open>None\<close> stands for the size -1.
\<close>

definition write_reply :: "raft_codec \<Rightarrow> nat \<Rightarrow> raft_message \<Rightarrow> RaftHandle \<Rightarrow> (string option \<times> RaftHandle option) outcome" where
  "write_reply K cap reply h =
     (case rc_ser K reply of
        None \<Rightarrow> Inr (None, Some h)
      | Some b \<Rightarrow> if cap < length b then Inl BufferOverrun else Inr (Some b, Some h))"

definition handle_request_vote :: "raft_codec \<Rightarrow> int \<Rightarrow> int \<Rightarrow> RaftHandle option \<Rightarrow> string \<Rightarrow> nat
    \<Rightarrow> (string option \<times> RaftHandle option) outcome" where
  "handle_request_vote K t1 t2 h args cap =
     (case h of
        None \<Rightarrow> Inr (None, None)
      | Some x \<Rightarrow> (case rc_parse K T_RequestVoteArg args of
          None \<Rightarrow> Inr (None, h)
        | Some m \<Rightarrow> bind_outcome (RequestVoteArg_of_message m) (\<lambda>arg.
            case requestVoteHandler t1 t2 arg (rh_raft x) of (r, s) \<Rightarrow>
              write_reply K cap (PbRequestVoteReply (rvr_voteGranted r) (rvr_term r)) (x\<lparr>rh_raft := s\<rparr>))))"

text \<open>The handler goes on to apply committed entries, which is the step \<open>applyCommittedEntries\<close>.\<close>

definition handle_append_entries :: "raft_codec \<Rightarrow> (string \<Rightarrow> pb_command option) \<Rightarrow> u64 \<times> u64 \<Rightarrow> int \<Rightarrow> int \<Rightarrow> RaftHandle option
    \<Rightarrow> string \<Rightarrow> nat \<Rightarrow> (string option \<times> RaftHandle option) outcome" where
  "handle_append_entries K parse junk t1 t2 h args cap =
     (case h of
        None \<Rightarrow> Inr (None, None)
      | Some x \<Rightarrow> (case rc_parse K T_AppendEntriesArg args of
          None \<Rightarrow> Inr (None, h)
        | Some m \<Rightarrow> bind_outcome (AppendEntriesArg_of_message parse m) (\<lambda>arg.
            case appendEntriesHandler junk t1 t2 arg (rh_raft x) of (r, ap, s) \<Rightarrow>
              write_reply K cap (PbAppendEntriesReply (aer_success r) (aer_term r) (aer_conflictTerm r) (aer_conflictIndex r))
                (x\<lparr>rh_raft := s\<rparr>))))"

definition handle_install_snapshot :: "raft_codec \<Rightarrow> int \<Rightarrow> int \<Rightarrow> RaftHandle option \<Rightarrow> string \<Rightarrow> nat
    \<Rightarrow> (string option \<times> RaftHandle option) outcome" where
  "handle_install_snapshot K t1 t2 h args cap =
     (case h of
        None \<Rightarrow> Inr (None, None)
      | Some x \<Rightarrow> (case rc_parse K T_InstallSnapshotArg args of
          None \<Rightarrow> Inr (None, h)
        | Some m \<Rightarrow> bind_outcome (InstallSnapshotArg_of_message m) (\<lambda>arg.
            case installSnapshotHandler t1 t2 arg (rh_raft x) of (r, s) \<Rightarrow>
              write_reply K cap (PbInstallSnapshotReply (isr_success r) (isr_term r)) (x\<lparr>rh_raft := s\<rparr>))))"

text \<open>
  The state as C integers: the term loses its upper half. \<open>raft_start\<close> wraps the bytes in a test
  command; \<open>u\<close> is its identifier.
\<close>

definition raft_get_state :: "RaftHandle option \<Rightarrow> (int \<times> int) option" where
  "raft_get_state h =
     (case h of
        None \<Rightarrow> None
      | Some x \<Rightarrow> Some (c_int (raft_getCurrentTerm (rh_raft x)), if raft_getRole (rh_raft x) = Leader then 1 else 0))"

definition raft_start :: "uuid \<Rightarrow> RaftHandle option \<Rightarrow> string \<Rightarrow> (int \<times> int \<times> int) option \<times> RaftHandle option" where
  "raft_start u h command =
     (case h of
        None \<Rightarrow> (None, None)
      | Some x \<Rightarrow> (case start (TestCommand_new u command) (rh_raft x) of (ok, c, s) \<Rightarrow>
          (Some (c_int (hdr_index (cmd_header c)), c_int (hdr_term (cmd_header c)), if ok then 1 else 0),
           Some (x\<lparr>rh_raft := s\<rparr>))))"

definition raft_read_persist :: "(string \<Rightarrow> pb_command option) \<Rightarrow> (string \<Rightarrow> pb_persistent option) \<Rightarrow> RaftHandle option \<Rightarrow> string
    \<Rightarrow> RaftHandle option outcome" where
  "raft_read_persist cparse parse h d =
     (case h of
        None \<Rightarrow> Inr None
      | Some x \<Rightarrow> (case parse d of
          None \<Rightarrow> Inr h
        | Some m \<Rightarrow> bind_outcome (map_outcome (entry_of_message cparse) (pp_log m)) (\<lambda>es.
            Inr (Some (x\<lparr>rh_raft := readPersist
              \<lparr>ps_currentTerm = pp_currentTerm m, ps_votedFor = pp_votedFor m,
               ps_log = fold (\<lambda>e g. log_append g e) es log_new, ps_snapshotData = pp_snapshot m,
               ps_lastIncludedIndex = pp_lastIncludedIndex m, ps_lastIncludedTerm = pp_lastIncludedTerm m\<rparr>
              (rh_raft x)\<rparr>)))))"

definition raft_snapshot_c :: "RaftHandle option \<Rightarrow> u64 \<Rightarrow> string \<Rightarrow> RaftHandle option outcome" where
  "raft_snapshot_c h index d =
     (case h of
        None \<Rightarrow> Inr None
      | Some x \<Rightarrow> bind_outcome (raft_snapshot index d (rh_raft x)) (\<lambda>s. Inr (Some (x\<lparr>rh_raft := s\<rparr>))))"

section \<open>The Go side\<close>

text \<open>The reply structure before a method has filled it.\<close>

fun zero_reply :: "raft_type \<Rightarrow> raft_message" where
  "zero_reply T_AppendEntriesArg = PbAppendEntriesReply False 0 0 0"
| "zero_reply T_RequestVoteArg = PbRequestVoteReply False 0"
| "zero_reply _ = PbInstallSnapshotReply False 0"

text \<open>
  The methods \<open>RequestVote\<close>, \<open>AppendEntries\<close> and \<open>InstallSnapshot\<close> that the network calls at the
  peer. They marshal the argument, call the C entry point with a buffer of 64 bytes and read the
  reply; on every error the reply stays as it was. Only \<open>AppendEntries\<close> does not test the
  argument for being empty before it takes the address of its first byte.
\<close>

definition go_method :: "raft_codec \<Rightarrow> (RaftHandle option \<Rightarrow> string \<Rightarrow> nat \<Rightarrow> (string option \<times> RaftHandle option) outcome)
    \<Rightarrow> raft_message \<Rightarrow> RaftHandle option \<Rightarrow> (raft_message \<times> RaftHandle option) outcome" where
  "go_method K entry arg h =
     (let T = message_type arg; none = zero_reply T in
      case h of
        None \<Rightarrow> Inr (none, h)
      | Some _ \<Rightarrow> (case rc_ser K arg of
          None \<Rightarrow> Inr (none, h)
        | Some b \<Rightarrow>
            if b = [] then (if T = T_AppendEntriesArg then Inl OutOfRange else Inr (none, h))
            else bind_outcome (entry h b 64) (\<lambda>(n, h').
              case n of
                None \<Rightarrow> Inr (none, h')
              | Some out \<Rightarrow> (case map_to T of
                  None \<Rightarrow> Inr (none, h')
                | Some R \<Rightarrow> (case rc_parse K R out of None \<Rightarrow> Inr (none, h') | Some m \<Rightarrow> Inr (m, h'))))))"

text \<open>What the simulated network does with a call: lose it, lose its reply, or deliver both.\<close>

datatype delivery = Dropped | ReplyLost | Delivered

definition labRpcCall :: "delivery \<Rightarrow> ('a \<Rightarrow> 'h \<Rightarrow> ('b \<times> 'h) outcome) \<Rightarrow> 'a \<Rightarrow> 'h \<Rightarrow> ('b option \<times> 'h) outcome" where
  "labRpcCall dv peer arg h =
     (case dv of
        Dropped \<Rightarrow> Inr (None, h)
      | ReplyLost \<Rightarrow> bind_outcome (peer arg h) (\<lambda>(r, h'). Inr (None, h'))
      | Delivered \<Rightarrow> bind_outcome (peer arg h) (\<lambda>(r, h'). Inr (Some r, h')))"

text \<open>\<open>go_invoke_request_vote\<close> and its two companions; \<open>None\<close> stands for the size -1.\<close>

definition go_invoke :: "raft_codec \<Rightarrow> delivery \<Rightarrow> (raft_message \<Rightarrow> 'h \<Rightarrow> (raft_message \<times> 'h) outcome) \<Rightarrow> raft_type \<Rightarrow> string \<Rightarrow> nat
    \<Rightarrow> 'h \<Rightarrow> (string option \<times> 'h) outcome" where
  "go_invoke K dv peer T args reply_len h =
     (case rc_parse K T args of
        None \<Rightarrow> Inr (None, h)
      | Some arg \<Rightarrow> bind_outcome (labRpcCall dv peer arg h) (\<lambda>(r, h').
          case r of
            None \<Rightarrow> Inr (None, h')
          | Some rep \<Rightarrow> (case rc_ser K rep of
              None \<Rightarrow> Inr (None, h')
            | Some b \<Rightarrow> if reply_len < length b then Inr (None, h') else Inr (Some b, h'))))"

definition go_invoke_callback :: "raft_codec \<Rightarrow> delivery \<Rightarrow> (raft_message \<Rightarrow> 'h \<Rightarrow> (raft_message \<times> 'h) outcome) \<Rightarrow> string \<Rightarrow> string
    \<Rightarrow> nat \<Rightarrow> 'h \<Rightarrow> (string option \<times> 'h) outcome" where
  "go_invoke_callback K dv peer f args reply_len h =
     (if f = ''Raft.RequestVote'' then go_invoke K dv peer T_RequestVoteArg args reply_len h
      else if f = ''Raft.AppendEntries'' then go_invoke K dv peer T_AppendEntriesArg args reply_len h
      else if f = ''Raft.InstallSnapshot'' then go_invoke K dv peer T_InstallSnapshotArg args reply_len h
      else Inr (None, h))"

section \<open>The client\<close>

text \<open>The name of a call on the network and the size of its reply buffer.\<close>

definition go_function :: "string \<Rightarrow> (string \<times> nat) option" where
  "go_function name =
     (if name = ''requestVote'' then Some (''Raft.RequestVote'', 64)
      else if name = ''appendEntries'' then Some (''Raft.AppendEntries'', 64)
      else if name = ''installSnapshot'' then Some (''Raft.InstallSnapshot'', 65536)
      else None)"

text \<open>\<open>cb f len n\<close> is what the n-th call of \<open>go_invoke_callback\<close> with these arguments returns.\<close>

definition go_env :: "env \<Rightarrow> (nat \<Rightarrow> string option) \<Rightarrow> env" where
  "go_env E cb = E\<lparr>env_rpc := \<lambda>n. if cb n = None then mk_Status DEADLINE_EXCEEDED ''labrpc failed'' else Status_OK\<rparr>"

definition GoRPCClient_call :: "raft_codec \<Rightarrow> env \<Rightarrow> (string \<Rightarrow> nat \<Rightarrow> nat \<Rightarrow> string option) \<Rightarrow> string \<Rightarrow> raft_message \<Rightarrow> GoRPCClient \<Rightarrow> world
    \<Rightarrow> (raft_message option \<times> GoRPCClient \<times> world) outcome" where
  "GoRPCClient_call K E cb name request c w =
     (case go_function name of
        None \<Rightarrow> Inl (InvalidArgument (''Unknown function '' @ name))
      | Some (f, len) \<Rightarrow>
          bind_outcome (breaker_call (go_env E (cb f len)) f (grc_breaker c) w) (\<lambda>(statuses, b, w1).
            let c1 = c\<lparr>grc_breaker := b\<rparr> in
            if statuses = [] then Inl OutOfRange
            else if \<not> status_ok (last statuses) then Inr (None, c1, w1)
            else case cb f len (w_rpcs w1 - 1) of
              None \<Rightarrow> Inr (None, c1, w1)
            | Some p \<Rightarrow> Inr (map_option (\<lambda>R. rc_read K R p) (map_to (message_type request)), c1, w1)))"

section \<open>Facts\<close>

lemma raft_codec_bytes:
  assumes "raft_codec_ok K"
  obtains b where "rc_ser K m = Some b" "rc_parse K (message_type m) b = Some m" "is_reply m \<Longrightarrow> length b \<le> 64"
    "sender m \<noteq> [] \<Longrightarrow> b \<noteq> []"
  using assms unfolding raft_codec_ok_def by blast

lemma write_reply_ok:
  assumes "raft_codec_ok K" and "is_reply m"
  shows "\<exists>b. write_reply K 64 m h = Inr (Some b, Some h) \<and> rc_parse K (message_type m) b = Some m"
  by (rule raft_codec_bytes [OF assms(1), of m]) (use assms(2) in \<open>simp add: write_reply_def\<close>)

text \<open>
  A call that is delivered: the peer's method gets the argument as it was sent, and the bytes
  that come back are read as the reply that the entry point has written.
\<close>

lemma go_invoke_delivered:
  assumes K: "raft_codec_ok K" and "sender arg \<noteq> []" and T: "map_to (message_type arg) = Some (message_type rep)"
    and "is_reply rep" and "64 \<le> len"
    and entry: "\<And>b. rc_parse K (message_type arg) b = Some arg \<Longrightarrow> entry (Some h) b 64 = write_reply K 64 rep h'"
    and "rc_ser K arg = Some args"
  shows "\<exists>b. go_invoke K Delivered (go_method K entry) (message_type arg) args len (Some h) = Inr (Some b, Some h') \<and>
    rc_parse K (message_type rep) b = Some rep"
proof -
  obtain a where a: "rc_ser K arg = Some a" "rc_parse K (message_type arg) a = Some arg" "a \<noteq> []"
    by (rule raft_codec_bytes [OF K, of arg]) (use assms(2) in blast)
  from write_reply_ok [OF K assms(4), of h'] obtain b where
    b: "write_reply K 64 rep h' = Inr (Some b, Some h')" "rc_parse K (message_type rep) b = Some rep" by blast
  obtain c where c: "rc_ser K rep = Some c" "rc_parse K (message_type rep) c = Some rep" "length c \<le> 64"
    by (rule raft_codec_bytes [OF K, of rep]) (use assms(4) in blast)
  have "go_method K entry arg (Some h) = Inr (rep, Some h')"
    using a b T entry [OF a(2)] by (simp add: go_method_def)
  with a c assms(5,7) show ?thesis by (simp add: go_invoke_def labRpcCall_def)
qed

lemma vote_entry:
  "rc_parse K T_RequestVoteArg b = Some (RequestVoteArg_message v) \<Longrightarrow>
   handle_request_vote K t1 t2 (Some h) b cap =
     write_reply K cap (RequestVoteReply_message (fst (requestVoteHandler t1 t2 v (rh_raft h))))
       (h\<lparr>rh_raft := snd (requestVoteHandler t1 t2 v (rh_raft h))\<rparr>)"
  by (cases v) (simp add: handle_request_vote_def RequestVoteArg_of_message_def RequestVoteArg_message_def
      mk_RequestVoteArg_def RequestVoteReply_message_def split: prod.split)

lemma snapshot_entry:
  "rc_parse K T_InstallSnapshotArg b = Some (InstallSnapshotArg_message a) \<Longrightarrow>
   handle_install_snapshot K t1 t2 (Some h) b cap =
     write_reply K cap (InstallSnapshotReply_message (fst (installSnapshotHandler t1 t2 a (rh_raft h))))
       (h\<lparr>rh_raft := snd (installSnapshotHandler t1 t2 a (rh_raft h))\<rparr>)"
  by (cases a) (simp add: handle_install_snapshot_def InstallSnapshotArg_of_message_def InstallSnapshotArg_message_def
      mk_InstallSnapshotArg_def InstallSnapshotReply_message_def split: prod.split)

text \<open>An AppendEntries argument as it is read back from the wire.\<close>

abbreviation on_wire :: "AppendEntriesArg \<Rightarrow> AppendEntriesArg" where
  "on_wire a \<equiv> a\<lparr>ae_entries := log_of (map wire_entry (log_data (ae_entries a)))\<rparr>"

lemma append_entry:
  assumes "\<forall>e \<in> set (log_data (ae_entries a)). command_wire ser parse (le_command e)"
    and "AppendEntriesArg_message ser a = Inr q" and "rc_parse K T_AppendEntriesArg b = Some q"
  shows "handle_append_entries K parse junk t1 t2 (Some h) b cap =
     write_reply K cap (AppendEntriesReply_message (fst (appendEntriesHandler junk t1 t2 (on_wire a) (rh_raft h))))
       (h\<lparr>rh_raft := snd (snd (appendEntriesHandler junk t1 t2 (on_wire a) (rh_raft h)))\<rparr>)"
  using AppendEntriesArg_delivered [OF assms(1,2)] assms(3)
  by (simp add: handle_append_entries_def AppendEntriesReply_message_def split: prod.split)

lemma raft_codec_read: "raft_codec_ok K \<Longrightarrow> rc_parse K T b = Some m \<Longrightarrow> rc_read K T b = m"
  by (simp add: raft_codec_ok_def)

lemma raft_codec_the: "raft_codec_ok K \<Longrightarrow> rc_ser K m = Some (the (rc_ser K m))"
  by (rule raft_codec_bytes [of K m]) simp_all

lemma vote_delivered:
  assumes "raft_codec_ok K" and "rv_candidateId v \<noteq> []"
  shows "\<exists>b. go_invoke K Delivered (go_method K (handle_request_vote K t1 t2)) T_RequestVoteArg
      (the (rc_ser K (RequestVoteArg_message v))) 64 (Some h) =
        Inr (Some b, Some (h\<lparr>rh_raft := snd (requestVoteHandler t1 t2 v (rh_raft h))\<rparr>)) \<and>
    rc_parse K T_RequestVoteReply b = Some (RequestVoteReply_message (fst (requestVoteHandler t1 t2 v (rh_raft h))))"
proof -
  let ?arg = "RequestVoteArg_message v" and ?rep = "RequestVoteReply_message (fst (requestVoteHandler t1 t2 v (rh_raft h)))"
  have T: "message_type ?arg = T_RequestVoteArg" "message_type ?rep = T_RequestVoteReply" "sender ?arg \<noteq> []" "is_reply ?rep"
    using assms(2) by (simp_all add: RequestVoteArg_message_def RequestVoteReply_message_def is_reply_def)
  show ?thesis
    unfolding T(1,2) [symmetric]
    by (rule go_invoke_delivered [OF assms(1) T(3) _ T(4) _ _ raft_codec_the [OF assms(1)]]) (simp_all add: T vote_entry)
qed

lemma snapshot_delivered:
  assumes "raft_codec_ok K" and "is_leaderId i \<noteq> []"
  shows "\<exists>b. go_invoke K Delivered (go_method K (handle_install_snapshot K t1 t2)) T_InstallSnapshotArg
      (the (rc_ser K (InstallSnapshotArg_message i))) 65536 (Some h) =
        Inr (Some b, Some (h\<lparr>rh_raft := snd (installSnapshotHandler t1 t2 i (rh_raft h))\<rparr>)) \<and>
    rc_parse K T_InstallSnapshotReply b = Some (InstallSnapshotReply_message (fst (installSnapshotHandler t1 t2 i (rh_raft h))))"
proof -
  let ?arg = "InstallSnapshotArg_message i" and ?rep = "InstallSnapshotReply_message (fst (installSnapshotHandler t1 t2 i (rh_raft h)))"
  have T: "message_type ?arg = T_InstallSnapshotArg" "message_type ?rep = T_InstallSnapshotReply" "sender ?arg \<noteq> []" "is_reply ?rep"
    using assms(2) by (simp_all add: InstallSnapshotArg_message_def InstallSnapshotReply_message_def is_reply_def)
  show ?thesis
    unfolding T(1,2) [symmetric]
    by (rule go_invoke_delivered [OF assms(1) T(3) _ T(4) _ _ raft_codec_the [OF assms(1)]]) (simp_all add: T snapshot_entry)
qed

lemma append_delivered:
  assumes "raft_codec_ok K" and "ae_leaderId a \<noteq> []"
    and "\<forall>e \<in> set (log_data (ae_entries a)). command_wire ser parse (le_command e)" and "AppendEntriesArg_message ser a = Inr q"
  shows "\<exists>b. go_invoke K Delivered (go_method K (handle_append_entries K parse junk t1 t2)) T_AppendEntriesArg
      (the (rc_ser K q)) 64 (Some h) =
        Inr (Some b, Some (h\<lparr>rh_raft := snd (snd (appendEntriesHandler junk t1 t2 (on_wire a) (rh_raft h)))\<rparr>)) \<and>
    rc_parse K T_AppendEntriesReply b =
      Some (AppendEntriesReply_message (fst (appendEntriesHandler junk t1 t2 (on_wire a) (rh_raft h))))"
proof -
  let ?rep = "AppendEntriesReply_message (fst (appendEntriesHandler junk t1 t2 (on_wire a) (rh_raft h)))"
  have T: "message_type q = T_AppendEntriesArg" "message_type ?rep = T_AppendEntriesReply" "sender q \<noteq> []" "is_reply ?rep"
    using assms(2,4) by (auto simp: AppendEntriesArg_message_def bind_outcome_Inr AppendEntriesReply_message_def is_reply_def)
  show ?thesis
    unfolding T(1,2) [symmetric]
    by (rule go_invoke_delivered [OF assms(1) T(3) _ T(4) _ _ raft_codec_the [OF assms(1)]])
      (simp_all add: T append_entry [OF assms(3,4)])
qed

section \<open>A codec of fixed width\<close>

text \<open>Integers of eight bytes, so that replies have a bounded size.\<close>

fun low_bytes :: "nat \<Rightarrow> nat \<Rightarrow> string" where
  "low_bytes 0 n = []"
| "low_bytes (Suc k) n = char_of (n mod 256) # low_bytes k (n div 256)"

fun bytes_value :: "string \<Rightarrow> nat" where
  "bytes_value [] = 0"
| "bytes_value (c # cs) = of_char c + 256 * bytes_value cs"

lemma length_low_bytes [simp]: "length (low_bytes k n) = k"
  by (induction k arbitrary: n) simp_all

lemma bytes_value_low: "bytes_value (low_bytes k n) = n mod 256 ^ k"
proof (induction k arbitrary: n)
  case (Suc k)
  have "n mod (256 * 256 ^ k) = 256 * (n div 256 mod 256 ^ k) + n mod 256" by (rule mod_mult2_eq)
  with Suc show ?case by simp
qed simp

definition enc_w8 :: "u64 \<Rightarrow> string" where
  "enc_w8 w = low_bytes 8 (unat w)"

definition dec_w8 :: "string \<Rightarrow> (u64 \<times> string) option" where
  "dec_w8 s = (if length s < 8 then None else Some (of_nat (bytes_value (take 8 s)), drop 8 s))"

lemma codec_w8: "codec enc_w8 dec_w8"
proof -
  have "unat w mod 256 ^ 8 = unat w" for w :: u64
    using unsigned_less [of w, where 'a = nat] by simp
  then show ?thesis by (simp add: codec_def enc_w8_def dec_w8_def bytes_value_low)
qed

definition enc_bool :: "bool \<Rightarrow> string" where
  "enc_bool b = [if b then CHR ''1'' else CHR ''0'']"

fun dec_bool :: "string \<Rightarrow> (bool \<times> string) option" where
  "dec_bool [] = None"
| "dec_bool (c # cs) = Some (c = CHR ''1'', cs)"

lemma codec_bool: "codec enc_bool dec_bool"
  by (simp add: codec_def enc_bool_def)

definition enc_wentry :: "pb_entry \<Rightarrow> string" where
  "enc_wentry = enc_via (\<lambda>e. (pe_index e, pe_term e, pe_command e)) (enc_pair enc_w8 (enc_pair enc_w8 enc_string))"

definition dec_wentry :: "string \<Rightarrow> (pb_entry \<times> string) option" where
  "dec_wentry = dec_via (\<lambda>(i, t, c). \<lparr>pe_index = i, pe_term = t, pe_command = c\<rparr>) (dec_pair dec_w8 (dec_pair dec_w8 dec_string))"

lemma codec_wentry: "codec enc_wentry dec_wentry"
  unfolding enc_wentry_def dec_wentry_def by (rule codec_via) (simp_all add: codecs codec_w8)

fun enc_raft :: "raft_message \<Rightarrow> string" where
  "enc_raft (PbAppendEntriesArg l t p q c es) =
     enc_pair enc_string (enc_pair enc_w8 (enc_pair enc_w8 (enc_pair enc_w8 (enc_pair enc_w8 (enc_list enc_wentry))))) (l, t, p, q, c, es)"
| "enc_raft (PbAppendEntriesReply s t c i) = enc_pair enc_bool (enc_pair enc_w8 (enc_pair enc_w8 enc_w8)) (s, t, c, i)"
| "enc_raft (PbRequestVoteArg c t i l) = enc_pair enc_string (enc_pair enc_w8 (enc_pair enc_w8 enc_w8)) (c, t, i, l)"
| "enc_raft (PbRequestVoteReply g t) = enc_pair enc_bool enc_w8 (g, t)"
| "enc_raft (PbInstallSnapshotArg l t i j d) =
     enc_pair enc_string (enc_pair enc_w8 (enc_pair enc_w8 (enc_pair enc_w8 enc_string))) (l, t, i, j, d)"
| "enc_raft (PbInstallSnapshotReply s t) = enc_pair enc_bool enc_w8 (s, t)"

fun dec_raft :: "raft_type \<Rightarrow> string \<Rightarrow> raft_message option" where
  "dec_raft T_AppendEntriesArg s = map_option (\<lambda>(l, t, p, q, c, es). PbAppendEntriesArg l t p q c es)
     (whole (dec_pair dec_string (dec_pair dec_w8 (dec_pair dec_w8 (dec_pair dec_w8 (dec_pair dec_w8 (dec_list dec_wentry)))))) s)"
| "dec_raft T_AppendEntriesReply s = map_option (\<lambda>(s, t, c, i). PbAppendEntriesReply s t c i)
     (whole (dec_pair dec_bool (dec_pair dec_w8 (dec_pair dec_w8 dec_w8))) s)"
| "dec_raft T_RequestVoteArg s = map_option (\<lambda>(c, t, i, l). PbRequestVoteArg c t i l)
     (whole (dec_pair dec_string (dec_pair dec_w8 (dec_pair dec_w8 dec_w8))) s)"
| "dec_raft T_RequestVoteReply s = map_option (\<lambda>(g, t). PbRequestVoteReply g t) (whole (dec_pair dec_bool dec_w8) s)"
| "dec_raft T_InstallSnapshotArg s = map_option (\<lambda>(l, t, i, j, d). PbInstallSnapshotArg l t i j d)
     (whole (dec_pair dec_string (dec_pair dec_w8 (dec_pair dec_w8 (dec_pair dec_w8 dec_string)))) s)"
| "dec_raft T_InstallSnapshotReply s = map_option (\<lambda>(b, t). PbInstallSnapshotReply b t) (whole (dec_pair dec_bool dec_w8) s)"

lemma dec_raft_enc: "dec_raft (message_type m) (enc_raft m) = Some m"
  by (cases m) (simp_all add: whole_roundtrip codecs codec_w8 codec_bool codec_wentry)

lemma dec_raft_type: "dec_raft T b = Some m \<Longrightarrow> message_type m = T"
  by (cases T) auto

definition fixed_codec :: raft_codec where
  "fixed_codec = \<lparr>rc_ser = (\<lambda>m. Some (enc_raft m)), rc_parse = dec_raft,
     rc_read = (\<lambda>T b. case dec_raft T b of Some m \<Rightarrow> m | None \<Rightarrow> zero_reply T)\<rparr>"

lemma fixed_codec_ok: "raft_codec_ok fixed_codec"
proof -
  have "is_reply m \<longrightarrow> length (enc_raft m) \<le> 64" for m
    by (cases m) (simp_all add: is_reply_def enc_pair_def enc_bool_def enc_w8_def)
  moreover have "sender m \<noteq> [] \<longrightarrow> enc_raft m \<noteq> []" for m
    by (cases m) (simp_all add: enc_pair_def enc_list_def)
  ultimately show ?thesis by (auto simp: raft_codec_ok_def fixed_codec_def dec_raft_enc dest: dec_raft_type)
qed

section \<open>The properties\<close>

text \<open>
  C23: the way through Go is transparent. When the network delivers a call and its reply, the
  peer's Raft server takes exactly the step of its handler, and the caller reads exactly the
  handler's reply: for votes, for entries as they are read back from the wire, and for
  snapshots. No buffer on the way is too small for a reply.
\<close>

theorem go_peer_calls:
  assumes K: "raft_codec_ok K" and "rv_candidateId v \<noteq> []" and "is_leaderId i \<noteq> []" and "ae_leaderId a \<noteq> []"
    and wire: "\<forall>e \<in> set (log_data (ae_entries a)). command_wire ser parse (le_command e)"
    and q: "AppendEntriesArg_message ser a = Inr q"
  shows "(\<exists>b. go_invoke_callback K Delivered (go_method K (handle_request_vote K t1 t2)) ''Raft.RequestVote''
          (the (rc_ser K (RequestVoteArg_message v))) 64 (Some h) =
            Inr (Some b, Some (h\<lparr>rh_raft := snd (requestVoteHandler t1 t2 v (rh_raft h))\<rparr>)) \<and>
        rc_read K T_RequestVoteReply b = RequestVoteReply_message (fst (requestVoteHandler t1 t2 v (rh_raft h)))) \<and>
    (\<exists>b. go_invoke_callback K Delivered (go_method K (handle_append_entries K parse junk t1 t2)) ''Raft.AppendEntries''
          (the (rc_ser K q)) 64 (Some h) =
            Inr (Some b, Some (h\<lparr>rh_raft := snd (snd (appendEntriesHandler junk t1 t2 (on_wire a) (rh_raft h)))\<rparr>)) \<and>
        rc_read K T_AppendEntriesReply b =
          AppendEntriesReply_message (fst (appendEntriesHandler junk t1 t2 (on_wire a) (rh_raft h)))) \<and>
    (\<exists>b. go_invoke_callback K Delivered (go_method K (handle_install_snapshot K t1 t2)) ''Raft.InstallSnapshot''
          (the (rc_ser K (InstallSnapshotArg_message i))) 65536 (Some h) =
            Inr (Some b, Some (h\<lparr>rh_raft := snd (installSnapshotHandler t1 t2 i (rh_raft h))\<rparr>)) \<and>
        rc_read K T_InstallSnapshotReply b =
          InstallSnapshotReply_message (fst (installSnapshotHandler t1 t2 i (rh_raft h))))"
  unfolding go_invoke_callback_def
  using vote_delivered [OF K assms(2), of t1 t2 h] append_delivered [OF K assms(4) wire q, of junk t1 t2 h]
    snapshot_delivered [OF K assms(3), of t1 t2 h]
  by (auto dest: raft_codec_read [OF K])

text \<open>A server in a handle, for the witnesses.\<close>

definition sample_handle :: RaftHandle where
  "sample_handle = \<lparr>rh_id = 1, rh_servers = 2, rh_selfId = ''b'', rh_peers = [''a'', ''b''], rh_policy = sample_policy,
     rh_callback = 0, rh_channelCallback = 0, rh_peerIds = [(''a'', 0), (''b'', 1)], rh_clients = [], rh_raft = idle\<rparr>"

theorem go_peer_calls_witness:
  "\<exists>b. go_invoke_callback fixed_codec Delivered (go_method fixed_codec (handle_request_vote fixed_codec 0 0)) ''Raft.RequestVote''
      (the (rc_ser fixed_codec (RequestVoteArg_message (mk_RequestVoteArg ''a'' 1 0 0)))) 64 (Some sample_handle) =
        Inr (Some b, Some (sample_handle\<lparr>rh_raft := snd (requestVoteHandler 0 0 (mk_RequestVoteArg ''a'' 1 0 0) idle)\<rparr>)) \<and>
    rc_read fixed_codec T_RequestVoteReply b =
      RequestVoteReply_message (fst (requestVoteHandler 0 0 (mk_RequestVoteArg ''a'' 1 0 0) idle))"
proof -
  have w: "\<forall>e \<in> set (log_data (ae_entries sample_arg)). command_wire (\<lambda>m. Some (enc_command m)) (whole dec_command) (le_command e)"
    by (simp add: command_wire_def whole_roundtrip [OF codec_command] sample_arg_def
        mk_AppendEntriesArg_def log_data_def log_of_def getUUID_def Get_new_def fresh_hdr_def zero_uuid_def)
  from AppendEntriesArg_sent [OF w] obtain q where q: "AppendEntriesArg_message (\<lambda>m. Some (enc_command m)) sample_arg = Inr q" by blast
  have ids: "rv_candidateId (mk_RequestVoteArg ''a'' 1 0 0) \<noteq> []" "is_leaderId (mk_InstallSnapshotArg ''a'' 1 0 0 []) \<noteq> []"
    "ae_leaderId sample_arg \<noteq> []"
    by (simp_all add: mk_RequestVoteArg_def mk_InstallSnapshotArg_def sample_arg_def mk_AppendEntriesArg_def)
  from go_peer_calls [OF fixed_codec_ok ids w q, of 0 0 sample_handle "(0, 0)"] show ?thesis
    by (simp add: sample_handle_def)
qed

text \<open>
  A call through Go returns. It makes at most as many remote calls as the failure
  threshold, and a reply is what was read from the bytes of the last one. A name that is not one
  of the three calls throws.
\<close>

theorem go_call_returns:
  assumes "breaker_ok (grc_breaker c)" and "\<And>n v. 0 \<le> v \<Longrightarrow> 0 \<le> env_draw E n v \<and> env_draw E n v \<le> v"
  shows "case go_function name of
      None \<Rightarrow> GoRPCClient_call K E cb name q c w = Inl (InvalidArgument (''Unknown function '' @ name))
    | Some (f, len) \<Rightarrow> \<exists>r c' w'. GoRPCClient_call K E cb name q c w = Inr (r, c', w') \<and> breaker_ok (grc_breaker c') \<and>
        w_rpcs w' \<le> w_rpcs w + nat (max 1 (failureThreshold (cb_policy (grc_breaker c)))) \<and>
        (case r of
           None \<Rightarrow> True
         | Some m \<Rightarrow> w_rpcs w < w_rpcs w' \<and>
             (\<exists>b R. cb f len (w_rpcs w' - 1) = Some b \<and> map_to (message_type q) = Some R \<and> m = rc_read K R b))"
proof (cases "go_function name")
  case (Some fl)
  then obtain f len where f: "go_function name = Some (f, len)" by (cases fl) auto
  let ?E = "go_env E (cb f len)"
  have fair: "fair_draws ?E" using assms(2) by (simp add: fair_draws_def go_env_def)
  from breaker_call_returns [OF assms(1) fair, of f w] obtain ss b' w' where
    r: "breaker_call ?E f (grc_breaker c) w = Inr (ss, b', w')" "breaker_ok b'"
      "ss = [breaker_open_status] \<and> w_rpcs w' = w_rpcs w \<or> report_of ?E f (w_rpcs w) (w_rpcs w') ss"
      "w_rpcs w' \<le> w_rpcs w + nat (max 1 (failureThreshold (cb_policy (grc_breaker c))))"
    unfolding breaker_returns_def by blast
  have ne: "ss \<noteq> []" using r(3) by (auto simp: report_of_def)
  have last: "w_rpcs w < w_rpcs w'" if "status_ok (last ss)"
    using r(3) report_ok_last [of ?E f "w_rpcs w" "w_rpcs w'" ss] that
    by (auto simp: breaker_open_status_def mk_Status_def status_ok_def)
  from f r(1,2,4) ne last show ?thesis
    by (cases "status_ok (last ss)"; cases "cb f len (w_rpcs w' - 1)"; cases "map_to (message_type q)")
      (auto simp: GoRPCClient_call_def)
qed (simp add: GoRPCClient_call_def)

theorem go_call_returns_witness:
  "\<exists>r c' w'. GoRPCClient_call fixed_codec (calm_env (\<lambda>_. Status_OK)) (\<lambda>_ _ _. Some (enc_raft (PbRequestVoteReply True 1)))
      ''requestVote'' (PbRequestVoteArg ''a'' 1 0 0) (GoRPCClient_new 1 sample_policy 0) world_init = Inr (r, c', w') \<and> w_rpcs w' \<le> 3"
proof -
  have b: "breaker_ok (grc_breaker (GoRPCClient_new 1 sample_policy 0))"
    by (simp add: GoRPCClient_new_def breaker_ok_new policy_ok_def sample_policy_def)
  from go_call_returns [OF b, where E = "calm_env (\<lambda>_. Status_OK)" and name = "''requestVote''" and K = fixed_codec
      and cb = "\<lambda>_ _ _. Some (enc_raft (PbRequestVoteReply True 1))" and q = "PbRequestVoteArg ''a'' 1 0 0" and w = world_init]
  show ?thesis
    by (auto simp: go_function_def calm_env_def GoRPCClient_new_def mk_CircuitBreaker_def sample_policy_def world_init_def)
qed

section \<open>The names of the servers\<close>

lemma digits_value_snoc: "digits_value (ds @ [c]) = 10 * digits_value ds + (int (of_char c) - 48)"
  by (simp add: digits_value_def)

lemma digits_value_to_string: "digits_value (to_string_nat n) = int n"
proof (induction n rule: to_string_nat.induct)
  case (1 n)
  have d: "int (of_char (char_of (48 + m) :: char)) - 48 = int m" if "m < 10" for m :: nat
    using that by (simp add: of_char_of)
  show ?case
  proof (cases "n < 10")
    case True
    then show ?thesis using d [of n] by (subst to_string_nat.simps) (simp add: digits_value_def)
  next
    case False
    have "10 * int (n div 10) + int (n mod 10) = int n" by presburger
    then show ?thesis using False 1 d [of "n mod 10"]
      by (subst to_string_nat.simps) (simp add: digits_value_snoc)
  qed
qed

lemma peer_name_inj:
  assumes "0 \<le> i" and "0 \<le> j"
  shows "peer_name i = peer_name j \<longleftrightarrow> i = j"
proof
  assume "peer_name i = peer_name j"
  then have "to_string_nat (nat i) = to_string_nat (nat j)" using assms by (simp add: peer_name_def itoa_def)
  then have "int (nat i) = int (nat j)" by (metis digits_value_to_string)
  with assms show "i = j" by simp
qed simp

lemma fold_add_peer:
  assumes "\<forall>i \<in> set xs. 0 \<le> i"
  shows "fst (fold add_peer xs pm) = fst pm @ map peer_name xs \<and>
    (\<forall>i. 0 \<le> i \<longrightarrow> map_of (snd (fold add_peer xs pm)) (peer_name i) = (if i \<in> set xs then Some i else map_of (snd pm) (peer_name i)))"
  using assms
proof (induction xs arbitrary: pm)
  case (Cons x xs)
  then show ?case by (auto simp: add_peer_def peer_name_inj)
qed simp

lemma make_clients_all:
  assumes "\<forall>a \<in> set as. map_of ids a \<noteq> None"
  shows "\<exists>cs'. make_clients ids p cb as cs = Inr cs' \<and>
    (\<forall>a. map_of cs' a = (if a \<in> set as then Some (GoRPCClient_new (the (map_of ids a)) p cb) else map_of cs a))"
  using assms
proof (induction as arbitrary: cs)
  case (Cons a as)
  then obtain i where i: "map_of ids a = Some i" by auto
  from Cons.IH [of "AList.update a (GoRPCClient_new i p cb) cs"] Cons.prems obtain cs' where
    "make_clients ids p cb as (AList.update a (GoRPCClient_new i p cb) cs) = Inr cs'"
    "\<forall>b. map_of cs' b = (if b \<in> set as then Some (GoRPCClient_new (the (map_of ids b)) p cb)
       else map_of (AList.update a (GoRPCClient_new i p cb) cs) b)" by auto
  with i show ?case by (auto simp: make_client_def)
qed simp

text \<open>
  A server under the Go tests is connected to all the others. Creating server \<open>pid\<close> of
  \<open>servers\<close> succeeds when its state can be loaded. Its peers are the other servers, under
  pairwise different names, and the client for each of them calls that server.
\<close>

theorem create_raft_connects:
  assumes "0 \<le> pid" and "pid < servers" and "load sv = Inr ps"
  shows "\<exists>h. create_raft load pid servers cb channelCb now sv = Inr h \<and> distinct (rh_peers h) \<and> length (rh_peers h) = nat servers \<and>
    peers (rh_raft h) = filter (\<lambda>a. a \<noteq> peer_name pid) (rh_peers h) \<and> length (peers (rh_raft h)) = nat servers - 1 \<and>
    (\<forall>i \<in> {0..<servers}. map_option grc_peerId (map_of (rh_clients h) (peer_name i)) = (if i = pid then None else Some i))"
proof -
  let ?xs = "[0..servers - 1]" and ?self = "peer_name pid"
  obtain q ids where q: "fold add_peer ?xs ([], []) = (q, ids)" by (cases "fold add_peer ?xs ([], [])")
  from fold_add_peer [of ?xs "([], [])"] q have
    ps: "q = map peer_name ?xs" and ids: "\<And>i. 0 \<le> i \<Longrightarrow> map_of ids (peer_name i) = (if i < servers then Some i else None)"
    by auto
  have dist: "distinct q" unfolding ps by (auto simp: distinct_map inj_on_def peer_name_inj)
  obtain pol where pol: "mk_RetryPolicy 2000 50000 60000 10 1 4 4 = Inr pol" by (simp add: mk_RetryPolicy_def)
  let ?others = "filter (\<lambda>a. a \<noteq> ?self) q"
  from assms(3) obtain s where s: "RaftImpl_new load q ?self pol now sv = Inr s" "peers s = ?others"
    using dist by (simp add: RaftImpl_new_def Let_def distinct_remdups_id)
  have "\<forall>a \<in> set ?others. map_of ids a \<noteq> None" unfolding ps using ids by auto
  from make_clients_all [OF this, of pol cb "[]"] obtain cs where cs: "make_clients ids pol cb ?others [] = Inr cs"
    "\<And>a. map_of cs a = (if a \<in> set ?others then Some (GoRPCClient_new (the (map_of ids a)) pol cb) else None)" by auto
  have clients: "map_option grc_peerId (map_of cs (peer_name i)) = (if i = pid then None else Some i)" if "i \<in> {0..<servers}" for i
  proof -
    have i: "0 \<le> i" "i < servers" "i \<in> set ?xs" using that by simp_all
    then have "peer_name i \<in> set ?others \<longleftrightarrow> i \<noteq> pid" unfolding ps using peer_name_inj [OF i(1) assms(1)] by simp
    with ids [OF i(1)] i(2) show ?thesis by (simp only: cs(2)) (simp add: GoRPCClient_new_def)
  qed
  have "length (filter (\<lambda>a. a = ?self) q) = 1"
    using distinct_length_filter [OF dist, of "\<lambda>a. a = ?self"] assms(1,2) by (auto simp: ps peer_name_inj)
  then have len: "length ?others = nat servers - 1" using sum_length_filter_compl [of "\<lambda>a. a = ?self" q] by (simp add: ps)
  let ?h = "\<lparr>rh_id = pid, rh_servers = servers, rh_selfId = ?self, rh_peers = q, rh_policy = pol,
    rh_callback = cb, rh_channelCallback = channelCb, rh_peerIds = ids, rh_clients = cs, rh_raft = s\<rparr>"
  have "create_raft load pid servers cb channelCb now sv = Inr ?h" by (simp only: create_raft_def q prod.case Let_def pol bind_outcome.simps s(1) cs(1))
  moreover have "length (rh_peers ?h) = nat servers" unfolding ps by simp
  ultimately show ?thesis
    by (intro exI [of _ ?h] conjI ballI) (simp_all only: RaftHandle.simps dist s(2) len clients)
qed

theorem create_raft_connects_witness:
  "\<exists>h. create_raft (\<lambda>_. Inr PersistentState_default) 1 3 7 8 0 None = Inr h \<and> length (peers (rh_raft h)) = 2"
proof -
  from create_raft_connects [of 1 3 "\<lambda>_. Inr PersistentState_default" None PersistentState_default 7 8 0] obtain h where
    "create_raft (\<lambda>_. Inr PersistentState_default) 1 3 7 8 0 None = Inr h" "length (peers (rh_raft h)) = nat 3 - 1"
    by (simp only: zero_le_one, simp) blast
  then show ?thesis by simp
qed

end
