(* ===== verification/GoApi.thy ===== *)
theory GoApi
  imports GoRpc
begin

text \<open>
  The objects the Go tests hold (\<open>src/goRaft/cgo_raft.go\<close>, \<open>src/goRaft/cgo_rsm.go\<close>): a Raft
  server and a replicated state machine, with the table of callbacks
  (\<open>src/goRaft/cgo_callbacks.go\<close>) and the C++ objects behind their handles. Handles are shared
  between the two objects, so that the C++ objects live in an explicit store; using one that was
  deleted is the outcome \<open>UseAfterFree\<close>.
\<close>

section \<open>The table of callbacks\<close>

text \<open>
  What C++ holds a number for: a closure over the ends of the network and the address of a flag, a
  persister, a state machine or a channel. Go objects other than the closure are their identities.
\<close>

datatype 'e callback =
    LabRpcFn "'e list" nat
  | CbPersister nat
  | CbStateMachine nat
  | CbChannel nat

record 'e cb_table =
  cbStore :: "(u64, 'e callback) umap"
  cbCounter :: u64

definition newHandle :: "'e callback \<Rightarrow> 'e cb_table \<Rightarrow> u64 \<times> 'e cb_table" where
  "newHandle cb t =
     (let h = cbCounter t + 1 in (h, t\<lparr>cbCounter := h, cbStore := AList.update h cb (cbStore t)\<rparr>))"

definition getCallback :: "u64 \<Rightarrow> 'e cb_table \<Rightarrow> 'e callback option" where
  "getCallback h t = map_of (cbStore t) h"

definition deleteHandle :: "u64 \<Rightarrow> 'e cb_table \<Rightarrow> 'e cb_table" where
  "deleteHandle h t = t\<lparr>cbStore := AList.delete h (cbStore t)\<rparr>"

definition registerLabRpcCallback :: "'e list \<Rightarrow> nat \<Rightarrow> 'e cb_table \<Rightarrow> u64 \<times> 'e cb_table" where
  "registerLabRpcCallback ends dead = newHandle (LabRpcFn ends dead)"

definition registerPersister :: "nat \<Rightarrow> 'e cb_table \<Rightarrow> u64 \<times> 'e cb_table" where
  "registerPersister pst = newHandle (CbPersister pst)"

definition registerStateMachine :: "nat \<Rightarrow> 'e cb_table \<Rightarrow> u64 \<times> 'e cb_table" where
  "registerStateMachine machine = newHandle (CbStateMachine machine)"

definition registerChannel :: "nat \<Rightarrow> 'e cb_table \<Rightarrow> u64 \<times> 'e cb_table" where
  "registerChannel applyCh = newHandle (CbChannel applyCh)"

definition freeCallback :: "u64 \<Rightarrow> 'e cb_table \<Rightarrow> 'e cb_table" where
  "freeCallback = deleteHandle"

text \<open>
  The body of the closure: \<open>call\<close> is the method \<open>Call\<close> of an end, \<open>dead\<close> what the flag holds. An
  index out of range panics.
\<close>

definition labRpcFn :: "('e \<Rightarrow> 'w \<Rightarrow> bool \<times> 'w) \<Rightarrow> int \<Rightarrow> 'e list \<Rightarrow> int \<Rightarrow> 'w \<Rightarrow> (int \<times> 'w) outcome" where
  "labRpcFn call dead ends p w =
     (if dead = 1 then Inr (1, w)
      else if p < 0 \<or> int (length ends) \<le> p then Inl OutOfRange
      else case call (ends ! nat p) w of (ok, w') \<Rightarrow> Inr (if ok then 0 else 1, w'))"

text \<open>
  Closing the apply channel: a handle that was freed is reported, one of another kind and a
  channel that is closed already panic. \<open>closed\<close> says which channels are.
\<close>

definition CloseApplyCh :: "u64 \<Rightarrow> 'e cb_table \<Rightarrow> (nat \<Rightarrow> bool) \<Rightarrow> (nat \<Rightarrow> bool) outcome" where
  "CloseApplyCh h t closed =
     (case getCallback h t of
        None \<Rightarrow> Inr closed
      | Some (CbChannel c) \<Rightarrow> if closed c then Inl (RuntimeError ''close of closed channel'') else Inr (closed(c := True))
      | Some _ \<Rightarrow> Inl (RuntimeError ''interface conversion''))"

section \<open>The objects\<close>

text \<open>The C++ part of a replicated state machine, without its Raft server, which has an address of its own.\<close>

record rsm_object =
  ro_id :: int
  ro_servers :: int
  ro_maxraftstate :: int
  ro_raftHandle :: nat
  ro_pending :: pending_requests

text \<open>
  \<open>rafts\<close> and \<open>rsms\<close> hold the C++ objects that have not been deleted, \<open>flags\<close> the fields \<open>dead\<close>
  of the Go objects, and \<open>unused\<close> is an address above all that are in use.
\<close>

record 'e go_world =
  table :: "'e cb_table"
  rafts :: "nat \<rightharpoonup> RaftHandle"
  rsms :: "nat \<rightharpoonup> rsm_object"
  flags :: "nat \<Rightarrow> int"
  unused :: nat

record 'e go_raft =
  rf_handle :: "nat option"
  rf_peers :: "'e list"
  rf_me :: int
  rf_dead :: nat
  rf_persister :: nat
  rf_applyCh :: nat
  rf_cb :: u64
  rf_channelCb :: u64
  rf_persisterCB :: u64
  rf_rsmHandle :: "nat option"

record 'e go_rsm =
  rsm_me :: int
  rsm_rf :: "'e go_raft"
  rsm_applyCh :: nat
  rsm_maxraftstate :: int
  rsm_sm :: nat
  rsm_handle_ptr :: "nat option"
  rsm_rpcCb :: u64
  rsm_channelCb :: u64
  rsm_persisterCb :: u64
  rsm_smCb :: u64
  rsm_dead :: nat

section \<open>A Raft server\<close>

text \<open>A C function that gets a pointer to a server.\<close>

definition deref :: "nat option \<Rightarrow> 'e go_world \<Rightarrow> RaftHandle option outcome" where
  "deref p w = (case p of
      None \<Rightarrow> Inr None
    | Some a \<Rightarrow> (case rafts w a of None \<Rightarrow> Inl UseAfterFree | Some h \<Rightarrow> Inr (Some h)))"

definition delete_raft :: "nat \<Rightarrow> 'e go_world \<Rightarrow> 'e go_world outcome" where
  "delete_raft a w = (case rafts w a of
      None \<Rightarrow> Inl UseAfterFree
    | Some h \<Rightarrow> Inr (w\<lparr>rafts := (rafts w)(a := None)\<rparr>))"

definition delete_rsm :: "nat \<Rightarrow> 'e go_world \<Rightarrow> 'e go_world outcome" where
  "delete_rsm b w = (case rsms w b of
      None \<Rightarrow> Inl UseAfterFree
    | Some x \<Rightarrow> delete_raft (ro_raftHandle x) (w\<lparr>rsms := (rsms w)(b := None)\<rparr>))"

definition free_all :: "u64 list \<Rightarrow> 'e go_world \<Rightarrow> 'e go_world" where
  "free_all hs w = w\<lparr>table := fold freeCallback hs (table w)\<rparr>"

text \<open>
  \<open>create_raft\<close> never returns a null pointer: what fails in it throws through Go and ends the
  process. \<open>now\<close> and \<open>sv\<close> are the clock and what the persister holds.
\<close>

definition Make :: "stable_load \<Rightarrow> int \<Rightarrow> PersistentState option \<Rightarrow> 'e list \<Rightarrow> int \<Rightarrow> nat \<Rightarrow> nat \<Rightarrow> 'e go_world
    \<Rightarrow> ('e go_raft \<times> 'e go_world) outcome" where
  "Make load now sv ends me pst applyCh w =
     (let dead = unused w; a = unused w + 1;
          (ch, t1) = registerChannel applyCh (table w);
          (cb, t2) = registerLabRpcCallback ends dead t1;
          (pcb, t3) = registerPersister pst t2
      in bind_outcome (create_raft load me (int (length ends)) cb ch now sv) (\<lambda>h.
        Inr (\<lparr>rf_handle = Some a, rf_peers = ends, rf_me = me, rf_dead = dead, rf_persister = pst,
              rf_applyCh = applyCh, rf_cb = cb, rf_channelCb = ch, rf_persisterCB = pcb, rf_rsmHandle = None\<rparr>,
             w\<lparr>table := t3, rafts := (rafts w)(a \<mapsto> h), flags := (flags w)(dead := 0), unused := a + 1\<rparr>)))"

definition GetState :: "'e go_raft \<Rightarrow> 'e go_world \<Rightarrow> (int \<times> bool) outcome" where
  "GetState rf w =
     (if rf_handle rf = None then Inr (0, False)
      else bind_outcome (deref (rf_handle rf) w) (\<lambda>h.
        case raft_get_state h of
          None \<Rightarrow> Inr (0, False)
        | Some (term, isleader) \<Rightarrow> Inr (term, isleader = 1)))"

text \<open>The verb \<open>%v\<close> for the commands of the tests; bytes are printed as decimals between blanks.\<close>

fun spaced :: "string list \<Rightarrow> string" where
  "spaced [] = []"
| "spaced [s] = s"
| "spaced (s # t # ss) = s @ '' '' @ spaced (t # ss)"

fun sprint :: "go_command \<Rightarrow> string" where
  "sprint (GoString s) = s"
| "sprint (GoInt i) = itoa i"
| "sprint (GoBytes b) = ''['' @ spaced (map (\<lambda>c. to_string_nat (of_char c)) b) @ '']''"

text \<open>C stores four bytes at an address, whatever the Go variable there is; a Go integer has eight.\<close>

definition store_c_int :: "int \<Rightarrow> string \<Rightarrow> string" where
  "store_c_int v m = low_bytes 4 (nat (v mod 2 ^ 32)) @ drop 4 m"

definition go_int :: "string \<Rightarrow> int" where
  "go_int m = int (bytes_value m)"

text \<open>
  \<open>after\<close> are the bytes that follow the variable \<open>isLeader\<close>, which has one byte; the result gives
  them as the call leaves them.
\<close>

definition Start :: "uuid \<Rightarrow> go_command \<Rightarrow> string \<Rightarrow> 'e go_raft \<Rightarrow> 'e go_world
    \<Rightarrow> ((int \<times> int \<times> bool) \<times> string \<times> 'e go_world) outcome" where
  "Start u command after rf w =
     (case rf_handle rf of
        None \<Rightarrow> Inr ((0, 0, False), after, w)
      | Some a \<Rightarrow> bind_outcome (deref (Some a) w) (\<lambda>h.
          case raft_start u h (sprint command) of
            (None, h') \<Rightarrow> Inr ((0, 0, False), after, w)
          | (Some (i, t, l), h') \<Rightarrow>
              let int0 = replicate 8 (CHR 0x00); isLeader = store_c_int l (CHR 0x00 # after)
              in Inr ((go_int (store_c_int i int0), go_int (store_c_int t int0), hd isLeader \<noteq> CHR 0x00),
                      tl isLeader, w\<lparr>rafts := (rafts w)(a := h')\<rparr>)))"

definition Raft_Kill :: "'e go_raft \<Rightarrow> 'e go_world \<Rightarrow> ('e go_raft \<times> 'e go_world) outcome" where
  "Raft_Kill rf w =
     (let w1 = w\<lparr>flags := (flags w)(rf_dead rf := 1)\<rparr> in
      case rf_handle rf of
        None \<Rightarrow> Inr (rf, w1)
      | Some a \<Rightarrow> bind_outcome (case rf_rsmHandle rf of Some b \<Rightarrow> delete_rsm b w1 | None \<Rightarrow> delete_raft a w1) (\<lambda>w2.
          Inr (rf\<lparr>rf_handle := None\<rparr>, free_all [rf_cb rf, rf_channelCb rf, rf_persisterCB rf] w2)))"

definition Snapshot :: "int \<Rightarrow> string \<Rightarrow> 'e go_raft \<Rightarrow> 'e go_world \<Rightarrow> 'e go_world outcome" where
  "Snapshot index sd rf w =
     (case rf_handle rf of
        None \<Rightarrow> Inr w
      | Some a \<Rightarrow>
          if sd = [] then Inr w
          else bind_outcome (deref (Some a) w) (\<lambda>h.
            bind_outcome (raft_snapshot_c h (of_int index) sd) (\<lambda>h'. Inr (w\<lparr>rafts := (rafts w)(a := h')\<rparr>))))"

definition PersistBytes :: "(nat \<Rightarrow> tester_persister) \<Rightarrow> 'e go_raft \<Rightarrow> int" where
  "PersistBytes store rf = int (length (raftstate (store (rf_persister rf))))"

section \<open>A replicated state machine\<close>

text \<open>
  \<open>create_rsm\<close> makes two C++ objects; the Go Raft object made here points to both and has a flag
  of its own. \<open>applyCh\<close> is the channel that was made, \<open>sm\<close> the machine.
\<close>

definition MakeRSM :: "stable_load \<Rightarrow> int \<Rightarrow> PersistentState option \<Rightarrow> 'e list \<Rightarrow> int \<Rightarrow> nat \<Rightarrow> int \<Rightarrow> nat \<Rightarrow> nat
    \<Rightarrow> 'e go_world \<Rightarrow> ('e go_rsm \<times> 'e go_world) outcome" where
  "MakeRSM load now sv servers me pst maxraftstate sm applyCh w =
     (let dead = unused w; a = unused w + 1; b = unused w + 2; rdead = unused w + 3;
          (rpc, t1) = registerLabRpcCallback servers dead (table w);
          (ch, t2) = registerChannel applyCh t1;
          (pcb, t3) = registerPersister pst t2;
          (smCb, t4) = registerStateMachine sm t3
      in bind_outcome (create_rsm load me (int (length servers)) rpc ch maxraftstate now sv) (\<lambda>h.
        let rf = \<lparr>rf_handle = Some a, rf_peers = servers, rf_me = me, rf_dead = rdead, rf_persister = pst,
              rf_applyCh = applyCh, rf_cb = rpc, rf_channelCb = ch, rf_persisterCB = pcb, rf_rsmHandle = Some b\<rparr>;
            x = \<lparr>ro_id = rsmh_id h, ro_servers = rsmh_servers h, ro_maxraftstate = rsmh_maxraftstate h,
              ro_raftHandle = a, ro_pending = rsmh_pending h\<rparr>
        in Inr (\<lparr>rsm_me = me, rsm_rf = rf, rsm_applyCh = applyCh, rsm_maxraftstate = maxraftstate, rsm_sm = sm,
              rsm_handle_ptr = Some b, rsm_rpcCb = rpc, rsm_channelCb = ch, rsm_persisterCb = pcb, rsm_smCb = smCb,
              rsm_dead = dead\<rparr>,
             w\<lparr>table := t4, rafts := (rafts w)(a \<mapsto> rsmh_raftHandle h), rsms := (rsms w)(b \<mapsto> x),
               flags := (flags w)(dead := 0, rdead := 0), unused := rdead + 1\<rparr>)))"

definition RSM_Raft :: "'e go_rsm \<Rightarrow> 'e go_raft" where
  "RSM_Raft rsm = rsm_rf rsm"

definition RSM_Kill :: "'e go_rsm \<Rightarrow> 'e go_world \<Rightarrow> ('e go_rsm \<times> 'e go_world) outcome" where
  "RSM_Kill rsm w =
     (case rsm_handle_ptr rsm of
        None \<Rightarrow> Inr (rsm, w)
      | Some b \<Rightarrow> bind_outcome (delete_rsm b w) (\<lambda>w1.
          Inr (rsm\<lparr>rsm_handle_ptr := None\<rparr>,
               free_all [rsm_rpcCb rsm, rsm_channelCb rsm, rsm_persisterCb rsm, rsm_smCb rsm] w1)))"

text \<open>
  \<open>Submit\<close> hands its pointer to \<open>rsm_submit\<close>, which reads the object it points to; the rest of it
  is in \<open>GoApply\<close>. The size -1 is returned for a null pointer only, when the \<open>Kill\<close> that follows
  finds nothing to delete.
\<close>

definition RSM_Submit :: "('q, 'p) go_codec \<Rightarrow> (command \<Rightarrow> 'w \<Rightarrow> (kv_state \<times> 'w) outcome) \<Rightarrow> uuid \<Rightarrow> 'q
    \<Rightarrow> 'e go_rsm \<Rightarrow> 'e go_world \<Rightarrow> 'w \<Rightarrow> ((go_err \<times> 'p option) \<times> 'w) outcome" where
  "RSM_Submit K handle u req rsm w s =
     (case rsm_handle_ptr rsm of
        None \<Rightarrow> Submit K handle False u req s
      | Some b \<Rightarrow>
          if rsms w b = None \<and> gc_ser K (submit_message K u req) \<noteq> None then Inl UseAfterFree
          else Submit K handle True u req s)"

section \<open>Facts\<close>

text \<open>The table never gives out a number twice, until its counter wraps around.\<close>

definition table_ok :: "'e cb_table \<Rightarrow> bool" where
  "table_ok t \<longleftrightarrow> (\<forall>h. getCallback h t \<noteq> None \<longrightarrow> h \<le> cbCounter t)"

definition world_ok :: "'e go_world \<Rightarrow> bool" where
  "world_ok w \<longleftrightarrow> table_ok (table w) \<and> cbCounter (table w) < - 4 \<and>
     (\<forall>a \<ge> unused w. rafts w a = None \<and> rsms w a = None)"

lemma getCallback_new: "getCallback k (snd (newHandle cb t)) = (if k = cbCounter t + 1 then Some cb else getCallback k t)"
  by (simp add: newHandle_def getCallback_def Let_def update_conv')

lemma fst_newHandle: "fst (newHandle cb t) = cbCounter t + 1" "cbCounter (snd (newHandle cb t)) = cbCounter t + 1"
  by (simp_all add: newHandle_def Let_def)

lemma getCallback_free: "getCallback k (freeCallback h t) = (if k = h then None else getCallback k t)"
  by (simp add: freeCallback_def deleteHandle_def getCallback_def delete_conv')

lemma getCallback_fold_free: "getCallback k (fold freeCallback hs t) = (if k \<in> set hs then None else getCallback k t)"
  by (induction hs arbitrary: t) (simp_all add: getCallback_free)

lemma getCallback_free_all: "getCallback k (table (free_all hs w)) = (if k \<in> set hs then None else getCallback k (table w))"
  by (simp add: free_all_def getCallback_fold_free)

lemma free_all_fields [simp]:
  "rafts (free_all hs w) = rafts w" "rsms (free_all hs w) = rsms w" "flags (free_all hs w) = flags w"
  by (simp_all add: free_all_def)

lemmas register_defs = registerLabRpcCallback_def registerPersister_def registerStateMachine_def registerChannel_def

text \<open>The next four numbers are free and different.\<close>

lemma next_handles:
  assumes "world_ok w" and "n = cbCounter (table w)"
  shows "\<And>k. k \<in> {n + 1, n + 2, n + 3, n + 4} \<Longrightarrow> getCallback k (table w) = None"
    and "distinct [n + 1, n + 2, n + 3, n + 4]"
proof -
  have "unat (- 4 :: u64) = 2 ^ 64 - 4" by simp
  then have n: "unat n < 2 ^ 64 - 4" using assms by (simp add: world_ok_def word_less_nat_alt)
  have plus: "unat (n + 1) = unat n + 1" "unat (n + 2) = unat n + 2" "unat (n + 3) = unat n + 3" "unat (n + 4) = unat n + 4"
    using n by (simp_all add: unat_word_ariths)
  show "distinct [n + 1, n + 2, n + 3, n + 4]" using plus by (simp add: word_unat_eq_iff)
  show "getCallback k (table w) = None" if "k \<in> {n + 1, n + 2, n + 3, n + 4}" for k
  proof (rule ccontr)
    assume "getCallback k (table w) \<noteq> None"
    then have "k \<le> n" using assms unfolding world_ok_def table_ok_def by simp
    with that plus show False by (auto simp: word_le_nat_alt)
  qed
qed

lemma Make_ok:
  assumes "0 \<le> me" and "me < int (length ends)" and "load sv = Inr ps"
  obtains h where "create_raft load me (int (length ends)) (cbCounter (table w) + 2) (cbCounter (table w) + 1) now sv = Inr h"
    "Make load now sv ends me pst applyCh w =
      Inr (\<lparr>rf_handle = Some (unused w + 1), rf_peers = ends, rf_me = me, rf_dead = unused w, rf_persister = pst,
              rf_applyCh = applyCh, rf_cb = cbCounter (table w) + 2, rf_channelCb = cbCounter (table w) + 1,
              rf_persisterCB = cbCounter (table w) + 3, rf_rsmHandle = None\<rparr>,
             w\<lparr>table := snd (registerPersister pst (snd (registerLabRpcCallback ends (unused w) (snd (registerChannel applyCh (table w)))))),
               rafts := (rafts w)(unused w + 1 \<mapsto> h), flags := (flags w)(unused w := 0), unused := unused w + 2\<rparr>)"
proof -
  obtain h where h: "create_raft load me (int (length ends)) (cbCounter (table w) + 2) (cbCounter (table w) + 1) now sv = Inr h"
    using create_raft_connects [where load=load and sv=sv, OF assms] by blast
  then show ?thesis
    by (intro that [OF h]) (simp add: Make_def Let_def register_defs split_beta fst_newHandle add.assoc)
qed

section \<open>The properties\<close>

text \<open>
  A Raft server of the Go tests owns what it makes. \<open>Make\<close> returns a server whose callbacks
  are registered; \<open>Kill\<close> deletes the C++ object and frees the callbacks, so that nothing is left
  of the server but its flag, and killing it again does nothing.
\<close>

theorem Make_Kill_restores:
  assumes "world_ok w" and "0 \<le> me" and "me < int (length ends)" and "load sv = Inr ps"
  shows "\<exists>rf w1 rf' w2. Make load now sv ends me pst applyCh w = Inr (rf, w1) \<and>
    getCallback (rf_cb rf) (table w1) = Some (LabRpcFn ends (rf_dead rf)) \<and>
    getCallback (rf_channelCb rf) (table w1) = Some (CbChannel applyCh) \<and>
    getCallback (rf_persisterCB rf) (table w1) = Some (CbPersister pst) \<and> flags w1 (rf_dead rf) = 0 \<and>
    Raft_Kill rf w1 = Inr (rf', w2) \<and> flags w2 (rf_dead rf) = 1 \<and> rafts w2 = rafts w \<and> rsms w2 = rsms w \<and>
    (\<forall>h. getCallback h (table w2) = getCallback h (table w)) \<and> Raft_Kill rf' w2 = Inr (rf', w2)"
proof -
  let ?n = "cbCounter (table w)"
  obtain h where mk: "Make load now sv ends me pst applyCh w =
      Inr (\<lparr>rf_handle = Some (unused w + 1), rf_peers = ends, rf_me = me, rf_dead = unused w, rf_persister = pst,
              rf_applyCh = applyCh, rf_cb = ?n + 2, rf_channelCb = ?n + 1,
              rf_persisterCB = ?n + 3, rf_rsmHandle = None\<rparr>,
             w\<lparr>table := snd (registerPersister pst (snd (registerLabRpcCallback ends (unused w) (snd (registerChannel applyCh (table w)))))),
               rafts := (rafts w)(unused w + 1 \<mapsto> h), flags := (flags w)(unused w := 0), unused := unused w + 2\<rparr>)" (is "_ = Inr (?rf, ?w1)")
    by (rule Make_ok [where w=w and load=load and sv=sv, OF assms(2-4)])
  have free: "rafts w (unused w + 1) = None" using assms(1) by (simp add: world_ok_def)
  have cb: "getCallback k (table ?w1) = (if k = ?n + 3 then Some (CbPersister pst) else if k = ?n + 2 then Some (LabRpcFn ends (unused w))
      else if k = ?n + 1 then Some (CbChannel applyCh) else getCallback k (table w))" for k
    by (simp add: register_defs getCallback_new fst_newHandle add.assoc)
  note nx = next_handles [OF assms(1) refl]
  let ?w2 = "free_all [?n + 2, ?n + 1, ?n + 3] (?w1\<lparr>flags := (flags ?w1)(unused w := 1), rafts := (rafts ?w1)(unused w + 1 := None)\<rparr>)"
  have kill: "Raft_Kill ?rf ?w1 = Inr (?rf\<lparr>rf_handle := None\<rparr>, ?w2)" by (simp add: Raft_Kill_def delete_raft_def Let_def)
  have rest: "getCallback k (table ?w2) = getCallback k (table w)" for k
    unfolding getCallback_free_all using nx(1) [of k] cb [of k] by (auto split: if_splits)
  have again: "Raft_Kill (?rf\<lparr>rf_handle := None\<rparr>) ?w2 = Inr (?rf\<lparr>rf_handle := None\<rparr>, ?w2)"
    by (simp add: Raft_Kill_def Let_def free_all_def)
  have raw: "rafts ?w2 = rafts w" "rsms ?w2 = rsms w" "flags ?w2 (rf_dead ?rf) = 1" "flags ?w1 (rf_dead ?rf) = 0"
    using free by (simp_all add: fun_upd_idem)
  show ?thesis
    by (intro exI conjI, rule mk) (use cb nx(2) kill again raw rest in \<open>auto simp: fun_eq_iff\<close>)
qed

lemma MakeRSM_ok:
  assumes "0 \<le> me" and "me < int (length servers)" and "load sv = Inr ps" and "n = cbCounter (table w)" and "d = unused w"
  obtains rsm w1 h x where "MakeRSM load now sv servers me pst maxraftstate sm applyCh w = Inr (rsm, w1)"
    "rsm_handle_ptr rsm = Some (d + 2)" "rsm_dead rsm = d" "rsm_rpcCb rsm = n + 1" "rsm_channelCb rsm = n + 2"
    "rsm_persisterCb rsm = n + 3" "rsm_smCb rsm = n + 4" "rf_handle (rsm_rf rsm) = Some (d + 1)" "rf_dead (rsm_rf rsm) = d + 3"
    "rf_rsmHandle (rsm_rf rsm) = Some (d + 2)" "rf_cb (rsm_rf rsm) = n + 1" "rf_channelCb (rsm_rf rsm) = n + 2"
    "rf_persisterCB (rsm_rf rsm) = n + 3" "ro_raftHandle x = d + 1"
    "rafts w1 = (rafts w)(d + 1 \<mapsto> h)" "rsms w1 = (rsms w)(d + 2 \<mapsto> x)" "flags w1 = (flags w)(d := 0, d + 3 := 0)"
    "\<And>k. getCallback k (table w1) = (if k = n + 4 then Some (CbStateMachine sm) else if k = n + 3 then Some (CbPersister pst)
      else if k = n + 2 then Some (CbChannel applyCh) else if k = n + 1 then Some (LabRpcFn servers d) else getCallback k (table w))"
proof -
  obtain h where h: "create_raft load me (int (length servers)) (n + 1) (n + 2) now sv = Inr h"
    using create_raft_connects [where load=load and sv=sv, OF assms(1-3)] by blast
  let ?x = "\<lparr>ro_id = me, ro_servers = int (length servers), ro_maxraftstate = maxraftstate, ro_raftHandle = d + 1, ro_pending = pending_new\<rparr>"
  let ?rf = "\<lparr>rf_handle = Some (d + 1), rf_peers = servers, rf_me = me, rf_dead = d + 3, rf_persister = pst,
    rf_applyCh = applyCh, rf_cb = n + 1, rf_channelCb = n + 2, rf_persisterCB = n + 3, rf_rsmHandle = Some (d + 2)\<rparr>"
  let ?rsm = "\<lparr>rsm_me = me, rsm_rf = ?rf, rsm_applyCh = applyCh, rsm_maxraftstate = maxraftstate, rsm_sm = sm,
    rsm_handle_ptr = Some (d + 2), rsm_rpcCb = n + 1, rsm_channelCb = n + 2, rsm_persisterCb = n + 3, rsm_smCb = n + 4, rsm_dead = d\<rparr>"
  let ?t = "snd (registerStateMachine sm (snd (registerPersister pst (snd (registerChannel applyCh
    (snd (registerLabRpcCallback servers d (table w))))))))"
  let ?w1 = "w\<lparr>table := ?t, rafts := (rafts w)(d + 1 \<mapsto> h), rsms := (rsms w)(d + 2 \<mapsto> ?x),
    flags := (flags w)(d := 0, d + 3 := 0), unused := d + 4\<rparr>"
  have "MakeRSM load now sv servers me pst maxraftstate sm applyCh w = Inr (?rsm, ?w1)"
    using h assms(4,5) by (simp add: MakeRSM_def create_rsm_def Let_def register_defs split_beta fst_newHandle add.assoc)
  moreover have "getCallback k ?t = (if k = n + 4 then Some (CbStateMachine sm) else if k = n + 3 then Some (CbPersister pst)
      else if k = n + 2 then Some (CbChannel applyCh) else if k = n + 1 then Some (LabRpcFn servers d) else getCallback k (table w))" for k
    using assms(4) by (simp add: register_defs getCallback_new fst_newHandle add.assoc)
  ultimately show ?thesis by (intro that [of ?rsm ?w1 ?x h]) simp_all
qed

text \<open>
  A replicated state machine that is killed through its own \<open>Kill\<close> leaves neither of its C++
  objects and none of its callbacks, and a request submitted later is refused.
\<close>

theorem MakeRSM_Kill_restores:
  assumes "world_ok w" and "0 \<le> me" and "me < int (length servers)" and "load sv = Inr ps"
  shows "\<exists>rsm w1 rsm' w2. MakeRSM load now sv servers me pst maxraftstate sm applyCh w = Inr (rsm, w1) \<and>
    RSM_Kill rsm w1 = Inr (rsm', w2) \<and> rafts w2 = rafts w \<and> rsms w2 = rsms w \<and>
    (\<forall>h. getCallback h (table w2) = getCallback h (table w)) \<and> RSM_Kill rsm' w2 = Inr (rsm', w2) \<and>
    RSM_Submit K handle u req rsm' w2 s = Inr ((ErrWrongLeader, None), s)"
proof -
  let ?n = "cbCounter (table w)" and ?d = "unused w"
  obtain rsm w1 h x where mk: "MakeRSM load now sv servers me pst maxraftstate sm applyCh w = Inr (rsm, w1)"
    and p: "rsm_handle_ptr rsm = Some (?d + 2)" and cbs: "rsm_rpcCb rsm = ?n + 1" "rsm_channelCb rsm = ?n + 2"
    "rsm_persisterCb rsm = ?n + 3" "rsm_smCb rsm = ?n + 4" and x: "ro_raftHandle x = ?d + 1"
    and w1: "rafts w1 = (rafts w)(?d + 1 \<mapsto> h)" "rsms w1 = (rsms w)(?d + 2 \<mapsto> x)"
    and cb: "\<And>k. getCallback k (table w1) = (if k = ?n + 4 then Some (CbStateMachine sm) else if k = ?n + 3 then Some (CbPersister pst)
      else if k = ?n + 2 then Some (CbChannel applyCh) else if k = ?n + 1 then Some (LabRpcFn servers ?d) else getCallback k (table w))"
    by (rule MakeRSM_ok [where load=load and sv=sv and w=w, OF assms(2-4) refl refl]) blast
  have free: "rafts w (?d + 1) = None" "rsms w (?d + 2) = None" using assms(1) by (simp_all add: world_ok_def)
  let ?rsm = "rsm\<lparr>rsm_handle_ptr := None\<rparr>"
  let ?w2 = "free_all [?n + 1, ?n + 2, ?n + 3, ?n + 4]
    (w1\<lparr>rsms := (rsms w1)(?d + 2 := None), rafts := (rafts w1)(?d + 1 := None)\<rparr>)"
  have "RSM_Kill rsm w1 = Inr (?rsm, ?w2)"
    by (simp add: RSM_Kill_def delete_rsm_def delete_raft_def p cbs w1 x)
  moreover have "getCallback k (table ?w2) = getCallback k (table w)" for k
    unfolding getCallback_free_all using next_handles(1) [OF assms(1) refl, of k] cb [of k] by (auto split: if_splits)
  moreover have "rafts ?w2 = rafts w" "rsms ?w2 = rsms w" using free w1 by (simp_all add: fun_upd_idem)
  moreover have "RSM_Kill ?rsm ?w2 = Inr (?rsm, ?w2)" by (simp add: RSM_Kill_def)
  moreover have "RSM_Submit K handle u req ?rsm ?w2 s = Inr ((ErrWrongLeader, None), s)"
    by (simp add: RSM_Submit_def Submit_def rsm_submit_def split: option.split)
  ultimately show ?thesis using mk by blast
qed

lemma c_int_low: "c_int i mod 2 ^ 32 = uint i mod 2 ^ 32"
proof -
  have "c_int i mod 2 ^ 32 = take_bit 32 (sint (ucast i :: 32 word))" by (simp add: c_int_def take_bit_eq_mod)
  also have "\<dots> = uint (ucast i :: 32 word)" using uint_sint [of "ucast i :: 32 word"] by simp
  also have "\<dots> = take_bit 32 (uint i)" by (simp add: unsigned_ucast_eq)
  finally show ?thesis by (simp add: take_bit_eq_mod)
qed

lemma bytes_value_append: "bytes_value (xs @ ys) = bytes_value xs + 256 ^ length xs * bytes_value ys"
  by (induction xs) (simp_all add: algebra_simps)

lemma stored_c_int: "go_int (store_c_int (c_int i) (replicate 8 (CHR 0x00))) = uint i mod 2 ^ 32"
proof -
  have z: "bytes_value (replicate k (CHR 0x00)) = 0" for k by (induction k) simp_all
  have "nat (c_int i mod 2 ^ 32) < 256 ^ 4" by (simp add: nat_less_iff)
  then show ?thesis
    using c_int_low [of i] by (simp add: go_int_def store_c_int_def bytes_value_append z bytes_value_low)
qed

lemma store_flag:
  "store_c_int (if b then 1 else 0) (c # x # y # z # rest) =
     (if b then CHR 0x01 else CHR 0x00) # CHR 0x00 # CHR 0x00 # CHR 0x00 # rest"
proof -
  have "low_bytes 4 (nat (1 mod 2 ^ 32)) = [CHR 0x01, CHR 0x00, CHR 0x00, CHR 0x00]"
    "low_bytes 4 (nat (0 mod 2 ^ 32)) = [CHR 0x00, CHR 0x00, CHR 0x00, CHR 0x00]" by code_simp+
  then show ?thesis by (cases b) (simp_all add: store_c_int_def)
qed

text \<open>
  What \<open>Start\<close> returns and what it overwrites. At a leader the command is appended and its
  index and term come back, of which only the lower 32 bits; and the flag, a variable of one byte,
  is stored with four, so that the three bytes behind it are zero afterwards whatever they held.
\<close>

theorem Start_overwrites:
  assumes "rf_handle rf = Some a" and "rafts w a = Some x" and "role (rh_raft x) = Leader"
    and "\<not> killed (rh_raft x)" and "\<not> pendingSnapshot (rh_raft x)"
  shows "\<exists>w'. Start u command (b1 # b2 # b3 # rest) rf w =
      Inr ((uint (log_lastIndex (mainLog (rh_raft x)) + 1) mod 2 ^ 32, uint (currentTerm (rh_raft x)) mod 2 ^ 32, True),
           CHR 0x00 # CHR 0x00 # CHR 0x00 # rest, w') \<and>
    rafts w' = (rafts w)(a \<mapsto> x\<lparr>rh_raft := snd (snd (start (TestCommand_new u (sprint command)) (rh_raft x)))\<rparr>)"
proof -
  let ?s = "rh_raft x" and ?c = "TestCommand_new u (sprint command)"
  obtain ok c' s' where st: "start ?c ?s = (ok, c', s')" by (cases "start ?c ?s")
  with assms(3-5) have "ok" "hdr_index (cmd_header c') = log_lastIndex (mainLog ?s) + 1" "hdr_term (cmd_header c') = currentTerm ?s"
    by (auto simp: start_def Let_def TestCommand_new_def)
  with st assms(1,2) show ?thesis
    using store_flag [of True "CHR 0x00" b1 b2 b3 rest]
    by (simp add: Start_def deref_def raft_start_def Let_def stored_c_int del: replicate.simps)
qed

text \<open>
  C36: the two objects of a replicated state machine do not know of each other's death. Killing
  the Raft object, as the tests do, deletes the C++ objects and leaves the handle of the state
  machine, so that a request submitted afterwards and a \<open>Kill\<close> of the state machine read deleted
  memory, and the callback of the machine is never freed. Killing the state machine leaves the
  handle of the Raft object. In either case the flag that the network callback looks at stays 0.
\<close>

theorem killed_rsm_dangles:
  assumes "world_ok w" and "0 \<le> me" and "me < int (length servers)" and "load sv = Inr ps"
    and "gc_ser K (submit_message K u req) = Some b"
  shows "\<exists>rsm w1 rf' w2 rsm' w3. MakeRSM load now sv servers me pst maxraftstate sm applyCh w = Inr (rsm, w1) \<and>
    Raft_Kill (RSM_Raft rsm) w1 = Inr (rf', w2) \<and>
    RSM_Submit K handle u req (rsm\<lparr>rsm_rf := rf'\<rparr>) w2 s = Inl UseAfterFree \<and>
    RSM_Kill (rsm\<lparr>rsm_rf := rf'\<rparr>) w2 = Inl UseAfterFree \<and>
    getCallback (rsm_smCb rsm) (table w2) = Some (CbStateMachine sm) \<and> flags w2 (rsm_dead rsm) = 0 \<and>
    RSM_Kill rsm w1 = Inr (rsm', w3) \<and> GetState (RSM_Raft rsm') w3 = Inl UseAfterFree \<and>
    Raft_Kill (RSM_Raft rsm') w3 = Inl UseAfterFree \<and> flags w3 (rsm_dead rsm) = 0"
proof -
  let ?n = "cbCounter (table w)" and ?d = "unused w"
  obtain rsm w1 h x where mk: "MakeRSM load now sv servers me pst maxraftstate sm applyCh w = Inr (rsm, w1)"
    and p: "rsm_handle_ptr rsm = Some (?d + 2)" "rsm_dead rsm = ?d" "rsm_smCb rsm = ?n + 4"
    and q: "rf_handle (rsm_rf rsm) = Some (?d + 1)" "rf_dead (rsm_rf rsm) = ?d + 3" "rf_rsmHandle (rsm_rf rsm) = Some (?d + 2)"
    and cbs: "rf_cb (rsm_rf rsm) = ?n + 1" "rf_channelCb (rsm_rf rsm) = ?n + 2" "rf_persisterCB (rsm_rf rsm) = ?n + 3"
    and x: "ro_raftHandle x = ?d + 1"
    and w1: "rafts w1 = (rafts w)(?d + 1 \<mapsto> h)" "rsms w1 = (rsms w)(?d + 2 \<mapsto> x)" "flags w1 = (flags w)(?d := 0, ?d + 3 := 0)"
    and cb: "\<And>k. getCallback k (table w1) = (if k = ?n + 4 then Some (CbStateMachine sm) else if k = ?n + 3 then Some (CbPersister pst)
      else if k = ?n + 2 then Some (CbChannel applyCh) else if k = ?n + 1 then Some (LabRpcFn servers ?d) else getCallback k (table w))"
    by (rule MakeRSM_ok [where load=load and sv=sv and w=w, OF assms(2-4) refl refl]) blast
  let ?rf = "(rsm_rf rsm)\<lparr>rf_handle := None\<rparr>"
  let ?w2 = "free_all [?n + 1, ?n + 2, ?n + 3] (w1\<lparr>flags := (flags w1)(?d + 3 := 1), rsms := (rsms w1)(?d + 2 := None),
    rafts := (rafts w1)(?d + 1 := None)\<rparr>)"
  have "Raft_Kill (RSM_Raft rsm) w1 = Inr (?rf, ?w2)"
    by (simp add: Raft_Kill_def RSM_Raft_def delete_rsm_def delete_raft_def Let_def q cbs w1 x)
  moreover have "RSM_Submit K handle u req (rsm\<lparr>rsm_rf := ?rf\<rparr>) ?w2 s = Inl UseAfterFree"
    "RSM_Kill (rsm\<lparr>rsm_rf := ?rf\<rparr>) ?w2 = Inl UseAfterFree" "flags ?w2 (rsm_dead rsm) = 0"
    by (simp_all add: RSM_Submit_def RSM_Kill_def delete_rsm_def p w1 assms(5))
  moreover have "getCallback (rsm_smCb rsm) (table ?w2) = Some (CbStateMachine sm)"
    unfolding getCallback_free_all using next_handles(2) [OF assms(1) refl] by (auto simp: p cb)
  moreover obtain hs where k: "RSM_Kill rsm w1 = Inr (rsm\<lparr>rsm_handle_ptr := None\<rparr>,
      free_all hs (w1\<lparr>rsms := (rsms w1)(?d + 2 := None), rafts := (rafts w1)(?d + 1 := None)\<rparr>))"
    by (simp add: RSM_Kill_def delete_rsm_def delete_raft_def p w1 x)
  moreover have "GetState (RSM_Raft (rsm\<lparr>rsm_handle_ptr := None\<rparr>)) w3 = Inl UseAfterFree \<and>
      Raft_Kill (RSM_Raft (rsm\<lparr>rsm_handle_ptr := None\<rparr>)) w3 = Inl UseAfterFree \<and> flags w3 (rsm_dead rsm) = 0"
    if "w3 = free_all hs (w1\<lparr>rsms := (rsms w1)(?d + 2 := None), rafts := (rafts w1)(?d + 1 := None)\<rparr>)" for w3
    by (simp add: that GetState_def Raft_Kill_def RSM_Raft_def deref_def delete_rsm_def Let_def p q w1)
  ultimately show ?thesis using mk by blast
qed

section \<open>Witnesses\<close>

definition empty_world :: "string go_world" where
  "empty_world = \<lparr>table = \<lparr>cbStore = [], cbCounter = 0\<rparr>, rafts = Map.empty, rsms = Map.empty, flags = (\<lambda>_. 0), unused = 0\<rparr>"

lemma empty_world_ok: "world_ok empty_world"
proof -
  have "(0 :: u64) < - 4" by code_simp
  then show ?thesis by (simp add: world_ok_def empty_world_def table_ok_def getCallback_def)
qed

abbreviation no_state :: stable_load where
  "no_state \<equiv> \<lambda>_. Inr PersistentState_default"

theorem Make_Kill_restores_witness:
  "\<exists>rf w1 rf' w2. Make no_state 0 None [''x'', ''y''] 0 7 8 empty_world = Inr (rf, w1) \<and> Raft_Kill rf w1 = Inr (rf', w2) \<and>
     rafts w2 = Map.empty"
  using Make_Kill_restores [OF empty_world_ok, of 0 "[''x'', ''y'']" no_state None PersistentState_default 0 7 8]
  by (auto simp: empty_world_def)

theorem MakeRSM_Kill_restores_witness:
  "\<exists>rsm w1 rsm' w2. MakeRSM no_state 0 None [''x'', ''y''] 0 7 1000 9 8 empty_world = Inr (rsm, w1) \<and>
     RSM_Kill rsm w1 = Inr (rsm', w2) \<and>
     RSM_Submit string_codec (\<lambda>_ _. Inl Unreachable) (replicate 16 0) ''q'' rsm' w2 () = Inr ((ErrWrongLeader, None), ())"
  using MakeRSM_Kill_restores [OF empty_world_ok, of 0 "[''x'', ''y'']" no_state None PersistentState_default 0 7 1000 9 8
      string_codec "\<lambda>_ _. Inl Unreachable" "replicate 16 0" "''q''" "()"]
  by auto

theorem killed_rsm_dangles_witness:
  "\<exists>rsm w1 rf' w2. MakeRSM no_state 0 None [''x'', ''y''] 0 7 1000 9 8 empty_world = Inr (rsm, w1) \<and>
     Raft_Kill (RSM_Raft rsm) w1 = Inr (rf', w2) \<and>
     RSM_Submit string_codec (\<lambda>_ _. Inl Unreachable) (replicate 16 0) ''q'' (rsm\<lparr>rsm_rf := rf'\<rparr>) w2 () = Inl UseAfterFree"
proof -
  obtain b where "gc_ser string_codec (submit_message string_codec (replicate 16 0) ''q'') = Some b"
    using string_codec_ok unfolding go_codec_ok_def by blast
  from killed_rsm_dangles [OF empty_world_ok _ _ _ this, of 0 "[''x'', ''y'']" no_state None PersistentState_default 0 7 1000 9 8
      "\<lambda>_ _. Inl Unreachable" "()"] show ?thesis by auto
qed

definition go_leader :: RaftHandle where
  "go_leader = sample_handle\<lparr>rh_raft := (rh_raft sample_handle)\<lparr>role := Leader\<rparr>\<rparr>"

theorem Start_overwrites_witness:
  "\<exists>rf w w'. Start (replicate 16 0) (GoInt 100) ''abcd'' rf (w :: string go_world) =
     Inr ((1, 0, True), CHR 0x00 # CHR 0x00 # CHR 0x00 # ''d'', w')"
proof -
  let ?rf = "\<lparr>rf_handle = Some 1, rf_peers = [], rf_me = 0, rf_dead = 0, rf_persister = 7, rf_applyCh = 8,
    rf_cb = 2, rf_channelCb = 1, rf_persisterCB = 3, rf_rsmHandle = None\<rparr>"
  let ?w = "empty_world\<lparr>rafts := [1 \<mapsto> go_leader]\<rparr>"
  have "role (rh_raft go_leader) = Leader" "\<not> killed (rh_raft go_leader)" "\<not> pendingSnapshot (rh_raft go_leader)"
    "uint (log_lastIndex (mainLog (rh_raft go_leader)) + 1) mod 2 ^ 32 = 1" "uint (currentTerm (rh_raft go_leader)) mod 2 ^ 32 = 0"
    by code_simp+
  with Start_overwrites [of ?rf 1 ?w go_leader "replicate 16 0" "GoInt 100" "CHR ''a''" "CHR ''b''" "CHR ''c''" "''d''"]
  show ?thesis by auto
qed

end
