(* ===== verification/LabRpc.thy ===== *)
theory LabRpc
  imports GoApi
begin

text \<open>
  The simulated network of the Go tests, \<open>6.5840/src/labrpc/labrpc.go\<close>: ends, servers and their
  services, and the way of a call through \<open>processReq\<close>. The draws of the random generator and what
  other threads do to the network while a call is under way are arguments; gob is the record
  \<open>lab_codec\<close>. The theorems say that a call does one of the three things that \<open>delivery\<close> of the
  theory \<open>GoRpc\<close> stands for, and when which.

  \<open>log.Fatalf\<close> ends the process and is an exception of the model, as is a panic.
\<close>

section \<open>Servers and services\<close>

record ('a, 'r) lab_codec =
  lc_enca :: "'a \<Rightarrow> string option"
  lc_deca :: "string \<Rightarrow> 'a"
  lc_encr :: "'r \<Rightarrow> string"
  lc_decr :: "string \<Rightarrow> 'r \<Rightarrow> 'r option"

text \<open>
  What gob promises: arguments come out as they went in, and so do replies that are read into the
  zero value \<open>z\<close>.
\<close>

definition lab_codec_ok :: "('a, 'r) lab_codec \<Rightarrow> 'r \<Rightarrow> bool" where
  "lab_codec_ok C z \<longleftrightarrow> (\<forall>a. \<exists>b. lc_enca C a = Some b \<and> lc_deca C b = a) \<and> (\<forall>r. lc_decr C (lc_encr C r) z = Some r)"

record reqMsg =
  rq_endname :: string
  rq_svcMeth :: string
  rq_args :: string

record replyMsg =
  rp_ok :: bool
  rp_reply :: string

definition no_reply :: replyMsg where
  "no_reply = \<lparr>rp_ok = False, rp_reply = ''''\<rparr>"

text \<open>A method of an object as reflection shows it; \<open>md_call\<close> runs it on an argument and a fresh reply.\<close>

record ('a, 'r, 'h) go_meth =
  md_name :: string
  md_exported :: bool
  md_numIn :: nat
  md_in2Ptr :: bool
  md_numOut :: nat
  md_call :: "'a \<Rightarrow> 'h \<Rightarrow> ('r \<times> 'h) outcome"

record ('a, 'r, 'h) Service =
  sv_name :: string
  sv_methods :: "(string, ('a, 'r, 'h) go_meth) umap"

definition suitable :: "('a, 'r, 'h) go_meth \<Rightarrow> bool" where
  "suitable m \<longleftrightarrow> md_exported m \<and> md_numIn m = 3 \<and> md_in2Ptr m \<and> md_numOut m = 0"

definition MakeService :: "string \<Rightarrow> ('a, 'r, 'h) go_meth list \<Rightarrow> ('a, 'r, 'h) Service" where
  "MakeService name ms =
     \<lparr>sv_name = name, sv_methods = fold (\<lambda>m ps. if suitable m then AList.update (md_name m) m ps else ps) ms []\<rparr>"

definition Service_dispatch :: "('a, 'r) lab_codec \<Rightarrow> ('a, 'r, 'h) Service \<Rightarrow> string \<Rightarrow> reqMsg \<Rightarrow> 'h \<Rightarrow> (replyMsg \<times> 'h) outcome" where
  "Service_dispatch C svc methname req h =
     (case map_of (sv_methods svc) methname of
        None \<Rightarrow> Inl (RuntimeError ''unknown method'')
      | Some m \<Rightarrow> bind_outcome (md_call m (lc_deca C (rq_args req)) h) (\<lambda>(r, h').
          Inr (\<lparr>rp_ok = True, rp_reply = lc_encr C r\<rparr>, h')))"

record ('a, 'r, 'h) Server =
  ls_services :: "(string, ('a, 'r, 'h) Service) umap"
  ls_count :: int

definition MakeServer :: "('a, 'r, 'h) Server" where
  "MakeServer = \<lparr>ls_services = [], ls_count = 0\<rparr>"

definition AddService :: "('a, 'r, 'h) Service \<Rightarrow> ('a, 'r, 'h) Server \<Rightarrow> ('a, 'r, 'h) Server" where
  "AddService svc rs = rs\<lparr>ls_services := AList.update (sv_name svc) svc (ls_services rs)\<rparr>"

text \<open>The name of the service and of the method, split at the last dot; without one the slice panics.\<close>

fun split_last :: "char \<Rightarrow> string \<Rightarrow> (string \<times> string) option" where
  "split_last d [] = None"
| "split_last d (c # cs) = (case split_last d cs of
      Some (a, b) \<Rightarrow> Some (c # a, b)
    | None \<Rightarrow> if c = d then Some ([], cs) else None)"

definition Server_dispatch :: "('a, 'r) lab_codec \<Rightarrow> reqMsg \<Rightarrow> ('a, 'r, 'h) Server \<Rightarrow> 'h
    \<Rightarrow> (replyMsg \<times> ('a, 'r, 'h) Server \<times> 'h) outcome" where
  "Server_dispatch C req rs h =
     (let rs' = rs\<lparr>ls_count := ls_count rs + 1\<rparr> in
      case split_last (CHR ''.'') (rq_svcMeth req) of
        None \<Rightarrow> Inl OutOfRange
      | Some (serviceName, methodName) \<Rightarrow> (case map_of (ls_services rs) serviceName of
          None \<Rightarrow> Inl (RuntimeError ''unknown service'')
        | Some svc \<Rightarrow> bind_outcome (Service_dispatch C svc methodName req h) (\<lambda>(r, h'). Inr (r, rs', h'))))"

definition Server_GetCount :: "('a, 'r, 'h) Server \<Rightarrow> int" where
  "Server_GetCount rs = ls_count rs"

section \<open>The network\<close>

text \<open>
  Servers are pointers: a name can be given to another server later, and a deleted server leaves
  a null pointer under its name. An end that was made and not connected has no server name.
\<close>

record Network =
  nw_reliable :: bool
  nw_longDelays :: bool
  nw_longReordering :: bool
  nw_ends :: "string list"
  nw_enabled :: "(string, bool) umap"
  nw_servers :: "(string, nat option) umap"
  nw_connections :: "(string, string option) umap"
  nw_done :: bool
  nw_count :: "32 word"
  nw_bytes :: u64

definition MakeNetwork :: Network where
  "MakeNetwork = \<lparr>nw_reliable = True, nw_longDelays = False, nw_longReordering = False, nw_ends = [],
     nw_enabled = [], nw_servers = [], nw_connections = [], nw_done = False, nw_count = 0, nw_bytes = 0\<rparr>"

text \<open>The loop of the goroutine that takes requests, for one of them.\<close>

definition take_request :: "reqMsg \<Rightarrow> Network \<Rightarrow> Network" where
  "take_request req rn = rn\<lparr>nw_count := nw_count rn + 1, nw_bytes := nw_bytes rn + of_nat (length (rq_args req))\<rparr>"

text \<open>Closing a channel twice panics.\<close>

definition Cleanup :: "Network \<Rightarrow> Network outcome" where
  "Cleanup rn = (if nw_done rn then Inl (RuntimeError ''close of closed channel'') else Inr (rn\<lparr>nw_done := True\<rparr>))"

definition Reliable :: "bool \<Rightarrow> Network \<Rightarrow> Network" where
  "Reliable yes rn = rn\<lparr>nw_reliable := yes\<rparr>"

definition IsReliable :: "Network \<Rightarrow> bool" where
  "IsReliable rn = nw_reliable rn"

definition LongReordering :: "bool \<Rightarrow> Network \<Rightarrow> Network" where
  "LongReordering yes rn = rn\<lparr>nw_longReordering := yes\<rparr>"

definition LongDelays :: "bool \<Rightarrow> Network \<Rightarrow> Network" where
  "LongDelays yes rn = rn\<lparr>nw_longDelays := yes\<rparr>"

definition IsLongDelays :: "Network \<Rightarrow> bool" where
  "IsLongDelays rn = nw_longDelays rn"

text \<open>Reading a Go map gives the zero value for an absent key.\<close>

definition end_enabled :: "Network \<Rightarrow> string \<Rightarrow> bool" where
  "end_enabled rn e = (map_of (nw_enabled rn) e = Some True)"

definition server_at :: "Network \<Rightarrow> string \<Rightarrow> nat option" where
  "server_at rn n = (case map_of (nw_servers rn) n of None \<Rightarrow> None | Some p \<Rightarrow> p)"

definition readEndnameInfo :: "string \<Rightarrow> Network \<Rightarrow> bool \<times> string option \<times> nat option \<times> bool \<times> bool" where
  "readEndnameInfo e rn =
     (let servername = (case map_of (nw_connections rn) e of None \<Rightarrow> None | Some n \<Rightarrow> n);
          server = (case servername of None \<Rightarrow> None | Some n \<Rightarrow> server_at rn n)
      in (end_enabled rn e, servername, server, nw_reliable rn, nw_longReordering rn))"

definition isServerDead :: "string \<Rightarrow> string \<Rightarrow> nat \<Rightarrow> Network \<Rightarrow> bool" where
  "isServerDead e servername server rn \<longleftrightarrow> \<not> end_enabled rn e \<or> server_at rn servername \<noteq> Some server"

definition MakeEnd :: "string \<Rightarrow> Network \<Rightarrow> Network outcome" where
  "MakeEnd e rn =
     (if e \<in> set (nw_ends rn) then Inl (RuntimeError ''already exists'')
      else Inr (rn\<lparr>nw_ends := e # nw_ends rn, nw_enabled := AList.update e False (nw_enabled rn),
                   nw_connections := AList.update e None (nw_connections rn)\<rparr>))"

definition DeleteEnd :: "string \<Rightarrow> Network \<Rightarrow> Network outcome" where
  "DeleteEnd e rn =
     (if e \<notin> set (nw_ends rn) then Inl (RuntimeError ''does not exist'')
      else Inr (rn\<lparr>nw_ends := filter (\<lambda>x. x \<noteq> e) (nw_ends rn), nw_enabled := AList.delete e (nw_enabled rn),
                   nw_connections := AList.delete e (nw_connections rn)\<rparr>))"

definition AddServer :: "string \<Rightarrow> nat \<Rightarrow> Network \<Rightarrow> Network" where
  "AddServer n rs rn = rn\<lparr>nw_servers := AList.update n (Some rs) (nw_servers rn)\<rparr>"

definition DeleteServer :: "string \<Rightarrow> Network \<Rightarrow> Network" where
  "DeleteServer n rn = rn\<lparr>nw_servers := AList.update n None (nw_servers rn)\<rparr>"

definition Connect :: "string \<Rightarrow> string \<Rightarrow> Network \<Rightarrow> Network" where
  "Connect e n rn = rn\<lparr>nw_connections := AList.update e (Some n) (nw_connections rn)\<rparr>"

definition Enable :: "string \<Rightarrow> bool \<Rightarrow> Network \<Rightarrow> Network" where
  "Enable e enabled rn = rn\<lparr>nw_enabled := AList.update e enabled (nw_enabled rn)\<rparr>"

text \<open>The count of a server that was deleted is read through a null pointer.\<close>

definition GetCount :: "(nat \<Rightarrow> ('a, 'r, 'h) Server) \<Rightarrow> string \<Rightarrow> Network \<Rightarrow> int outcome" where
  "GetCount srvs n rn = (case server_at rn n of None \<Rightarrow> Inl NullPointer | Some a \<Rightarrow> Inr (Server_GetCount (srvs a)))"

definition GetTotalCount :: "Network \<Rightarrow> int" where
  "GetTotalCount rn = sint (nw_count rn)"

definition GetTotalBytes :: "Network \<Rightarrow> int" where
  "GetTotalBytes rn = sint (nw_bytes rn)"

section \<open>The way of a call\<close>

text \<open>
  What a call meets: the network when it is looked up, at each tenth of a second while the handler
  runs, and when the handler has returned; and the random draws, in the order of the code.
\<close>

record call_env =
  ce_read :: Network
  ce_polls :: "Network list"
  ce_check :: Network
  ce_short :: nat
  ce_drop :: nat
  ce_dropReply :: nat
  ce_reorder :: nat
  ce_span :: nat
  ce_late :: nat
  ce_long :: nat

definition SHORTDELAY :: nat where
  "SHORTDELAY = 27"

definition LONGDELAY :: nat where
  "LONGDELAY = 7000"

text \<open>The loop that waits for the handler: whether it has returned when the loop ends, and how often it woke up.\<close>

fun wait_handler :: "(Network \<Rightarrow> bool) \<Rightarrow> Network list \<Rightarrow> bool \<times> nat" where
  "wait_handler dead [] = (True, 0)"
| "wait_handler dead (rn # rns) = (if dead rn then (False, 1) else case wait_handler dead rns of (ok, k) \<Rightarrow> (ok, k + 1))"

text \<open>The answer, the milliseconds it takes, and the bytes it adds to the statistics.\<close>

record processed =
  pr_reply :: replyMsg
  pr_ms :: nat
  pr_bytes :: nat

definition finish_call :: "call_env \<Rightarrow> string \<Rightarrow> string \<Rightarrow> nat \<Rightarrow> bool \<Rightarrow> bool \<Rightarrow> nat \<Rightarrow> replyMsg \<Rightarrow> processed" where
  "finish_call env e n a rel reord ms r =
     (let (replyOK, k) = wait_handler (isServerDead e n a) (ce_polls env);
          serverDead = isServerDead e n a (ce_check env);
          waited = ms + 100 * k;
          refused = \<lparr>pr_reply = no_reply, pr_ms = waited, pr_bytes = 0\<rparr>
      in if \<not> replyOK \<or> serverDead then refused
         else if \<not> rel \<and> ce_dropReply env mod 1000 < 100 then refused
         else if reord \<and> ce_reorder env mod 900 < 600
         then \<lparr>pr_reply = r, pr_ms = waited + (200 + ce_late env mod (1 + ce_span env mod 2000)), pr_bytes = length (rp_reply r)\<rparr>
         else \<lparr>pr_reply = r, pr_ms = waited, pr_bytes = length (rp_reply r)\<rparr>)"

definition processReq :: "('a, 'r) lab_codec \<Rightarrow> call_env \<Rightarrow> reqMsg \<Rightarrow> (nat \<Rightarrow> ('a, 'r, 'h) Server) \<Rightarrow> 'h
    \<Rightarrow> (processed \<times> (nat \<Rightarrow> ('a, 'r, 'h) Server) \<times> 'h) outcome" where
  "processReq C env req srvs h =
     (let nobody = \<lparr>pr_reply = no_reply,
            pr_ms = (if IsLongDelays (ce_check env) then ce_long env mod LONGDELAY else ce_long env mod 100), pr_bytes = 0\<rparr>
      in case readEndnameInfo (rq_endname req) (ce_read env) of
        (True, Some n, Some a, rel, reord) \<Rightarrow>
          let ms = (if rel then 0 else ce_short env mod SHORTDELAY)
          in if \<not> rel \<and> ce_drop env mod 1000 < 100
             then Inr (\<lparr>pr_reply = no_reply, pr_ms = ms, pr_bytes = 0\<rparr>, srvs, h)
             else bind_outcome (Server_dispatch C req (srvs a) h) (\<lambda>(r, rs', h').
               Inr (finish_call env (rq_endname req) n a rel reord ms r, srvs(a := rs'), h'))
      | _ \<Rightarrow> Inr (nobody, srvs, h))"

text \<open>
  \<open>went\<close> is false when the network was cleaned up before it took the request. A reply that cannot
  be decoded ends the process; a call that fails leaves the reply variable as it was.
\<close>

definition ClientEnd_Call :: "('a, 'r) lab_codec \<Rightarrow> bool \<Rightarrow> call_env \<Rightarrow> string \<Rightarrow> string \<Rightarrow> 'a \<Rightarrow> 'r
    \<Rightarrow> (nat \<Rightarrow> ('a, 'r, 'h) Server) \<Rightarrow> 'h \<Rightarrow> (bool \<times> 'r \<times> (nat \<Rightarrow> ('a, 'r, 'h) Server) \<times> 'h) outcome" where
  "ClientEnd_Call C went env e svcMeth args reply srvs h =
     (case lc_enca C args of
        None \<Rightarrow> Inl (RuntimeError ''encode'')
      | Some b \<Rightarrow>
          if \<not> went then Inr (False, reply, srvs, h)
          else bind_outcome (processReq C env \<lparr>rq_endname = e, rq_svcMeth = svcMeth, rq_args = b\<rparr> srvs h) (\<lambda>(p, srvs', h').
            if rp_ok (pr_reply p)
            then case lc_decr C (rp_reply (pr_reply p)) reply of
                   None \<Rightarrow> Inl (RuntimeError ''decode reply'')
                 | Some r \<Rightarrow> Inr (True, r, srvs', h')
            else Inr (False, reply, srvs', h')))"

section \<open>The Raft service\<close>

text \<open>The methods of the Go type \<open>Raft\<close>; reflection takes three of them for handlers.\<close>

definition go_meth_of :: "string \<Rightarrow> nat \<Rightarrow> bool \<Rightarrow> nat \<Rightarrow> ('a \<Rightarrow> 'h \<Rightarrow> ('r \<times> 'h) outcome) \<Rightarrow> ('a, 'r, 'h) go_meth" where
  "go_meth_of name n ptr outs f = \<lparr>md_name = name, md_exported = True, md_numIn = n, md_in2Ptr = ptr, md_numOut = outs, md_call = f\<rparr>"

definition Raft_methods :: "('a \<Rightarrow> 'h \<Rightarrow> ('r \<times> 'h) outcome) \<Rightarrow> ('a \<Rightarrow> 'h \<Rightarrow> ('r \<times> 'h) outcome) \<Rightarrow> ('a \<Rightarrow> 'h \<Rightarrow> ('r \<times> 'h) outcome)
    \<Rightarrow> ('a, 'r, 'h) go_meth list" where
  "Raft_methods appendEntries installSnapshot requestVote =
     (let other = (\<lambda>_ _. Inl Unreachable) in
      [go_meth_of ''AppendEntries'' 3 True 0 appendEntries,
       go_meth_of ''GetState'' 1 False 2 other,
       go_meth_of ''InstallSnapshot'' 3 True 0 installSnapshot,
       go_meth_of ''Kill'' 1 False 0 other,
       go_meth_of ''PersistBytes'' 1 False 1 other,
       go_meth_of ''RequestVote'' 3 True 0 requestVote,
       go_meth_of ''Snapshot'' 3 False 0 other,
       go_meth_of ''Start'' 2 False 3 other])"

section \<open>Facts\<close>

text \<open>The method that a name stands for at a server.\<close>

definition method_of :: "('a, 'r, 'h) Server \<Rightarrow> string \<Rightarrow> ('a, 'r, 'h) go_meth option" where
  "method_of rs svcMeth =
     (case split_last (CHR ''.'') svcMeth of
        None \<Rightarrow> None
      | Some (s, m) \<Rightarrow> (case map_of (ls_services rs) s of None \<Rightarrow> None | Some svc \<Rightarrow> map_of (sv_methods svc) m))"

lemma dispatch_method:
  assumes "method_of rs (rq_svcMeth req) = Some m"
  shows "Server_dispatch C req rs h = bind_outcome (md_call m (lc_deca C (rq_args req)) h)
    (\<lambda>(r, h'). Inr (\<lparr>rp_ok = True, rp_reply = lc_encr C r\<rparr>, rs\<lparr>ls_count := ls_count rs + 1\<rparr>, h'))"
  using assms
  by (cases "md_call m (lc_deca C (rq_args req)) h")
    (auto simp: method_of_def Server_dispatch_def Service_dispatch_def Let_def split: option.splits)

lemma wait_handler_ok: "fst (wait_handler dead rns) \<longleftrightarrow> (\<forall>rn \<in> set rns. \<not> dead rn)"
  by (induction rns) (simp_all add: split_beta)

lemma wait_handler_count: "snd (wait_handler dead rns) \<le> length rns"
  by (induction rns) (simp_all add: split_beta)

lemma finish_call_reply:
  "pr_reply (finish_call env e n a rel reord ms r) =
     (if (\<forall>rn \<in> set (ce_polls env). \<not> isServerDead e n a rn) \<and> \<not> isServerDead e n a (ce_check env) \<and>
         (rel \<or> 100 \<le> ce_dropReply env mod 1000) then r else no_reply)"
proof -
  obtain ok k where w: "wait_handler (isServerDead e n a) (ce_polls env) = (ok, k)" by fastforce
  with wait_handler_ok [of "isServerDead e n a" "ce_polls env"] have
    "ok \<longleftrightarrow> (\<forall>rn \<in> set (ce_polls env). \<not> isServerDead e n a rn)" by simp
  with w show ?thesis by (auto simp: finish_call_def Let_def)
qed

text \<open>A server that was deleted, or replaced under its name by another, is dead.\<close>

lemma deleted_is_dead: "isServerDead e n a (DeleteServer n rn)"
  by (simp add: isServerDead_def server_at_def DeleteServer_def update_conv')

lemma replaced_is_dead: "b \<noteq> a \<Longrightarrow> isServerDead e n a (AddServer n b rn)"
  by (simp add: isServerDead_def server_at_def AddServer_def update_conv')

lemma disabled_is_dead: "isServerDead e n a (Enable e False rn)"
  by (simp add: isServerDead_def end_enabled_def Enable_def update_conv')

lemma Raft_service_methods:
  "sv_methods (MakeService ''Raft'' (Raft_methods f g k)) =
     [(''AppendEntries'', go_meth_of ''AppendEntries'' 3 True 0 f),
      (''InstallSnapshot'', go_meth_of ''InstallSnapshot'' 3 True 0 g),
      (''RequestVote'', go_meth_of ''RequestVote'' 3 True 0 k)]"
  by (simp add: MakeService_def Raft_methods_def suitable_def go_meth_of_def Let_def)

definition Raft_server :: "('a \<Rightarrow> 'h \<Rightarrow> ('r \<times> 'h) outcome) \<Rightarrow> ('a \<Rightarrow> 'h \<Rightarrow> ('r \<times> 'h) outcome) \<Rightarrow> ('a \<Rightarrow> 'h \<Rightarrow> ('r \<times> 'h) outcome)
    \<Rightarrow> ('a, 'r, 'h) Server" where
  "Raft_server f g k = AddService (MakeService ''Raft'' (Raft_methods f g k)) MakeServer"

lemma Raft_server_method:
  "map_option md_call (method_of (Raft_server f g k) ''Raft.AppendEntries'') = Some f"
  "map_option md_call (method_of (Raft_server f g k) ''Raft.InstallSnapshot'') = Some g"
  "map_option md_call (method_of (Raft_server f g k) ''Raft.RequestVote'') = Some k"
  unfolding Raft_server_def method_of_def AddService_def MakeServer_def
  by (simp_all add: Raft_service_methods, simp_all add: MakeService_def Raft_service_methods go_meth_of_def)

section \<open>The properties\<close>

lemma call_undelivered:
  assumes "lc_enca C arg = Some b" and "\<not> went \<or> \<not> en" and "readEndnameInfo e (ce_read env) = (en, sn, sv, rel, reord)"
  shows "ClientEnd_Call C went env e svcMeth arg z srvs h = Inr (False, z, srvs, h)"
  using assms by (auto simp: ClientEnd_Call_def processReq_def no_reply_def Let_def split: prod.split)

lemma call_processed:
  assumes "lab_codec_ok C z" and "readEndnameInfo e (ce_read env) = (True, Some n, Some a, rel, reord)"
    and "method_of (srvs a) svcMeth = Some md"
  shows "bind_outcome (ClientEnd_Call C True env e svcMeth arg z srvs h) (\<lambda>(ok, r, srvs', h'). Inr (if ok then Some r else None, h')) =
    labRpcCall (if \<not> rel \<and> ce_drop env mod 1000 < 100 then Dropped
      else if (\<forall>rn \<in> set (ce_polls env). \<not> isServerDead e n a rn) \<and> \<not> isServerDead e n a (ce_check env) \<and>
        (rel \<or> 100 \<le> ce_dropReply env mod 1000) then Delivered else ReplyLost) (md_call md) arg h"
proof -
  from assms(1) obtain b where b: "lc_enca C arg = Some b" "lc_deca C b = arg" and d: "\<And>r. lc_decr C (lc_encr C r) z = Some r"
    unfolding lab_codec_ok_def by blast
  show ?thesis
    by (cases "md_call md arg h")
      (auto simp: ClientEnd_Call_def processReq_def b d assms(2,3) dispatch_method finish_call_reply labRpcCall_def no_reply_def Let_def)
qed

text \<open>
  C24: the network implements \<open>delivery\<close>. A call from an end that is connected to a server loses
  the request, or runs the method once and loses the reply, or runs it once and returns its reply.
  It returns a reply only if the end was enabled when the call was looked up and if afterwards the
  end was enabled and the server still the one of its name; it runs nothing if the end was
  disabled; and a reliable network delivers, as long as the server is not killed meanwhile.
\<close>

theorem call_is_delivery:
  assumes "lab_codec_ok C z" and "readEndnameInfo e (ce_read env) = (en, Some n, Some a, rel, reord)"
    and "method_of (srvs a) svcMeth = Some md"
  shows "\<exists>dv. bind_outcome (ClientEnd_Call C went env e svcMeth arg z srvs h)
        (\<lambda>(ok, r, srvs', h'). Inr (if ok then Some r else None, h')) = labRpcCall dv (md_call md) arg h \<and>
    (dv = Delivered \<longrightarrow> went \<and> en \<and> \<not> isServerDead e n a (ce_check env)) \<and>
    (\<not> went \<or> \<not> en \<longrightarrow> dv = Dropped) \<and>
    (went \<and> en \<and> rel \<and> (\<forall>rn \<in> set (ce_polls env). \<not> isServerDead e n a rn) \<and> \<not> isServerDead e n a (ce_check env) \<longrightarrow>
      dv = Delivered)"
proof (cases "went \<and> en")
  case True
  with assms(2) have "readEndnameInfo e (ce_read env) = (True, Some n, Some a, rel, reord)" by simp
  from call_processed [where srvs=srvs and a=a, OF assms(1) this assms(3), of arg h] True show ?thesis
    by (intro exI conjI) (auto split: if_splits)
next
  case False
  from assms(1) obtain b where "lc_enca C arg = Some b" unfolding lab_codec_ok_def by blast
  from call_undelivered [OF this _ assms(2), of went] False
  have "ClientEnd_Call C went env e svcMeth arg z srvs h = Inr (False, z, srvs, h)" by simp
  with False show ?thesis by (intro exI [of _ Dropped]) (auto simp: labRpcCall_def)
qed

text \<open>
  C25: the calls of a server that was killed do not succeed. If the server was deleted, replaced
  under its name or cut off before its reply was sent, the call fails, although the method may
  have run.
\<close>

theorem killed_server_unanswered:
  assumes "ClientEnd_Call C went env e svcMeth arg z srvs h = Inr (ok, r, srvs', h')"
    and "readEndnameInfo e (ce_read env) = (en, Some n, Some a, rel, reord)"
    and "ce_check env = DeleteServer n rn \<or> (\<exists>b. b \<noteq> a \<and> ce_check env = AddServer n b rn) \<or> ce_check env = Enable e False rn"
  shows "\<not> ok \<and> r = z"
proof -
  have dead: "isServerDead e n a (ce_check env)"
    using assms(3) deleted_is_dead replaced_is_dead disabled_is_dead by metis
  with assms(1,2) show ?thesis
    by (cases en)
      (auto simp: ClientEnd_Call_def processReq_def bind_outcome_Inr finish_call_reply no_reply_def Let_def
        split: option.splits if_splits)
qed

text \<open>
  The delays of the network are bounded. A call that is answered or refused takes at most the
  longest delay, a tenth of a second for each time its handler was found running, or both short
  delays.
\<close>

theorem call_delay_bounded:
  assumes "processReq C env req srvs h = Inr (p, srvs', h')"
  shows "pr_ms p < max LONGDELAY (SHORTDELAY + 100 * length (ce_polls env) + 2200)"
proof -
  have f: "pr_ms (finish_call env e n a rel reord ms r) \<le> ms + 100 * length (ce_polls env) + 200 + 1999" for e n a rel reord ms r
  proof -
    obtain ok k where w: "wait_handler (isServerDead e n a) (ce_polls env) = (ok, k)" by fastforce
    with wait_handler_count [of "isServerDead e n a" "ce_polls env"] have "k \<le> length (ce_polls env)" by simp
    moreover have "ce_late env mod Suc (ce_span env mod 2000) \<le> 1999"
      using mod_less_divisor [of "Suc (ce_span env mod 2000)" "ce_late env"] mod_less_divisor [of 2000 "ce_span env"] by linarith
    ultimately show ?thesis using w by (auto simp: finish_call_def Let_def)
  qed
  have s: "ce_short env mod SHORTDELAY < SHORTDELAY" "ce_long env mod LONGDELAY < LONGDELAY" "ce_long env mod 100 < LONGDELAY"
    by (simp_all add: SHORTDELAY_def LONGDELAY_def less_trans [OF mod_less_divisor])
  obtain en sn sv rel reord where info: "readEndnameInfo (rq_endname req) (ce_read env) = (en, sn, sv, rel, reord)"
    by (metis prod_cases5)
  let ?ms = "if rel then 0 else ce_short env mod SHORTDELAY"
  have m: "?ms < SHORTDELAY" using s(1) by (simp add: SHORTDELAY_def)
  show ?thesis
  proof (cases "\<exists>n a. en \<and> sn = Some n \<and> sv = Some a")
    case True
    then obtain n a where na: "en" "sn = Some n" "sv = Some a" by blast
    from assms consider "pr_ms p = ?ms" | r where "p = finish_call env (rq_endname req) n a rel reord ?ms r"
      by (auto simp: processReq_def info na bind_outcome_Inr Let_def split: if_splits)
    then show ?thesis
    proof cases
      case 1
      with m show ?thesis by linarith
    next
      case (2 r)
      have "pr_ms p \<le> ?ms + 100 * length (ce_polls env) + 200 + 1999" unfolding 2 by (rule f)
      with m show ?thesis by linarith
    qed
  next
    case False
    with assms s(2,3) show ?thesis
      by (auto simp: processReq_def info Let_def less_max_iff_disj split: bool.splits option.splits if_splits)
  qed
qed

section \<open>The Raft service over the network\<close>

text \<open>
  A call of the name that the C++ client passes reaches the method of the peer's Raft object,
  through the table of services and reflection, in one of the three ways of \<open>delivery\<close>.
\<close>

theorem raft_call_reaches_method:
  assumes "lab_codec_ok C z" and "readEndnameInfo e (ce_read env) = (True, Some n, Some a, rel, reord)"
    and "srvs a = Raft_server appendEntries installSnapshot requestVote"
  shows "(\<exists>dv. bind_outcome (ClientEnd_Call C True env e ''Raft.RequestVote'' arg z srvs h)
        (\<lambda>(ok, r, srvs', h'). Inr (if ok then Some r else None, h')) = labRpcCall dv requestVote arg h) \<and>
    (\<exists>dv. bind_outcome (ClientEnd_Call C True env e ''Raft.AppendEntries'' arg z srvs h)
        (\<lambda>(ok, r, srvs', h'). Inr (if ok then Some r else None, h')) = labRpcCall dv appendEntries arg h) \<and>
    (\<exists>dv. bind_outcome (ClientEnd_Call C True env e ''Raft.InstallSnapshot'' arg z srvs h)
        (\<lambda>(ok, r, srvs', h'). Inr (if ok then Some r else None, h')) = labRpcCall dv installSnapshot arg h)"
proof -
  have go: "\<exists>dv. bind_outcome (ClientEnd_Call C True env e name arg z srvs h)
      (\<lambda>(ok, r, srvs', h'). Inr (if ok then Some r else None, h')) = labRpcCall dv f arg h"
    if f: "map_option md_call (method_of (srvs a) name) = Some f" for name f
  proof -
    from f obtain md where md: "method_of (srvs a) name = Some md" "md_call md = f" by auto
    from call_processed [where srvs=srvs and a=a, OF assms(1,2) md(1), of arg h] md(2) show ?thesis by auto
  qed
  show ?thesis
    using go [of "''Raft.RequestVote''" requestVote] go [of "''Raft.AppendEntries''" appendEntries]
      go [of "''Raft.InstallSnapshot''" installSnapshot] Raft_server_method [of appendEntries installSnapshot requestVote]
    by (simp add: assms(3))
qed

section \<open>Witnesses\<close>

text \<open>A network of two servers, in which the end \<open>e\<close> leads to the server \<open>s1\<close> at the address 1.\<close>

definition lab_net :: Network where
  "lab_net = Enable ''e'' True (Connect ''e'' ''s1'' (AddServer ''s1'' 1 (projr (MakeEnd ''e'' MakeNetwork))))"

definition lab_env :: call_env where
  "lab_env = \<lparr>ce_read = lab_net, ce_polls = [lab_net], ce_check = lab_net, ce_short = 5, ce_drop = 50, ce_dropReply = 50,
     ce_reorder = 0, ce_span = 0, ce_late = 0, ce_long = 0\<rparr>"

definition text_codec :: "(string, string) lab_codec" where
  "text_codec = \<lparr>lc_enca = Some, lc_deca = (\<lambda>b. b), lc_encr = (\<lambda>r. r), lc_decr = (\<lambda>b z. Some b)\<rparr>"

lemma text_codec_ok: "lab_codec_ok text_codec z"
  by (simp add: lab_codec_ok_def text_codec_def)

definition lab_method :: "string \<Rightarrow> nat \<Rightarrow> (string \<times> nat) outcome" where
  "lab_method arg h = Inr (arg @ ''!'', h + 1)"

definition lab_servers :: "nat \<Rightarrow> (string, string, nat) Server" where
  "lab_servers _ = Raft_server lab_method lab_method lab_method"

lemma lab_net_info: "readEndnameInfo ''e'' lab_net = (True, Some ''s1'', Some 1, True, False)"
  by code_simp

lemma lab_net_alive: "\<not> isServerDead ''e'' ''s1'' 1 lab_net"
  by code_simp

lemma lab_method_vote: "map_option md_call (method_of (lab_servers 1) ''Raft.RequestVote'') = Some lab_method"
  using Raft_server_method(3) [of lab_method lab_method lab_method] by (simp add: lab_servers_def)

theorem call_is_delivery_witness:
  "bind_outcome (ClientEnd_Call text_codec True lab_env ''e'' ''Raft.RequestVote'' ''x'' '''' lab_servers 7)
      (\<lambda>(ok, r, srvs', h'). Inr (if ok then Some r else None, h')) = Inr (Some ''x!'', 8)"
proof -
  from lab_method_vote obtain md where md: "method_of (lab_servers 1) ''Raft.RequestVote'' = Some md" "md_call md = lab_method" by auto
  have info: "readEndnameInfo ''e'' (ce_read lab_env) = (True, Some ''s1'', Some 1, True, False)"
    using lab_net_info by (simp add: lab_env_def)
  from call_is_delivery [where srvs=lab_servers and a=1, OF text_codec_ok info md(1), of True "''x''" "''''" 7] lab_net_alive
  show ?thesis by (auto simp: lab_env_def labRpcCall_def md(2) lab_method_def)
qed

theorem killed_server_unanswered_witness:
  "\<exists>srvs'. ClientEnd_Call text_codec True (lab_env\<lparr>ce_check := DeleteServer ''s1'' lab_net\<rparr>) ''e'' ''Raft.RequestVote'' ''x'' ''''
    lab_servers 7 = Inr (False, '''', srvs', 8)"
proof -
  let ?env = "lab_env\<lparr>ce_check := DeleteServer ''s1'' lab_net\<rparr>"
  from lab_method_vote obtain md where md: "method_of (lab_servers 1) ''Raft.RequestVote'' = Some md" "md_call md = lab_method" by auto
  have info: "readEndnameInfo ''e'' (ce_read ?env) = (True, Some ''s1'', Some 1, True, False)"
    using lab_net_info by (simp add: lab_env_def)
  have "\<exists>ok r srvs'. ClientEnd_Call text_codec True ?env ''e'' ''Raft.RequestVote'' ''x'' '''' lab_servers 7 = Inr (ok, r, srvs', 8)"
    using info md by (auto simp: ClientEnd_Call_def processReq_def dispatch_method lab_method_def text_codec_def Let_def)
  then obtain ok r srvs' where c: "ClientEnd_Call text_codec True ?env ''e'' ''Raft.RequestVote'' ''x'' '''' lab_servers 7 = Inr (ok, r, srvs', 8)"
    by blast
  from killed_server_unanswered [OF c info, of lab_net] c show ?thesis by auto
qed

theorem call_delay_bounded_witness:
  "\<exists>p srvs' h'. processReq text_codec lab_env \<lparr>rq_endname = ''f'', rq_svcMeth = ''Raft.RequestVote'', rq_args = ''''\<rparr> lab_servers 7 =
     Inr (p, srvs', h') \<and> pr_ms p < max LONGDELAY (SHORTDELAY + 100 * length (ce_polls lab_env) + 2200)"
proof -
  let ?req = "\<lparr>rq_endname = ''f'', rq_svcMeth = ''Raft.RequestVote'', rq_args = ''''\<rparr>"
  have "readEndnameInfo ''f'' lab_net = (False, None, None, True, False)" by code_simp
  then obtain p where p: "processReq text_codec lab_env ?req lab_servers 7 = Inr (p, lab_servers, 7)"
    by (simp add: processReq_def lab_env_def Let_def)
  from call_delay_bounded [OF p] p show ?thesis by blast
qed

theorem raft_call_reaches_method_witness:
  "\<exists>dv. bind_outcome (ClientEnd_Call text_codec True lab_env ''e'' ''Raft.AppendEntries'' ''x'' '''' lab_servers 7)
      (\<lambda>(ok, r, srvs', h'). Inr (if ok then Some r else None, h')) = labRpcCall dv lab_method ''x'' 7"
proof -
  have info: "readEndnameInfo ''e'' (ce_read lab_env) = (True, Some ''s1'', Some 1, True, False)"
    using lab_net_info by (simp add: lab_env_def)
  show ?thesis
    using raft_call_reaches_method [where srvs=lab_servers and a=1, OF text_codec_ok info, of lab_method lab_method lab_method "''x''" "''''" 7]
    by (simp add: lab_servers_def)
qed

end
