(* ===== verification/TestProxy.thy ===== *)
theory TestProxy
  imports KvClient LabRpc Complex_Main
begin

text \<open>
  The network of the C++ tests (\<open>tst/KVTestFramework/\<close>, \<open>tst/RaftTestFramework/\<close>): the switch
  \<open>NetworkConfig\<close>, the proxy \<open>ProxyService\<close> that loses and delays calls, the gRPC services that
  stand in front of a server and pass calls to the proxy, and the clients of the key-value tests.
  Random draws are arguments, as is the switch at the moments it is read, since tests turn it
  while calls are under way. Numbers of type \<open>double\<close> are reals.
\<close>

section \<open>The switch\<close>

record NetworkConfig =
  nc_reliability :: bool
  nc_dropRate :: real
  nc_delayRate :: real
  nc_connected :: bool

definition NetworkConfig_new :: "bool \<Rightarrow> real \<Rightarrow> real \<Rightarrow> NetworkConfig" where
  "NetworkConfig_new r dropR delayR = \<lparr>nc_reliability = r, nc_dropRate = dropR, nc_delayRate = delayR, nc_connected = True\<rparr>"

definition isReliable :: "NetworkConfig \<Rightarrow> bool" where
  "isReliable c = nc_reliability c"

definition shouldDelay :: "real \<Rightarrow> NetworkConfig \<Rightarrow> bool" where
  "shouldDelay d c \<longleftrightarrow> \<not> isReliable c \<and> d < nc_delayRate c"

definition shouldDrop :: "real \<Rightarrow> NetworkConfig \<Rightarrow> bool" where
  "shouldDrop d c \<longleftrightarrow> \<not> nc_connected c \<or> (\<not> isReliable c \<and> d < nc_dropRate c)"

text \<open>In microseconds.\<close>

definition delayTime :: "real \<Rightarrow> int" where
  "delayTime d = \<lfloor>d * 40000 + 10000\<rfloor>"

definition setReliability :: "bool \<Rightarrow> NetworkConfig \<Rightarrow> NetworkConfig" where
  "setReliability r c = c\<lparr>nc_reliability := r\<rparr>"

definition net_connect :: "NetworkConfig \<Rightarrow> NetworkConfig" where
  "net_connect c = c\<lparr>nc_connected := True\<rparr>"

definition net_disconnect :: "NetworkConfig \<Rightarrow> NetworkConfig" where
  "net_disconnect c = c\<lparr>nc_connected := False\<rparr>"

definition isConnected :: "NetworkConfig \<Rightarrow> bool" where
  "isConnected c = nc_connected c"

section \<open>The proxy\<close>

record 'q ProxyService =
  px_address :: string
  px_functions :: "(string, 'q function_t option) umap"
  px_channel :: "nat option"
  px_stub :: "nat option"
  px_policy :: RetryPolicy

definition ProxyService_new :: "string \<Rightarrow> RetryPolicy \<Rightarrow> (string, 'q function_t option) umap \<Rightarrow> 'q ProxyService" where
  "ProxyService_new original p f = \<lparr>px_address = original, px_functions = f, px_channel = None, px_stub = None, px_policy = p\<rparr>"

text \<open>The switch at the start of a call, before and after the remote call, and the draws made then.\<close>

record px_env =
  pe_start :: NetworkConfig
  pe_before :: NetworkConfig
  pe_after :: NetworkConfig
  pe_draw1 :: real
  pe_draw2 :: real
  pe_draw3 :: real
  pe_draw4 :: real

text \<open>A call through the table; a function that answers itself leaves the reply \<open>rep\<close> as it was.\<close>

definition run_function :: "'q function_t \<Rightarrow> ('q \<Rightarrow> 'w \<Rightarrow> (Status \<times> 'r) \<times> 'w) \<Rightarrow> 'q \<Rightarrow> 'r \<Rightarrow> 'w \<Rightarrow> (Status \<times> 'r) \<times> 'w" where
  "run_function f remote q rep w = (case f q of Some s \<Rightarrow> ((s, rep), w) | None \<Rightarrow> remote q w)"

text \<open>The results of the early returns, and the one that reads the status of the remote call.\<close>

definition px_refuse :: "(string \<Rightarrow> ErrorDetails option) \<Rightarrow> StatusCode \<Rightarrow> string \<Rightarrow> 'w \<Rightarrow> ((Error list + 'r) \<times> int \<times> 'w) outcome" where
  "px_refuse unpack code m w = bind_outcome (toError unpack (mk_Status code m)) (\<lambda>e. Inr (Inl [e], 0, w))"

definition px_answer :: "(string \<Rightarrow> ErrorDetails option) \<Rightarrow> int \<Rightarrow> Status \<times> 'r \<Rightarrow> 'w \<Rightarrow> ((Error list + 'r) \<times> int \<times> 'w) outcome" where
  "px_answer unpack us a w =
     (if status_ok (fst a) then Inr (Inr (snd a), us, w)
      else bind_outcome (toError unpack (fst a)) (\<lambda>e. Inr (Inl [e], us, w)))"

text \<open>
  Both overloads of \<open>call\<close>; they differ in the deadline they give to gRPC. The result has the
  microseconds slept. Calling an empty function throws. \<open>UNIMPLEMENTED\<close> is the code 12 of gRPC.
\<close>

definition px_call :: "(string \<Rightarrow> ErrorDetails option) \<Rightarrow> px_env \<Rightarrow> ('q \<Rightarrow> 'w \<Rightarrow> (Status \<times> 'r) \<times> 'w) \<Rightarrow> 'r \<Rightarrow> string \<Rightarrow> 'q
    \<Rightarrow> 'q ProxyService \<Rightarrow> 'w \<Rightarrow> ((Error list + 'r) \<times> int \<times> 'w) outcome" where
  "px_call unpack env remote rep op q px w =
     (if \<not> isConnected (pe_start env) then px_refuse unpack UNAVAILABLE ''Disconnected'' w
      else if px_stub px = None \<or> px_channel px = None then px_refuse unpack UNAVAILABLE ''Not Connected'' w
      else case map_of (px_functions px) op of
        None \<Rightarrow> px_refuse unpack (OTHER_STATUS 12) ''Unknown operation'' w
      | Some None \<Rightarrow> Inl (RuntimeError ''bad_function_call'')
      | Some (Some f) \<Rightarrow>
          if isReliable (pe_start env)
          then case run_function f remote q rep w of (a, w') \<Rightarrow> px_answer unpack 0 a w'
          else if shouldDrop (pe_draw1 env) (pe_before env) then px_refuse unpack DEADLINE_EXCEEDED ''Dropped'' w
          else case run_function f remote q rep w of (a, w') \<Rightarrow>
            if shouldDrop (pe_draw2 env) (pe_after env) then px_refuse unpack DEADLINE_EXCEEDED ''Dropped'' w'
            else px_answer unpack (if shouldDelay (pe_draw3 env) (pe_after env) then delayTime (pe_draw4 env) else 0) a w')"

text \<open>\<open>made\<close> names the new channel, \<open>ready\<close> and \<open>state\<close> are what gRPC says of it.\<close>

definition connectTarget :: "nat \<Rightarrow> bool \<Rightarrow> conn_state \<Rightarrow> 'q ProxyService \<Rightarrow> 'q ProxyService outcome" where
  "connectTarget made ready state px =
     (if \<not> ready then Inl (RuntimeError ''Failed to connect to channel'')
      else if state \<noteq> CH_READY then Inl (RuntimeError ''Failed to create channel or stub'')
      else Inr (px\<lparr>px_channel := Some made, px_stub := Some made\<rparr>))"

section \<open>The services in front of a server\<close>

text \<open>
  \<open>get\<close>, \<open>set\<close>, \<open>erase\<close> and \<open>size\<close> of \<open>ProxyKVStoreService\<close>: the operation is the name of the
  method. On an error the reply is not written. The two methods of \<open>ProxyRaftService\<close> differ in
  that they take the first error and answer an empty list themselves.
\<close>

definition ProxyKVStoreService_call :: "(ErrorDetails \<Rightarrow> string) \<Rightarrow> (string \<Rightarrow> ErrorDetails option) \<Rightarrow> px_env
    \<Rightarrow> (kv_request \<Rightarrow> 'w \<Rightarrow> (Status \<times> kv_reply) \<times> 'w) \<Rightarrow> kv_reply \<Rightarrow> kv_request \<Rightarrow> kv_request ProxyService \<Rightarrow> 'w
    \<Rightarrow> ((Status \<times> kv_reply) \<times> 'w) outcome" where
  "ProxyKVStoreService_call pack unpack env remote rep q px w =
     bind_outcome (px_call unpack env remote rep (request_op q) q px w) (\<lambda>(t, us, w').
       case t of
         Inr r \<Rightarrow> Inr ((Status_OK, r), w')
       | Inl errors \<Rightarrow> if errors = [] then Inl OutOfRange
           else bind_outcome (toGrpcStatus pack (last errors)) (\<lambda>s. Inr ((s, rep), w')))"

definition ProxyRaftService_call :: "(ErrorDetails \<Rightarrow> string) \<Rightarrow> (string \<Rightarrow> ErrorDetails option) \<Rightarrow> px_env
    \<Rightarrow> (raft_message \<Rightarrow> 'w \<Rightarrow> (Status \<times> raft_message) \<times> 'w) \<Rightarrow> string \<Rightarrow> raft_message \<Rightarrow> raft_message \<Rightarrow> raft_message ProxyService \<Rightarrow> 'w
    \<Rightarrow> ((Status \<times> raft_message) \<times> 'w) outcome" where
  "ProxyRaftService_call pack unpack env remote op rep q px w =
     bind_outcome (px_call unpack env remote rep op q px w) (\<lambda>(t, us, w').
       case t of
         Inr r \<Rightarrow> Inr ((Status_OK, r), w')
       | Inl errors \<Rightarrow> if errors = [] then Inr ((mk_Status UNKNOWN (op @ '': empty error stack''), rep), w')
           else bind_outcome (toGrpcStatus pack (hd errors)) (\<lambda>s. Inr ((s, rep), w')))"

section \<open>The properties\<close>

text \<open>A proxy that is connected to its target and has the operation in its table.\<close>

definition serves :: "'q ProxyService \<Rightarrow> string \<Rightarrow> 'q \<Rightarrow> bool" where
  "serves px op q \<longleftrightarrow> px_stub px \<noteq> None \<and> px_channel px \<noteq> None \<and>
     (\<exists>f. map_of (px_functions px) op = Some (Some f) \<and> f q = None)"

lemma px_call_cases:
  assumes "serves px op q"
  shows "px_call unpack env remote rep op q px w =
    (if \<not> isConnected (pe_start env) then px_refuse unpack UNAVAILABLE ''Disconnected'' w
     else if isReliable (pe_start env) then px_answer unpack 0 (fst (remote q w)) (snd (remote q w))
     else if shouldDrop (pe_draw1 env) (pe_before env) then px_refuse unpack DEADLINE_EXCEEDED ''Dropped'' w
     else if shouldDrop (pe_draw2 env) (pe_after env) then px_refuse unpack DEADLINE_EXCEEDED ''Dropped'' (snd (remote q w))
     else px_answer unpack (if shouldDelay (pe_draw3 env) (pe_after env) then delayTime (pe_draw4 env) else 0)
       (fst (remote q w)) (snd (remote q w)))"
  using assms by (auto simp: serves_def px_call_def run_function_def split_beta)

lemma px_refuse_plain:
  assumes "unpack '''' = None" and "code \<noteq> STATUS_OK"
  shows "px_refuse unpack code m w = Inr (Inl [mk_Error (fallback_code code) m], 0, w)"
  using assms by (simp add: px_refuse_def toError_def mk_Status_def)

lemma delayTime_range: "0 \<le> d \<Longrightarrow> d < 1 \<Longrightarrow> 10000 \<le> delayTime d \<and> delayTime d < 50000"
  unfolding delayTime_def by (auto simp: le_floor_iff floor_less_iff)

text \<open>What a caller of the proxy gets, in terms of what the network does with the call.\<close>

definition proxied :: "(string \<Rightarrow> ErrorDetails option) \<Rightarrow> (Status \<times> 'r) option \<times> 'w \<Rightarrow> (Error list + 'r) \<times> int \<times> 'w \<Rightarrow> bool" where
  "proxied unpack a t \<longleftrightarrow>
     (case fst a of
        None \<Rightarrow> (\<exists>e. fst t = Inl [e] \<and> err_code e \<in> {ServiceTemporarilyUnavailable, Timeout})
      | Some (s, r) \<Rightarrow> if status_ok s then fst t = Inr r else (\<exists>e. toError unpack s = Inr e \<and> fst t = Inl [e])) \<and>
     snd (snd t) = snd a"

lemma proxied_refused:
  "c \<in> {ServiceTemporarilyUnavailable, Timeout} \<Longrightarrow> proxied unpack (None, v) (Inl [mk_Error c m], 0, v)"
  by (auto simp: proxied_def mk_Error_def)

text \<open>
  The proxy of the tests does one of the three things of \<open>delivery\<close> with a call. It loses
  the request, or makes the remote call and loses its answer, which the caller sees as an error
  that may be retried; or it returns what the remote call returned. A proxy that is connected and
  reliable delivers, one that is disconnected makes no call, and a call is held up for less than
  50 milliseconds.
\<close>

theorem proxy_is_delivery:
  assumes "serves px op q" and "unpack '''' = None" and "0 \<le> pe_draw4 env" and "pe_draw4 env < 1"
  shows "\<exists>dv a t. labRpcCall dv (\<lambda>q w. Inr (remote q w)) q w = Inr a \<and> px_call unpack env remote rep op q px w = Inr t \<and>
    proxied unpack a t \<and> fst (snd t) < 50000 \<and>
    (\<not> isConnected (pe_start env) \<longrightarrow> dv = Dropped) \<and> (isConnected (pe_start env) \<and> isReliable (pe_start env) \<longrightarrow> dv = Delivered)"
proof -
  obtain s r w' where rem: "remote q w = ((s, r), w')" by (metis prod.exhaust)
  let ?dv = "if \<not> isConnected (pe_start env) then Dropped else if isReliable (pe_start env) then Delivered
    else if shouldDrop (pe_draw1 env) (pe_before env) then Dropped
    else if shouldDrop (pe_draw2 env) (pe_after env) then ReplyLost else Delivered"
  have ans: "\<exists>t. px_answer unpack us (s, r) w' = Inr t \<and> proxied unpack (Some (s, r), w') t \<and> fst (snd t) = us" for us
  proof (cases "status_ok s")
    case True
    then show ?thesis by (simp add: px_answer_def proxied_def)
  next
    case False
    then obtain e where "toError unpack s = Inr e"
      by (cases "unpack (error_details s)") (auto simp: toError_def status_ok_def)
    with False show ?thesis by (simp add: px_answer_def proxied_def)
  qed
  note plain = px_refuse_plain [of unpack, OF assms(2)]
  have "\<exists>a t. labRpcCall ?dv (\<lambda>q w. Inr (remote q w)) q w = Inr a \<and> px_call unpack env remote rep op q px w = Inr t \<and>
      proxied unpack a t \<and> fst (snd t) < 50000"
    using ans [of 0] ans [of "delayTime (pe_draw4 env)"] delayTime_range [OF assms(3,4)]
    by (auto simp: px_call_cases [OF assms(1)] labRpcCall_def rem plain proxied_refused)
  then show ?thesis by (intro exI [of _ ?dv]) auto
qed

text \<open>
  The service in front of a key-value server is transparent. Connected and reliable, it gives
  the client exactly what the server would have given: the reply, or the error with its code,
  message, key, value and version.
\<close>

theorem proxy_transparent:
  assumes "serves px (request_op q) q" and "\<And>d. unpack (pack d) = Some d"
    and "isConnected (pe_start env)" and "isReliable (pe_start env)"
    and "remote q w = ((s, r), w')" and "\<And>e. toError unpack s = Inr e \<Longrightarrow> err_code e \<in> set listed_codes"
  shows "\<exists>a. ProxyKVStoreService_call pack unpack env remote rep q px w = Inr (a, w') \<and>
    seen_by_client unpack a = seen_by_client unpack (s, r)"
proof (cases "status_ok s")
  case True
  with assms show ?thesis
    by (simp add: ProxyKVStoreService_call_def px_call_cases px_answer_def seen_by_client_def toExpected_def Status_OK_def status_ok_def)
next
  case False
  then obtain e where e: "toError unpack s = Inr e"
    by (cases "unpack (error_details s)") (auto simp: toError_def status_ok_def)
  from error_status_roundtrip [where unpack=unpack and pack=pack, OF assms(2) assms(6) [OF e]] obtain s' where
    s': "toGrpcStatus pack e = Inr s'" "\<not> status_ok s'" "toError unpack s' = Inr e" by blast
  with False e assms(1,3-5) show ?thesis
    by (simp add: ProxyKVStoreService_call_def px_call_cases px_answer_def seen_by_client_def toExpected_def)
qed

section \<open>Witnesses\<close>

definition sample_proxy :: "kv_request ProxyService" where
  "sample_proxy = projr (connectTarget 1 True CH_READY (ProxyService_new ''localhost:50052'' sample_policy getDefaultKVFunctions))"

definition sample_switch :: px_env where
  "sample_switch = (let c = NetworkConfig_new True 0 0 in
     \<lparr>pe_start = c, pe_before = c, pe_after = c, pe_draw1 = 0, pe_draw2 = 0, pe_draw3 = 0, pe_draw4 = 0\<rparr>)"

definition count_server :: "kv_request \<Rightarrow> nat \<Rightarrow> (Status \<times> kv_reply) \<times> nat" where
  "count_server q n = ((Status_OK, RpSize (of_nat n)), n + 1)"

lemma sample_proxy_serves: "serves sample_proxy ''size'' size_request"
  by (simp add: serves_def sample_proxy_def connectTarget_def ProxyService_new_def getDefaultKVFunctions_def kv_function_def size_request_def)

lemma sample_switch_on: "isConnected (pe_start sample_switch)" "isReliable (pe_start sample_switch)"
  by (simp_all add: sample_switch_def NetworkConfig_new_def isConnected_def isReliable_def Let_def)

theorem proxy_is_delivery_witness:
  "\<exists>t. px_call (whole dec_details) sample_switch count_server (RpSize 0) ''size'' size_request sample_proxy 4 = Inr t \<and>
     fst t = Inr (RpSize 4) \<and> snd (snd t) = 5"
proof -
  have "whole dec_details '''' = None" by code_simp
  moreover have "0 \<le> pe_draw4 sample_switch" "pe_draw4 sample_switch < 1" by (simp_all add: sample_switch_def Let_def)
  ultimately obtain a t where "labRpcCall Delivered (\<lambda>q w. Inr (count_server q w)) size_request 4 = Inr a"
    "px_call (whole dec_details) sample_switch count_server (RpSize 0) ''size'' size_request sample_proxy 4 = Inr t"
    "proxied (whole dec_details) a t"
    using proxy_is_delivery [OF sample_proxy_serves, of "whole dec_details" sample_switch count_server 4 "RpSize 0"] sample_switch_on
    by blast
  then show ?thesis by (auto simp: labRpcCall_def count_server_def proxied_def status_ok_def Status_OK_def)
qed

theorem proxy_transparent_witness:
  "\<exists>a. ProxyKVStoreService_call enc_details (whole dec_details) sample_switch count_server (RpSize 0) size_request sample_proxy 4 = Inr (a, 5) \<and>
     seen_by_client (whole dec_details) a = Inr (Inr (RpSize 4))"
proof -
  have op: "request_op size_request = ''size''" by (simp add: size_request_def)
  have r: "count_server size_request 4 = ((Status_OK, RpSize 4), 5)" by (simp add: count_server_def)
  have "toError (whole dec_details) Status_OK \<noteq> Inr e" for e by (simp add: toError_def Status_OK_def)
  with proxy_transparent [where pack=enc_details and unpack="whole dec_details" and env=sample_switch and rep="RpSize 0" and remote=count_server,
      OF sample_proxy_serves [folded op] whole_roundtrip [OF codec_details] sample_switch_on r]
  show ?thesis by (auto simp: seen_by_client_def toExpected_def Status_OK_def status_ok_def)
qed

end
