(* ===== verification/TestCluster.thy ===== *)
theory TestCluster
  imports RaftSafety TestProxy
begin

text \<open>
  The checks that the C++ tests make of a cluster, \<open>tst/RaftTestFramework/RaftTestFramework.cpp\<close>,
  and what they say of the clusters of \<open>RaftElection\<close> and \<open>Replication\<close>. The servers go on while
  a check reads them, so that what is read of a server is an argument, one value for each time.
  The iteration order of a hash map is the order of the list that stands for it.
\<close>

section \<open>Roles and terms\<close>

text \<open>What a check reads of one server: the role first, the term later.\<close>

record reading =
  rd_id :: string
  rd_connected :: bool
  rd_role :: Role
  rd_term :: u64

definition nRole :: "Role \<Rightarrow> reading list \<Rightarrow> int" where
  "nRole r rs = int (length (filter (\<lambda>x. rd_role x = r) rs))"

definition add_leader :: "reading \<Rightarrow> (u64, string list) umap \<Rightarrow> (u64, string list) umap" where
  "add_leader x m =
     (if rd_connected x \<and> rd_role x = Leader
      then AList.update (rd_term x) ((case map_of m (rd_term x) of None \<Rightarrow> [] | Some l \<Rightarrow> l) @ [rd_id x]) m else m)"

fun newest_term :: "(u64, string list) umap \<Rightarrow> u64 \<Rightarrow> u64 outcome" where
  "newest_term [] lastTerm = Inr lastTerm"
| "newest_term ((t, l) # m) lastTerm =
     (if 1 < length l then Inl (RuntimeError ''More than one leader in term'')
      else newest_term m (if lastTerm < t then t else lastTerm))"

fun leader_rounds :: "reading list list \<Rightarrow> string outcome" where
  "leader_rounds [] = Inl (RuntimeError ''No leader found'')"
| "leader_rounds (rs # rounds) =
     (let m = fold add_leader rs [] in
      bind_outcome (newest_term m 0) (\<lambda>t.
        if t \<noteq> 0 then (case map_of m t of Some (i # _) \<Rightarrow> Inr i | _ \<Rightarrow> Inl OutOfRange)
        else leader_rounds rounds))"

text \<open>The servers as they are read in each of ten rounds.\<close>

definition check1Leader :: "reading list list \<Rightarrow> string outcome" where
  "check1Leader rounds = leader_rounds (take 10 rounds)"

definition terms :: "reading list \<Rightarrow> u64 list" where
  "terms rs = map rd_term rs"

definition checkTerms :: "reading list \<Rightarrow> u64 option" where
  "checkTerms rs =
     (let ts = map rd_term (filter rd_connected rs) in
      if ts = [] then None else if list_all (\<lambda>t. t = hd ts) ts then Some (hd ts) else None)"

definition checkNoLeader :: "reading list \<Rightarrow> bool" where
  "checkNoLeader rs = list_all (\<lambda>x. \<not> (rd_connected x \<and> rd_role x = Leader)) rs"

text \<open>The proxy of a server and its clients share one switch.\<close>

definition fw_disconnect :: "string \<Rightarrow> (string, NetworkConfig) umap \<Rightarrow> (string, NetworkConfig) umap outcome" where
  "fw_disconnect i cs = (case map_of cs i of None \<Rightarrow> Inl OutOfRange | Some c \<Rightarrow> Inr (AList.update i (net_disconnect c) cs))"

definition fw_connect :: "string \<Rightarrow> (string, NetworkConfig) umap \<Rightarrow> (string, NetworkConfig) umap outcome" where
  "fw_connect i cs = (case map_of cs i of None \<Rightarrow> Inl OutOfRange | Some c \<Rightarrow> Inr (AList.update i (net_connect c) cs))"

section \<open>Agreement\<close>

fun count_entries :: "u64 \<Rightarrow> raft list \<Rightarrow> int \<Rightarrow> command option \<Rightarrow> (int \<times> command option) outcome" where
  "count_entries index [] n c = Inr (n, c)"
| "count_entries index (s # ss) n c =
     (if log_lastIndex (mainLog s) \<ge> index
      then case log_at (mainLog s) index of
             None \<Rightarrow> count_entries index ss n c
           | Some e \<Rightarrow> (case c of
               None \<Rightarrow> count_entries index ss (n + 1) (Some (le_command e))
             | Some c0 \<Rightarrow> if \<not> command_eq c0 (le_command e) then Inl (RuntimeError ''Different commands committed at index'')
                 else count_entries index ss (n + 1) c)
      else count_entries index ss n c)"

definition nCommitted :: "u64 \<Rightarrow> raft list \<Rightarrow> (int \<times> command option) outcome" where
  "nCommitted index ss = count_entries index ss 0 None"

text \<open>The search for a server that takes the command; \<open>n\<close> servers are left to try.\<close>

fun try_servers :: "nat \<Rightarrow> command \<Rightarrow> nat \<Rightarrow> (bool \<times> raft) list \<Rightarrow> int option \<times> command \<times> nat \<times> (bool \<times> raft) list" where
  "try_servers 0 c starts rs = (None, c, starts, rs)"
| "try_servers (Suc n) c starts rs =
     (let j = (starts + 1) mod length rs in
      if fst (rs ! j)
      then case start c (snd (rs ! j)) of (ok, c', s') \<Rightarrow>
        let rs' = rs[j := (True, s')]
        in if ok then (Some (c_int (log_lastIndex (mainLog s'))), c', j, rs') else try_servers n c' j rs'
      else try_servers n c j rs)"

text \<open>The polls of two seconds.\<close>

fun await_agreement :: "command \<Rightarrow> int \<Rightarrow> int \<Rightarrow> raft list list \<Rightarrow> bool outcome" where
  "await_agreement c servers index [] = Inr False"
| "await_agreement c servers index (ss # polls) =
     bind_outcome (nCommitted (of_int index) ss) (\<lambda>(nd, cmd1).
       if 0 < nd \<and> servers \<le> nd
       then (case cmd1 of
               None \<Rightarrow> Inl NullPointer
             | Some c1 \<Rightarrow> if command_eq c1 c then Inr True else await_agreement c servers index polls)
       else await_agreement c servers index polls)"

text \<open>
  An attempt of the main loop: the servers with the state of their switch when they are tried,
  and as they are read while the test waits. The list ends after ten seconds.
\<close>

record attempt =
  at_servers :: "(bool \<times> raft) list"
  at_polls :: "raft list list"

fun one_loop :: "command \<Rightarrow> int \<Rightarrow> bool \<Rightarrow> nat \<Rightarrow> attempt list \<Rightarrow> int outcome" where
  "one_loop c servers retry starts [] = Inl (RuntimeError ''Timeout: failed to reach agreement for command'')"
| "one_loop c servers retry starts (a # as) =
     (case try_servers (length (at_servers a)) c starts (at_servers a) of
        (index, c', starts', _) \<Rightarrow>
          (case index of
             None \<Rightarrow> one_loop c' servers retry starts' as
           | Some i \<Rightarrow>
               if i = - 1 then one_loop c' servers retry starts' as
               else bind_outcome (await_agreement c' servers i (at_polls a)) (\<lambda>ok.
                 if ok then Inr i
                 else if \<not> retry then Inl (RuntimeError ''Failed to reach agreement for command'')
                 else one_loop c' servers retry starts' as)))"

definition one :: "command \<Rightarrow> int \<Rightarrow> bool \<Rightarrow> attempt list \<Rightarrow> int outcome" where
  "one c servers retry as = one_loop c servers retry 0 as"

section \<open>One leader\<close>

definition leaders_in :: "reading list \<Rightarrow> u64 \<Rightarrow> string list" where
  "leaders_in rs t = map rd_id (filter (\<lambda>x. rd_connected x \<and> rd_role x = Leader \<and> rd_term x = t) rs)"

lemma leaders_in_simps [simp]:
  "leaders_in [] t = []"
  "leaders_in (x # rs) t = (if rd_connected x \<and> rd_role x = Leader \<and> rd_term x = t then [rd_id x] else []) @ leaders_in rs t"
  by (simp_all add: leaders_in_def)

lemma add_leader_lookup:
  "map_of (add_leader x m) t =
     (if rd_connected x \<and> rd_role x = Leader \<and> rd_term x = t
      then Some ((case map_of m t of None \<Rightarrow> [] | Some l \<Rightarrow> l) @ [rd_id x]) else map_of m t)"
  by (auto simp: add_leader_def update_conv')

lemma add_leader_map:
  "map_of (fold add_leader rs m) t =
     (if leaders_in rs t = [] then map_of m t
      else Some ((case map_of m t of None \<Rightarrow> [] | Some l \<Rightarrow> l) @ leaders_in rs t))"
  by (induction rs arbitrary: m) (simp_all add: add_leader_lookup)

lemma add_leader_distinct: "distinct (map fst m) \<Longrightarrow> distinct (map fst (fold add_leader rs m))"
proof (induction rs arbitrary: m)
  case (Cons x rs)
  have "distinct (map fst (add_leader x m))" using Cons.prems by (simp add: add_leader_def distinct_update)
  from Cons.IH [OF this] show ?case by simp
qed simp

lemma newest_term_ok:
  assumes "\<forall>(t, l) \<in> set m. length l \<le> 1"
  shows "\<exists>t. newest_term m a = Inr t \<and> a \<le> t \<and> (\<forall>(t', l) \<in> set m. t' \<le> t) \<and> (t = a \<or> t \<in> fst ` set m)"
  using assms
proof (induction m arbitrary: a)
  case (Cons x m)
  obtain t l where x: "x = (t, l)" by (cases x)
  from Cons.IH [of "if a < t then t else a"] Cons.prems obtain u where
    u: "newest_term m (if a < t then t else a) = Inr u" "(if a < t then t else a) \<le> u" "\<forall>(t', l) \<in> set m. t' \<le> u"
      "u = (if a < t then t else a) \<or> u \<in> fst ` set m" by auto
  have "newest_term (x # m) a = Inr u" using u(1) Cons.prems x by simp
  moreover have "a \<le> u" "t \<le> u" using u(2) by (auto split: if_splits)
  ultimately show ?case using u(3,4) x by (auto split: if_splits)
qed simp

lemma newest_leader:
  assumes "\<And>t. length (leaders_in rs t) \<le> 1"
  obtains t where "newest_term (fold add_leader rs []) 0 = Inr t"
    "t \<noteq> 0 \<Longrightarrow> \<exists>i. leaders_in rs t = [i] \<and> map_of (fold add_leader rs []) t = Some [i]"
    "\<And>t'. leaders_in rs t' \<noteq> [] \<Longrightarrow> t' \<le> t"
proof -
  let ?m = "fold add_leader rs []"
  have d: "distinct (map fst ?m)" by (rule add_leader_distinct) simp
  have mp: "map_of ?m t = (if leaders_in rs t = [] then None else Some (leaders_in rs t))" for t
    by (simp add: add_leader_map)
  have "length l \<le> 1" if "(t, l) \<in> set ?m" for t l
    using map_of_is_SomeI [OF d that] mp [of t] assms [of t] by (simp split: if_splits)
  then obtain t where t: "newest_term ?m 0 = Inr t" "\<forall>(t', l) \<in> set ?m. t' \<le> t" "t = 0 \<or> t \<in> fst ` set ?m"
    using newest_term_ok [of ?m 0] by auto
  show ?thesis
  proof (rule that [OF t(1)])
    assume "t \<noteq> 0"
    with t(3) have "map_of ?m t \<noteq> None" by (simp add: map_of_eq_None_iff)
    with mp [of t] assms [of t] show "\<exists>i. leaders_in rs t = [i] \<and> map_of ?m t = Some [i]"
      by (cases "leaders_in rs t") (auto split: if_splits)
  next
    fix t' assume "leaders_in rs t' \<noteq> []"
    with mp [of t'] have "(t', leaders_in rs t') \<in> set ?m" using map_of_SomeD by force
    with t(2) show "t' \<le> t" by auto
  qed
qed

lemma leader_rounds_ok:
  assumes "\<And>rs t. rs \<in> set rounds \<Longrightarrow> length (leaders_in rs t) \<le> 1"
  shows "leader_rounds rounds = Inl (RuntimeError ''No leader found'') \<or>
    (\<exists>rs \<in> set rounds. \<exists>i t. leader_rounds rounds = Inr i \<and> leaders_in rs t = [i] \<and> (\<forall>t'. leaders_in rs t' \<noteq> [] \<longrightarrow> t' \<le> t))"
  using assms
proof (induction rounds)
  case (Cons rs rounds)
  obtain t where t: "newest_term (fold add_leader rs []) 0 = Inr t"
    "t \<noteq> 0 \<Longrightarrow> \<exists>i. leaders_in rs t = [i] \<and> map_of (fold add_leader rs []) t = Some [i]"
    "\<And>t'. leaders_in rs t' \<noteq> [] \<Longrightarrow> t' \<le> t"
    using newest_leader [of rs] Cons.prems [of rs] by (metis list.set_intros(1))
  show ?case
  proof (cases "t = 0")
    case True
    with t(1) have "leader_rounds (rs # rounds) = leader_rounds rounds" by (simp add: Let_def)
    with Cons.IH Cons.prems show ?thesis by auto
  next
    case False
    from t(2) [OF False] obtain i where i: "leaders_in rs t = [i]" "map_of (fold add_leader rs []) t = Some [i]" by blast
    with t(1) False have "leader_rounds (rs # rounds) = Inr i" by (simp add: Let_def)
    with i(1) t(3) show ?thesis by auto
  qed
qed simp

lemma leader_unique:
  assumes "cluster_reach load storable ids pol C" and "persister load storable" and "length ids < 256"
    and "i \<in> set ids" and "k \<in> set ids" and "role (nodes C i) = Leader" and "role (nodes C k) = Leader"
    and "currentTerm (nodes C i) = currentTerm (nodes C k)"
  shows "i = k"
proof (rule quorum_unique)
  note ok = cluster_ok_reach [OF assms(1-3)]
  have "(i, currentTerm (nodes C i)) \<in> elected C" "(k, currentTerm (nodes C i)) \<in> elected C"
    using cluster_okD(1) [OF ok assms(4)] cluster_okD(1) [OF ok assms(5)] assms(6-8) by (simp_all add: server_ok_def)
  then show "quorum ids (ballots C) i (currentTerm (nodes C i))" "quorum ids (ballots C) k (currentTerm (nodes C i))"
    using cluster_okD(4) [OF ok] by blast+
  show "c = c'" if "(j, currentTerm (nodes C i), c) \<in> ballots C" "(j, currentTerm (nodes C i), c') \<in> ballots C" for j c c'
    using cluster_okD(2) [OF ok] that by blast
qed

text \<open>All servers of a cluster, each read at one moment, and all at the same.\<close>

definition read_all :: "cluster \<Rightarrow> (string \<Rightarrow> bool) \<Rightarrow> string list \<Rightarrow> reading list" where
  "read_all C conn js =
     map (\<lambda>i. \<lparr>rd_id = i, rd_connected = conn i, rd_role = role (nodes C i), rd_term = currentTerm (nodes C i)\<rparr>) js"

lemma distinct_same:
  assumes "distinct xs" and "\<And>x y. x \<in> set xs \<Longrightarrow> y \<in> set xs \<Longrightarrow> x = y"
  shows "length xs \<le> 1"
proof (cases xs)
  case (Cons x ys)
  have "y = x" if "y \<in> set ys" for y by (rule assms(2)) (use that Cons in simp_all)
  with assms(1) Cons have "ys = []" by (cases ys) auto
  with Cons show ?thesis by simp
qed simp

lemma read_all_one:
  assumes "cluster_reach load storable ids pol C" and "persister load storable" and "length ids < 256"
    and "distinct js" and "set js \<subseteq> set ids"
  shows "length (leaders_in (read_all C conn js) t) \<le> 1"
proof -
  let ?P = "\<lambda>i. conn i \<and> role (nodes C i) = Leader \<and> currentTerm (nodes C i) = t"
  have eq: "leaders_in (read_all C conn js) t = filter ?P js"
    by (induction js) (simp_all add: leaders_in_def read_all_def)
  show ?thesis unfolding eq
  proof (rule distinct_same)
    show "distinct (filter ?P js)" using assms(4) by simp
    show "i = k" if "i \<in> set (filter ?P js)" "k \<in> set (filter ?P js)" for i k
      by (rule leader_unique [OF assms(1-3)]) (use that assms(5) in auto)
  qed
qed

text \<open>
  C26: the check for one leader. If the servers are read at one moment of a run in each round, the
  check never reports two leaders of a term; what it returns is a connected server that leads
  the newest term with a leader.
\<close>

theorem check1Leader_sound:
  assumes "\<And>rs. rs \<in> set rounds \<Longrightarrow>
      \<exists>C conn js. cluster_reach load storable ids pol C \<and> distinct js \<and> set js \<subseteq> set ids \<and> rs = read_all C conn js"
    and "persister load storable" and "length ids < 256"
  shows "check1Leader rounds = Inl (RuntimeError ''No leader found'') \<or>
    (\<exists>rs \<in> set rounds. \<exists>i t. check1Leader rounds = Inr i \<and> leaders_in rs t = [i] \<and> (\<forall>t'. leaders_in rs t' \<noteq> [] \<longrightarrow> t' \<le> t))"
proof -
  have "length (leaders_in rs t) \<le> 1" if "rs \<in> set (take 10 rounds)" for rs t
    using assms(1) [OF in_set_takeD [OF that]] read_all_one [OF _ assms(2,3)] by blast
  from leader_rounds_ok [of "take 10 rounds", OF this] show ?thesis unfolding check1Leader_def by (metis in_set_takeD)
qed

section \<open>Two readings\<close>

text \<open>The run of \<open>RaftSafety\<close> goes on: \<open>b\<close> stands for the next term, \<open>a\<close> votes for it and steps down.\<close>

definition race_candidate :: raft where
  "race_candidate = initVote 9000000000 run_voter"

definition race_arg :: RequestVoteArg where
  "race_arg = mk_RequestVoteArg ''b'' 2 0 0"

definition race_asking :: raft where
  "race_asking = snd (projr (requestVote_begin ''a'' race_candidate))"

definition race_voter :: raft where
  "race_voter = snd (requestVoteHandler 0 0 race_arg run_leader)"

definition race_leader :: raft where
  "race_leader = requestVote_reply 0 ''a'' race_arg (Some \<lparr>rvr_voteGranted = True, rvr_term = 2\<rparr>) race_asking"

lemma race_facts:
  "currentTerm run_voter \<noteq> - 1" "peers race_candidate = [''a'']"
  "requestVote_begin ''a'' race_candidate = Inr (Some race_arg, race_asking)"
  "fst (requestVoteHandler 0 0 race_arg run_leader) = \<lparr>rvr_voteGranted = True, rvr_term = 2\<rparr>"
  "role run_leader = Leader" "currentTerm race_voter = 2" "role race_leader = Leader" "currentTerm race_leader = 2"
  by code_simp+

lemma race_run:
  "\<exists>R R'. run_reach R \<and> node R ''a'' = run_leader \<and> run_step\<^sup>*\<^sup>* R R' \<and> node R' ''a'' = race_voter \<and> node R' ''b'' = race_leader"
proof -
  let ?ids = "[''a'', ''b'']" and ?r = "\<lparr>rvr_voteGranted = True, rvr_term = 2\<rparr>"
  obtain R0 where "run_elected R0" using run_election by blast
  then have r0: "run_reach R0" and R0: "node R0 ''a'' = run_leader" "node R0 ''b'' = run_voter"
    "calls (core R0) (''b'', ''a'') = None" unfolding run_elected_def by blast+
  have go: "run_step\<^sup>*\<^sup>* R0 (R0\<lparr>core := C'\<rparr>)" if "run_step\<^sup>*\<^sup>* R0 (R0\<lparr>core := C\<rparr>)" "vote_step ?ids C C'" for C C'
  proof -
    have "run_step (R0\<lparr>core := C\<rparr>) ((R0\<lparr>core := C\<rparr>)\<lparr>core := C'\<rparr>)" by (rule repl_step.voting) (simp add: that(2))
    with that(1) show ?thesis by (simp add: rtranclp.rtrancl_into_rtrancl)
  qed
  have s0: "run_step\<^sup>*\<^sup>* R0 (R0\<lparr>core := core R0\<rparr>)" by simp
  obtain C1 where s1: "run_step\<^sup>*\<^sup>* R0 (R0\<lparr>core := C1\<rparr>)" and C1: "nodes C1 ''a'' = run_leader" "nodes C1 ''b'' = race_candidate"
      "calls C1 (''b'', ''a'') = None"
    using go [OF s0 vote_step.timeout [of "''b''" ?ids "core R0" race_candidate 9000000000]] R0
    by (simp add: race_facts(1) race_candidate_def)
  obtain C2 where s2: "run_step\<^sup>*\<^sup>* R0 (R0\<lparr>core := C2\<rparr>)" and C2: "nodes C2 ''a'' = run_leader" "nodes C2 ''b'' = race_asking"
      "calls C2 (''b'', ''a'') = Some race_arg" "(''a'', race_arg) \<in> requests C2"
    using go [OF s1 vote_step.call [of "''b''" ?ids "''a''" C1 race_arg race_asking]] C1 by (simp add: race_facts(2,3))
  have h: "requestVoteHandler 0 0 race_arg (nodes C2 ''a'') = (?r, race_voter)"
    using race_facts(4) C2(1) by (simp add: race_voter_def prod_eq_iff)
  obtain C3 where s3: "run_step\<^sup>*\<^sup>* R0 (R0\<lparr>core := C3\<rparr>)" and C3: "nodes C3 ''a'' = race_voter" "nodes C3 ''b'' = race_asking"
      "calls C3 (''b'', ''a'') = Some race_arg" "(''a'', race_arg, ?r) \<in> replies C3"
    using go [OF s2 vote_step.deliver [OF _ C2(4) h, of ?ids]] C2 by simp
  obtain C4 where s4: "run_step\<^sup>*\<^sup>* R0 (R0\<lparr>core := C4\<rparr>)" and C4: "nodes C4 ''a'' = race_voter" "nodes C4 ''b'' = race_leader"
    using go [OF s3 vote_step.return [of "''b''" ?ids C3 "''a''" race_arg "Some ?r" race_leader 0]] C3
    by (simp add: race_leader_def)
  have "node (R0\<lparr>core := C4\<rparr>) ''a'' = race_voter" "node (R0\<lparr>core := C4\<rparr>) ''b'' = race_leader" using C4 by simp_all
  with r0 R0(1) s4 show ?thesis by blast
qed

text \<open>
  The check for one leader can fail without two leaders. It reads the role of a server before
  its term. A server that leads when its role is read and has voted in the next term when its
  term is read counts as a second leader of that term.
\<close>

theorem check1Leader_races:
  "\<exists>R R'. run_reach R \<and> run_step\<^sup>*\<^sup>* R R' \<and> role (node R' ''a'') \<noteq> Leader \<and>
     check1Leader [[\<lparr>rd_id = ''a'', rd_connected = True, rd_role = role (node R ''a''), rd_term = currentTerm (node R' ''a'')\<rparr>,
        \<lparr>rd_id = ''b'', rd_connected = True, rd_role = role (node R' ''b''), rd_term = currentTerm (node R' ''b'')\<rparr>]] =
       Inl (RuntimeError ''More than one leader in term'')"
proof -
  obtain R R' where r: "run_reach R" "run_step\<^sup>*\<^sup>* R R'" and n: "node R ''a'' = run_leader" "node R' ''a'' = race_voter" "node R' ''b'' = race_leader"
    using race_run by blast
  have "role race_voter \<noteq> Leader" by code_simp
  with r n race_facts(5-8) show ?thesis
    by (intro exI [of _ R] exI [of _ R']) (simp add: check1Leader_def add_leader_def)
qed

section \<open>Counting entries\<close>

lemma committed_entry:
  assumes "repl_reach load storable ids pol R" and "persister load storable" and "length ids < 256"
    and "i \<in> set ids" and "j \<in> set ids" and "0 < k" and "k \<le> commitIndex (node R i)" and "k \<le> commitIndex (node R j)"
  obtains e e' where "log_at (mainLog (node R i)) k = Some e" "log_at (mainLog (node R j)) k = Some e'"
    "command_eq (le_command e) (le_command e')" "k \<le> log_lastIndex (mainLog (node R j))"
proof -
  obtain P where inv: "protocol_inv (majority_of ids) eterm P" and sm: "sim ids R P"
    by (rule repl_protocol [OF assms(1-3)])
  note I = node_simD [OF simD(1) [OF sm assms(4)]] and J = node_simD [OF simD(1) [OF sm assms(5)]]
  have k: "unat k \<le> p_commit P i" "unat k \<le> p_commit P j" "0 < unat k"
    using assms(6-8) I(3) J(3) by (simp_all add: word_le_nat_alt word_less_nat_alt)
  have c: "p_commit P l \<le> length (p_log P l)" for l
    using protocol_invD(8) [OF inv] unfolding commit_inv_def committed_prefix_def by blast
  have len: "unat k \<le> length (log_entries (mainLog (node R i)))" "unat k \<le> length (log_entries (mainLog (node R j)))"
    using k c [of i] c [of j] I(5) J(5) by simp_all
  then obtain e e' where e: "log_at (mainLog (node R i)) k = Some e" "log_at (mainLog (node R j)) k = Some e'"
    using k(3) by (simp add: plain_at [OF I(1)] plain_at [OF J(1)])
  have "take (unat k) (wlog (node R i)) = take (unat k) (wlog (node R j))"
    using mj.commits_agree [OF inv k(1,2)] I(2) J(2) by simp
  then have "same_at (mainLog (node R i)) (mainLog (node R j)) k" by (rule same_at_take [OF I(1) J(1)]) simp
  then have "command_eq (le_command e) (le_command e')"
    using e wire_entry_eqD [of e e'] by (simp add: same_at_def entry_eq_def)
  moreover have "k \<le> log_lastIndex (mainLog (node R j))"
    using len(2) plain_fields(2) [OF J(1)] by (simp add: word_le_nat_alt)
  ultimately show ?thesis using that e by blast
qed

lemma count_entries_all:
  assumes "\<forall>s \<in> set ss. k \<le> log_lastIndex (mainLog s) \<and> (\<exists>e. log_at (mainLog s) k = Some e \<and> command_eq c (le_command e))"
  shows "count_entries k ss n (Some c) = Inr (n + int (length ss), Some c)"
  using assms by (induction ss arbitrary: n) auto

text \<open>
  The count of a committed entry. If every server has committed an index, \<open>nCommitted\<close> counts
  all of them and finds one command.
\<close>

theorem nCommitted_committed:
  assumes "repl_reach load storable ids pol R" and "persister load storable" and "length ids < 256"
    and "js \<noteq> []" and "set js \<subseteq> set ids" and "0 < k" and "\<forall>j \<in> set js. k \<le> commitIndex (node R j)"
  shows "\<exists>c. nCommitted k (map (node R) js) = Inr (int (length js), Some c)"
proof -
  obtain i js' where js: "js = i # js'" using assms(4) by (cases js) auto
  have ent: "\<exists>e'. log_at (mainLog (node R j)) k = Some e' \<and> command_eq (le_command e) (le_command e') \<and>
      k \<le> log_lastIndex (mainLog (node R j))" if "j \<in> set js" and e: "log_at (mainLog (node R i)) k = Some e" for j e
  proof -
    have "i \<in> set ids" "j \<in> set ids" "k \<le> commitIndex (node R i)" "k \<le> commitIndex (node R j)"
      using that(1) assms(5,7) js by auto
    from committed_entry [OF assms(1-3) this(1,2) assms(6) this(3,4)] e show ?thesis by (metis option.inject)
  qed
  have i: "i \<in> set ids" "k \<le> commitIndex (node R i)" using assms(5,7) js by auto
  obtain e where e: "log_at (mainLog (node R i)) k = Some e" "k \<le> log_lastIndex (mainLog (node R i))"
    using committed_entry [OF assms(1-3) i(1) i(1) assms(6) i(2) i(2)] by blast
  have "\<forall>s \<in> set (map (node R) js'). k \<le> log_lastIndex (mainLog s) \<and>
      (\<exists>e'. log_at (mainLog s) k = Some e' \<and> command_eq (le_command e) (le_command e'))"
    using ent [OF _ e(1)] js by auto
  from count_entries_all [OF this, of 1] e show ?thesis by (simp add: nCommitted_def js)
qed

text \<open>
  What \<open>nCommitted\<close> counts is not committed. It looks at the log of a server and not at its
  commit index, so that \<open>one\<close> reports agreement on a command that only its leader holds and no
  server has committed.
\<close>

theorem one_before_commit:
  "\<exists>R R'. run_reach R \<and> run_step R R' \<and> commitIndex (node R' ''a'') = 0 \<and> commitIndex (node R' ''b'') = 0 \<and>
     one (NoOp_new zero_uuid) 1 False [\<lparr>at_servers = [(True, node R ''b''), (True, node R ''a'')],
       at_polls = [[node R' ''b'', node R' ''a'']]\<rparr>] = Inr 1"
proof -
  obtain R where "run_elected R" using run_election by blast
  then have r: "run_reach R" and R: "node R ''a'' = run_leader" "node R ''b'' = run_voter"
    unfolding run_elected_def by blast+
  have "start (NoOp_new zero_uuid) (node R ''a'') =
      (fst (start (NoOp_new zero_uuid) run_leader), fst (snd (start (NoOp_new zero_uuid) run_leader)), run_started)"
    by (simp add: R run_started_def)
  then have "run_step R (set_node ''a'' run_started R)"
    by (rule repl_step.submit [rotated 2]) (simp_all add: R run_room)
  moreover have "commitIndex run_started = 0" "commitIndex run_voter = 0"
    "one (NoOp_new zero_uuid) 1 False [\<lparr>at_servers = [(True, run_voter), (True, run_leader)],
       at_polls = [[run_voter, run_started]]\<rparr>] = Inr 1" by code_simp+
  ultimately show ?thesis using r R by (intro exI [of _ R] exI [of _ "set_node ''a'' run_started R"]) (simp add: set_node_def)
qed

section \<open>Witnesses\<close>

theorem check1Leader_sound_witness:
  "\<exists>R. run_reach R \<and> check1Leader [read_all (core R) (\<lambda>_. True) [''a'', ''b'']] = Inr ''a''"
proof -
  obtain R where "run_elected R" using run_election by blast
  then have r: "run_reach R" and R: "node R ''a'' = run_leader" "node R ''b'' = run_voter"
    unfolding run_elected_def by blast+
  let ?rs = "read_all (core R) (\<lambda>_. True) [''a'', ''b'']"
  have f: "role run_leader = Leader" "currentTerm run_leader = 1" "role run_voter = Follower" by code_simp+
  have "\<exists>C conn js. cluster_reach sample_load sample_ok [''a'', ''b''] sample_policy C \<and> distinct js \<and> set js \<subseteq> set [''a'', ''b''] \<and>
      rs = read_all C conn js" if "rs \<in> set [?rs]" for rs
    using that repl_reach_core [OF r] by (intro exI [of _ "core R"] exI [of _ "\<lambda>_. True"] exI [of _ "[''a'', ''b'']"]) simp
  from check1Leader_sound [of "[?rs]", OF this gop.go.persister_axioms] have
    "check1Leader [?rs] = Inl (RuntimeError ''No leader found'') \<or> (\<exists>i t. check1Leader [?rs] = Inr i \<and> leaders_in ?rs t = [i])"
    by auto
  moreover have "check1Leader [?rs] \<noteq> Inl (RuntimeError ''No leader found'')"
    by (simp add: check1Leader_def read_all_def add_leader_def R f)
  moreover have "i = ''a''" if "leaders_in ?rs t = [i]" for i t
    using that by (simp add: read_all_def R f split: if_splits)
  ultimately show ?thesis using r by blast
qed

theorem nCommitted_committed_witness:
  "\<exists>R c. run_reach R \<and> nCommitted 1 (map (node R) [''a'', ''b'']) = Inr (2, Some c)"
proof -
  obtain R where r: "run_reach R" and n: "node R ''a'' = run_sent2" "node R ''b'' = snd (snd run_told)"
    using run_apply by blast
  have "\<exists>c. nCommitted 1 (map (node R) [''a'', ''b'']) = Inr (int (length [''a'', ''b'']), Some c)"
    by (rule nCommitted_committed [OF r gop.go.persister_axioms]) (simp_all add: n run_end)
  with r show ?thesis by auto
qed

end
