(* ===== verification/TestHistory.thy ===== *)
theory TestHistory
  imports TestProxy "HOL-Library.Char_ord" "HOL-Library.List_Lexorder"
begin

text \<open>
  What the key-value tests record and check: the clients of
  \<open>tst/KVTestFramework/KVTestFramework.cpp\<close>, the history of \<open>Porcupine.cpp\<close> and the model that
  the external checker is given in \<open>tst/KVTestFramework/porcupine/main.go\<close>. The search for an
  order of the operations is the checker's; here is what its model says of an order.
\<close>

section \<open>Histories\<close>

record pq_input =
  pi_op :: u8
  pi_key :: string
  pi_value :: string
  pi_version :: u64

record pq_output =
  po_value :: string
  po_version :: u64
  po_error :: ErrorCode

record pq_operation =
  pq_input :: pq_input
  pq_output :: pq_output
  pq_start :: int
  pq_end :: int
  pq_clientId :: int

definition SET_OP :: u8 where
  "SET_OP = 1"

definition GET_OP :: u8 where
  "GET_OP = 2"

type_synonym porcupine = "pq_operation list"

definition pq_append :: "pq_operation \<Rightarrow> porcupine \<Rightarrow> porcupine" where
  "pq_append op p = p @ [op]"

definition pq_size :: "porcupine \<Rightarrow> nat" where
  "pq_size p = length p"

definition pq_read :: "porcupine \<Rightarrow> pq_operation list" where
  "pq_read p = p"

text \<open>What is recorded of a call and its result.\<close>

definition result_code :: "Error + 'a \<Rightarrow> ErrorCode" where
  "result_code r = (case r of Inr _ \<Rightarrow> OK | Inl e \<Rightarrow> err_code e)"

definition recorded_set :: "kv_key \<Rightarrow> kv_value \<Rightarrow> Error + unit \<Rightarrow> pq_input \<times> pq_output" where
  "recorded_set key v r =
     (\<lparr>pi_op = SET_OP, pi_key = key_data key, pi_value = val_data v, pi_version = val_version v\<rparr>,
      \<lparr>po_value = val_data v, po_version = val_version v, po_error = result_code r\<rparr>)"

definition recorded_get :: "kv_key \<Rightarrow> Error + kv_value \<Rightarrow> pq_input \<times> pq_output" where
  "recorded_get key r =
     (\<lparr>pi_op = GET_OP, pi_key = key_data key, pi_value = '''', pi_version = 0\<rparr>,
      \<lparr>po_value = (case r of Inr v \<Rightarrow> val_data v | Inl _ \<Rightarrow> ''''),
       po_version = (case r of Inr v \<Rightarrow> val_version v | Inl _ \<Rightarrow> 0), po_error = result_code r\<rparr>)"

definition operation :: "int \<Rightarrow> int \<Rightarrow> int \<Rightarrow> pq_input \<times> pq_output \<Rightarrow> pq_operation" where
  "operation clientId t0 t1 io =
     \<lparr>pq_input = fst io, pq_output = snd io, pq_start = t0, pq_end = t1, pq_clientId = clientId\<rparr>"

section \<open>The model of the checker\<close>

text \<open>
  Reading the file: versions become signed integers, and one that does not fit is an error. Error
  codes keep their numbers. The operations of other fields are as written.
\<close>

record go_state =
  gs_Value :: string
  gs_Version :: u64

definition parsed :: "pq_operation list \<Rightarrow> pq_operation list option" where
  "parsed ops =
     (if list_all (\<lambda>x. pi_version (pq_input x) < 2 ^ 63 \<and> po_version (pq_output x) < 2 ^ 63) ops then Some ops else None)"

definition Init_state :: go_state where
  "Init_state = \<lparr>gs_Value = '''', gs_Version = 0\<rparr>"

text \<open>The state after an operation that is neither a get nor a set is not looked at.\<close>

definition Step :: "go_state \<Rightarrow> pq_input \<Rightarrow> pq_output \<Rightarrow> bool \<times> go_state" where
  "Step st inp out =
     (if pi_op inp = 2 then (po_value out = gs_Value st, st)
      else if pi_op inp = 1
      then if gs_Version st = pi_version inp
           then (code_number (po_error out) = 0 \<or> code_number (po_error out) = 5,
                 \<lparr>gs_Value = pi_value inp, gs_Version = gs_Version st + 1\<rparr>)
           else (code_number (po_error out) = 4 \<or> code_number (po_error out) = 5, st)
      else (False, st))"

definition Partition :: "pq_operation list \<Rightarrow> pq_operation list list" where
  "Partition history =
     map (\<lambda>k. filter (\<lambda>x. pi_key (pq_input x) = k) history)
       (sort (remdups (map (\<lambda>x. pi_key (pq_input x)) history)))"

text \<open>An order of the operations on one key is legal if every step is.\<close>

fun accepts :: "go_state \<Rightarrow> pq_operation list \<Rightarrow> bool" where
  "accepts st [] = True"
| "accepts st (x # xs) = (case Step st (pq_input x) (pq_output x) of (ok, st') \<Rightarrow> ok \<and> accepts st' xs)"

section \<open>The clients\<close>

text \<open>\<open>clk\<close> is the clock, read twice for each operation.\<close>

definition setJson :: "net \<Rightarrow> (nat \<Rightarrow> int) \<Rightarrow> int \<Rightarrow> kv_key \<Rightarrow> kv_value \<Rightarrow> client \<times> porcupine
    \<Rightarrow> ((Error + unit) \<times> client \<times> porcupine) outcome" where
  "setJson N clk clientId key v kp =
     (case kp of (k, p) \<Rightarrow> bind_outcome (client_set N key v k) (\<lambda>(r, k').
        Inr (r, k', pq_append (operation clientId (clk (2 * length p)) (clk (2 * length p + 1)) (recorded_set key v r)) p)))"

definition getJson :: "net \<Rightarrow> (nat \<Rightarrow> int) \<Rightarrow> int \<Rightarrow> kv_key \<Rightarrow> client \<times> porcupine
    \<Rightarrow> (kv_value \<times> client \<times> porcupine) outcome" where
  "getJson N clk clientId key kp =
     (case kp of (k, p) \<Rightarrow> bind_outcome (client_get N key k) (\<lambda>(r, k').
        Inr (case r of Inr v \<Rightarrow> v | Inl _ \<Rightarrow> mk_value '''' 0, k',
             pq_append (operation clientId (clk (2 * length p)) (clk (2 * length p + 1)) (recorded_get key r)) p)))"

text \<open>Reading an integer from a stream: blanks, a sign, digits; zero if there are none, the nearest value if it is too large.\<close>

definition read_int :: "string \<Rightarrow> int" where
  "read_int s =
     (let t = dropWhile (\<lambda>c. c = CHR '' '') s;
          (neg, u) = (case t of c # cs \<Rightarrow> if c = CHR ''-'' then (True, cs) else if c = CHR ''+'' then (False, cs) else (False, t)
                      | [] \<Rightarrow> (False, []));
          v = (if neg then - digits_value (takeWhile digit u) else digits_value (takeWhile digit u))
      in if takeWhile digit u = [] then 0 else max (- (2 ^ 31)) (min (2 ^ 31 - 1) v))"

definition accepted_code :: "Error + unit \<Rightarrow> bool" where
  "accepted_code status \<longleftrightarrow> (case status of Inr _ \<Rightarrow> True | Inl e \<Rightarrow> err_code e \<in> {VersionMismatch, Maybe})"

text \<open>One turn of the loop of \<open>oneSet\<close>: the result of the function or the version to try next.\<close>

definition oneSet_turn :: "net \<Rightarrow> (nat \<Rightarrow> int) \<Rightarrow> int \<Rightarrow> kv_key \<Rightarrow> string \<Rightarrow> u64 \<Rightarrow> client \<times> porcupine
    \<Rightarrow> (((int \<times> bool) + u64) \<times> client \<times> porcupine) outcome" where
  "oneSet_turn N clk clientId key d version kp =
     bind_outcome (setJson N clk clientId key (mk_value d version) kp) (\<lambda>(status, kp1).
       if \<not> accepted_code status then Inl (RuntimeError ''oneSet: wrong error'')
       else bind_outcome (getJson N clk clientId key kp1) (\<lambda>(v, kp2).
         let ok = (case status of Inr _ \<Rightarrow> True | Inl _ \<Rightarrow> False) in
         if ok \<and> val_version v = version + 1 \<and> (clientId \<noteq> read_int (val_data v) \<or> val_data v \<noteq> d)
         then Inl (RuntimeError ''oneSet: wrong value'')
         else if ok \<or> result_code status = Maybe then Inr (Inl (c_int (val_version v), ok), kp2)
         else Inr (Inr (val_version v), kp2)))"

partial_function (option) oneSet_loop :: "net \<Rightarrow> (nat \<Rightarrow> int) \<Rightarrow> int \<Rightarrow> kv_key \<Rightarrow> string \<Rightarrow> u64 \<Rightarrow> client \<times> porcupine
    \<Rightarrow> ((int \<times> bool) \<times> client \<times> porcupine) outcome option" where
  "oneSet_loop N clk clientId key d version kp =
     (case oneSet_turn N clk clientId key d version kp of
        Inl x \<Rightarrow> Some (Inl x)
      | Inr (Inl r, kp') \<Rightarrow> Some (Inr (r, kp'))
      | Inr (Inr version', kp') \<Rightarrow> oneSet_loop N clk clientId key d version' kp')"

text \<open>The data is made from the first version.\<close>

definition oneSet :: "net \<Rightarrow> (nat \<Rightarrow> int) \<Rightarrow> int \<Rightarrow> kv_key \<Rightarrow> u64 \<Rightarrow> client \<times> porcupine
    \<Rightarrow> ((int \<times> bool) \<times> client \<times> porcupine) outcome option" where
  "oneSet N clk clientId key version kp =
     oneSet_loop N clk clientId key (itoa clientId @ '' '' @ to_string version) version kp"

record ClientResult =
  nOK :: int
  nMaybe :: int

text \<open>
  \<open>draws\<close> has one position for each turn of the loop, until it sees the flag \<open>done\<close>. Versions are
  kept as \<open>int\<close> and passed as \<open>uint64_t\<close>.
\<close>

fun oneClientSet_loop :: "net \<Rightarrow> (nat \<Rightarrow> int) \<Rightarrow> int \<Rightarrow> kv_key list \<Rightarrow> bool \<Rightarrow> nat list \<Rightarrow> (kv_key, int) umap \<Rightarrow> ClientResult
    \<Rightarrow> client \<times> porcupine \<Rightarrow> (ClientResult \<times> client \<times> porcupine) outcome option" where
  "oneClientSet_loop N clk clientId keys randomKeys [] versions res kp = Some (Inr (res, kp))"
| "oneClientSet_loop N clk clientId keys randomKeys (i # draws) versions res kp =
     (let j = (if randomKeys then i else 0) in
      if length keys \<le> j then Some (Inl OutOfRange)
      else
        let key = keys ! j; version = (case map_of versions key of Some n \<Rightarrow> n | None \<Rightarrow> 0) in
        case oneSet N clk clientId key (of_int version) kp of
          None \<Rightarrow> None
        | Some (Inl x) \<Rightarrow> Some (Inl x)
        | Some (Inr ((n, ok), kp')) \<Rightarrow>
            oneClientSet_loop N clk clientId keys randomKeys draws (AList.update key n versions)
              (if ok then res\<lparr>nOK := nOK res + 1\<rparr> else res\<lparr>nMaybe := nMaybe res + 1\<rparr>) kp')"

definition oneClientSet :: "net \<Rightarrow> (nat \<Rightarrow> int) \<Rightarrow> int \<Rightarrow> kv_key list \<Rightarrow> bool \<Rightarrow> nat list \<Rightarrow> client \<times> porcupine
    \<Rightarrow> (ClientResult \<times> client \<times> porcupine) outcome option" where
  "oneClientSet N clk clientId keys randomKeys draws kp =
     oneClientSet_loop N clk clientId keys randomKeys draws (map (\<lambda>k. (k, 0)) (remdups keys)) \<lparr>nOK = 0, nMaybe = 0\<rparr> kp"

definition checkSetConcurrent :: "net \<Rightarrow> (nat \<Rightarrow> int) \<Rightarrow> NetworkConfig \<Rightarrow> kv_key \<Rightarrow> ClientResult list \<Rightarrow> client \<times> porcupine
    \<Rightarrow> (bool \<times> client \<times> porcupine) outcome" where
  "checkSetConcurrent N clk c key results kp =
     bind_outcome (getJson N clk (- 1) key kp) (\<lambda>(v, kp').
       let totalOK = sum_list (map nOK results); totalMaybe = sum_list (map nMaybe results)
       in Inr (if isReliable c then val_version v = of_int totalOK else val_version v \<le> of_int (totalOK + totalMaybe), kp'))"

section \<open>What the model accepts\<close>

text \<open>Operations in the order in which the abstract map executes them, with its answers; \<open>ts\<close> has their clients and times.\<close>

datatype hist_op = HGet kv_key | HSet kv_key kv_value

fun answered :: "kv_map \<Rightarrow> hist_op \<Rightarrow> pq_input \<times> pq_output" where
  "answered m (HGet key) = recorded_get key (case m key of Some v \<Rightarrow> Inr v | None \<Rightarrow> Inl (mk_Error KeyNotFound ''key not found''))"
| "answered m (HSet key v) = recorded_set key v (cas_result m key v)"

fun after :: "kv_map \<Rightarrow> hist_op \<Rightarrow> kv_map" where
  "after m (HGet key) = m"
| "after m (HSet key v) = cas_set m key v"

fun history_of :: "kv_map \<Rightarrow> hist_op list \<Rightarrow> (nat \<Rightarrow> int \<times> int \<times> int) \<Rightarrow> pq_operation list" where
  "history_of m [] ts = []"
| "history_of m (x # xs) ts =
     (case ts 0 of (c, t0, t1) \<Rightarrow> operation c t0 t1 (answered m x)) # history_of (after m x) xs (\<lambda>n. ts (Suc n))"

text \<open>A set that finds no key names the version 0.\<close>

fun fresh_versions :: "kv_map \<Rightarrow> hist_op list \<Rightarrow> bool" where
  "fresh_versions m [] = True"
| "fresh_versions m (HGet key # xs) = fresh_versions m xs"
| "fresh_versions m (HSet key v # xs) = ((m key = None \<longrightarrow> val_version v = 0) \<and> fresh_versions (cas_set m key v) xs)"

definition key_state :: "kv_map \<Rightarrow> string \<Rightarrow> go_state" where
  "key_state m key = (case m (mk_key key) of None \<Rightarrow> Init_state | Some v \<Rightarrow> \<lparr>gs_Value = val_data v, gs_Version = val_version v\<rparr>)"

lemma key_state_version: "gs_Version (key_state m (key_data key)) = current_version m key"
  by (simp add: key_state_def Init_state_def current_version_def split: option.split)

lemma step_get: "Step (key_state m (key_data key)) (fst (answered m (HGet key))) (snd (answered m (HGet key))) =
    (True, key_state m (key_data key))"
  by (simp add: Step_def recorded_get_def GET_OP_def key_state_def Init_state_def split: option.split)

lemma step_set:
  assumes "m key = None \<longrightarrow> val_version v = 0"
  shows "Step (key_state m (key_data key)) (fst (answered m (HSet key v))) (snd (answered m (HSet key v))) =
    (True, key_state (cas_set m key v) (key_data key))"
proof (cases "val_version v = current_version m key")
  case True
  then show ?thesis
    by (simp add: Step_def recorded_set_def SET_OP_def key_state_version cas_result_def result_code_def)
      (simp add: key_state_def cas_set_def mk_value_def)
next
  case False
  with assms obtain cur where "m key = Some cur" by (auto simp: current_version_def split: option.splits)
  with False show ?thesis
    by (simp add: Step_def recorded_set_def SET_OP_def key_state_version cas_result_def result_code_def version_mismatch_def cas_set_def)
qed

fun op_key :: "hist_op \<Rightarrow> string" where
  "op_key (HGet key) = key_data key"
| "op_key (HSet key v) = key_data key"

lemma answered_key: "pi_key (fst (answered m x)) = op_key x"
  by (cases x) (simp_all add: recorded_get_def recorded_set_def)

lemma other_key: "op_key x \<noteq> k \<Longrightarrow> key_state (after m x) k = key_state m k"
  by (cases x) (auto simp: key_state_def cas_set_def mk_key_def)

lemma accepts_step:
  assumes "fresh_versions m (x # xs)" and "accepts (key_state (after m x) k) ys"
  shows "accepts (key_state m k) (if op_key x = k then operation c t0 t1 (answered m x) # ys else ys)"
proof (cases "op_key x = k")
  case True
  have "Step (key_state m k) (fst (answered m x)) (snd (answered m x)) = (True, key_state (after m x) k)"
  proof (cases x)
    case (HGet key)
    with True step_get [of m key] show ?thesis by simp
  next
    case (HSet key v)
    with True assms(1) step_set [of m key v] show ?thesis by simp
  qed
  with True assms(2) show ?thesis by (simp add: operation_def)
next
  case False
  with assms(2) other_key [OF False] show ?thesis by simp
qed

lemma accepts_history:
  assumes "fresh_versions m xs"
  shows "accepts (key_state m k) (filter (\<lambda>x. pi_key (pq_input x) = k) (history_of m xs ts))"
  using assms
proof (induction m xs ts rule: history_of.induct)
  case (2 m x xs ts)
  obtain c t0 t1 where ts: "ts 0 = (c, t0, t1)" by (cases "ts 0")
  from 2 have "fresh_versions (after m x) xs" by (cases x) simp_all
  from accepts_step [OF 2(2) 2(1) [OF this], of c t0 t1] show ?case by (simp add: ts operation_def answered_key split: if_splits)
qed simp


text \<open>
  What the checker calls illegal although the store did nothing wrong. A set that names a
  version for an absent key is answered \<open>KeyNotFound\<close>, where the model allows only a version
  mismatch; and a get that failed is recorded as the empty value, which the model rejects
  whenever the key has another value.
\<close>

theorem checker_rejects_errors:
  "(m key = None \<and> val_version v \<noteq> 0 \<longrightarrow>
     \<not> fst (Step (key_state m (key_data key)) (fst (answered m (HSet key v))) (snd (answered m (HSet key v))))) \<and>
   (m key = Some u \<and> val_data u \<noteq> '''' \<longrightarrow>
     \<not> fst (Step (key_state m (key_data key)) (fst (recorded_get key (Inl e))) (snd (recorded_get key (Inl e)))))"
proof (intro conjI impI)
  assume "m key = None \<and> val_version v \<noteq> 0"
  then show "\<not> fst (Step (key_state m (key_data key)) (fst (answered m (HSet key v))) (snd (answered m (HSet key v))))"
    by (simp add: Step_def recorded_set_def SET_OP_def key_state_version current_version_def cas_result_def
        result_code_def missing_key_def)
next
  assume "m key = Some u \<and> val_data u \<noteq> ''''"
  then show "\<not> fst (Step (key_state m (key_data key)) (fst (recorded_get key (Inl e))) (snd (recorded_get key (Inl e))))"
    by (auto simp: Step_def recorded_get_def GET_OP_def key_state_def)
qed

section \<open>What the clients count\<close>

definition sets_with :: "ErrorCode \<Rightarrow> porcupine \<Rightarrow> int" where
  "sets_with c p = int (length (filter (\<lambda>x. pi_op (pq_input x) = SET_OP \<and> po_error (pq_output x) = c) p))"

lemma sets_with_append: "sets_with c (p @ q) = sets_with c p + sets_with c q"
  by (simp add: sets_with_def)

text \<open>The operations that \<open>ok\<close> adds to the history.\<close>

definition tallied :: "bool \<Rightarrow> porcupine \<Rightarrow> porcupine \<Rightarrow> bool" where
  "tallied ok p p' \<longleftrightarrow> sets_with OK p' = sets_with OK p + (if ok then 1 else 0) \<and>
     sets_with Maybe p' = sets_with Maybe p + (if ok then 0 else 1)"

lemma setJson_history:
  assumes "setJson N clk c key v (k, p) = Inr (r, k', p')"
  shows "sets_with x p' = sets_with x p + (if result_code r = x then 1 else 0)"
  using assms
  by (auto simp: setJson_def bind_outcome_Inr pq_append_def sets_with_append)
    (simp_all add: sets_with_def operation_def recorded_set_def)

lemma getJson_history:
  assumes "getJson N clk c key (k, p) = Inr (v, k', p')"
  shows "sets_with x p' = sets_with x p"
  using assms
  by (auto simp: getJson_def bind_outcome_Inr pq_append_def sets_with_append)
    (simp_all add: sets_with_def operation_def recorded_get_def SET_OP_def GET_OP_def)

lemma oneSet_turn_history:
  assumes "oneSet_turn N clk c key d version (k, p) = Inr (r, k', p')"
  shows "case r of Inl (n, ok) \<Rightarrow> tallied ok p p' | Inr _ \<Rightarrow> \<forall>x \<in> {OK, Maybe}. sets_with x p' = sets_with x p"
proof -
  from assms obtain status k1 p1 v where
    s: "setJson N clk c key (mk_value d version) (k, p) = Inr (status, k1, p1)" "accepted_code status" and
    g: "getJson N clk c key (k1, p1) = Inr (v, k', p')" and
    r: "r = (if (case status of Inr _ \<Rightarrow> True | Inl _ \<Rightarrow> False) \<or> result_code status = Maybe
      then Inl (c_int (val_version v), case status of Inr _ \<Rightarrow> True | Inl _ \<Rightarrow> False) else Inr (val_version v))"
    by (auto simp: oneSet_turn_def bind_outcome_Inr Let_def split: if_splits)
  from setJson_history [OF s(1)] getJson_history [OF g] s(2) show ?thesis
    by (auto simp: r tallied_def accepted_code_def result_code_def split: sum.splits)
qed

lemma oneSet_history:
  assumes "oneSet N clk c key version (k, p) = Some (Inr ((n, ok), k', p'))"
  shows "tallied ok p p'"
proof -
  let ?P = "\<lambda>N clk c key d version kp (r :: ((int \<times> bool) \<times> client \<times> porcupine) outcome).
    \<forall>n ok k' p'. r = Inr ((n, ok), k', p') \<longrightarrow> tallied ok (snd kp) p'"
  have "?P N clk c key (itoa c @ '' '' @ to_string version) version (k, p) (Inr ((n, ok), k', p'))"
  proof (rule oneSet_loop.raw_induct [where P = ?P, OF _ assms [unfolded oneSet_def]])
    fix loop N clk c key d version kp and y :: "((int \<times> bool) \<times> client \<times> porcupine) outcome"
    assume IH: "\<And>N clk c key d version kp y. loop N clk c key d version kp = Some y \<Longrightarrow> ?P N clk c key d version kp y"
      and y: "(case oneSet_turn N clk c key d version kp of Inl x \<Rightarrow> Some (Inl x) | Inr (Inl r, kp') \<Rightarrow> Some (Inr (r, kp'))
        | Inr (Inr version', kp') \<Rightarrow> loop N clk c key d version' kp') = Some y"
    obtain k0 p0 where kp: "kp = (k0, p0)" by (cases kp)
    show "?P N clk c key d version kp y"
    proof (cases "oneSet_turn N clk c key d version kp")
      case (Inr t)
      obtain r k1 p1 where t: "t = (r, k1, p1)" by (cases t)
      with oneSet_turn_history [of N clk c key d version k0 p0 r k1 p1] Inr kp have
        h: "case r of Inl (n, ok) \<Rightarrow> tallied ok p0 p1 | Inr _ \<Rightarrow> \<forall>x \<in> {OK, Maybe}. sets_with x p1 = sets_with x p0" by simp
      show ?thesis
      proof (cases r)
        case (Inl a)
        with y Inr t h kp show ?thesis by auto
      next
        case (Inr v')
        with y \<open>oneSet_turn N clk c key d version kp = Inr t\<close> t have "loop N clk c key d v' (k1, p1) = Some y" by simp
        from IH [OF this] h Inr show ?thesis by (simp add: tallied_def kp)
      qed
    qed (use y in auto)
  qed
  then show ?thesis by simp
qed

lemma oneClientSet_loop_history:
  assumes "oneClientSet_loop N clk c keys rk draws versions res (k, p) = Some (Inr (res', k', p'))"
  shows "nOK res' - nOK res = sets_with OK p' - sets_with OK p \<and> nMaybe res' - nMaybe res = sets_with Maybe p' - sets_with Maybe p"
  using assms
proof (induction draws arbitrary: versions res k p)
  case (Cons i draws)
  let ?j = "if rk then i else 0"
  let ?version = "of_int (case map_of versions (keys ! ?j) of Some n \<Rightarrow> n | None \<Rightarrow> 0) :: u64"
  from Cons.prems obtain n ok k1 p1 where
    s: "oneSet N clk c (keys ! ?j) ?version (k, p) = Some (Inr ((n, ok), k1, p1))"
    by (auto simp: Let_def split: if_splits option.splits sum.splits prod.splits)
  with Cons.prems have l: "oneClientSet_loop N clk c keys rk draws (AList.update (keys ! ?j) n versions)
      (if ok then res\<lparr>nOK := nOK res + 1\<rparr> else res\<lparr>nMaybe := nMaybe res + 1\<rparr>) (k1, p1) = Some (Inr (res', k', p'))"
    by (simp add: Let_def split: if_splits)
  from s have "tallied ok p p1" using oneSet_history by blast
  with Cons.IH [OF l] show ?case by (auto simp: tallied_def split: if_splits)
qed simp

text \<open>
  The counts of a test client are those of its history. When \<open>oneClientSet\<close> returns, \<open>nOK\<close> and
  \<open>nMaybe\<close> are the numbers of sets with these outcomes that it has added to the history.
\<close>

theorem oneClientSet_counts:
  assumes "oneClientSet N clk c keys rk draws (k, p) = Some (Inr (res, k', p'))"
  shows "nOK res = sets_with OK p' - sets_with OK p \<and> nMaybe res = sets_with Maybe p' - sets_with Maybe p"
  using oneClientSet_loop_history [OF assms [unfolded oneClientSet_def]] by simp

section \<open>Witnesses\<close>


theorem checker_rejects_errors_witness:
  "\<not> fst (Step Init_state (fst (answered Map.empty (HSet (mk_key ''k'') (mk_value ''a'' 1))))
      (snd (answered Map.empty (HSet (mk_key ''k'') (mk_value ''a'' 1))))) \<and>
   \<not> fst (Step \<lparr>gs_Value = ''a'', gs_Version = 1\<rparr> (fst (recorded_get (mk_key ''k'') (Inl (mk_Error Timeout ''late''))))
      (snd (recorded_get (mk_key ''k'') (Inl (mk_Error Timeout ''late'')))))"
  using checker_rejects_errors [of Map.empty "mk_key ''k''" "mk_value ''a'' 1"]
    checker_rejects_errors [of "[mk_key ''k'' \<mapsto> mk_value ''a'' 1]" "mk_key ''k''" _ "mk_value ''a'' 1" "mk_Error Timeout ''late''"]
  by (simp add: key_state_def mk_key_def mk_value_def)

definition set_then_get :: net where
  "set_then_get = sample_net (\<lambda>_. Status_OK) (\<lambda>n. if n = 0 then RpSet else RpGet \<lparr>pv_data = ''3 0'', pv_version = 1\<rparr>)"

lemma quick_turn:
  "\<not> isl (oneSet_turn set_then_get int 3 (mk_key ''k'') ''3 0'' 0 (client_new sample_config, []))"
  "fst (projr (oneSet_turn set_then_get int 3 (mk_key ''k'') ''3 0'' 0 (client_new sample_config, []))) = Inl (1, True)"
  by code_simp+

theorem oneClientSet_counts_witness:
  "\<exists>res k' p'. oneClientSet set_then_get int 3 [mk_key ''k''] False [0] (client_new sample_config, []) = Some (Inr (res, k', p')) \<and>
     nOK res = 1 \<and> nMaybe res = sets_with Maybe p'"
proof -
  from quick_turn obtain k' p' where t: "oneSet_turn set_then_get int 3 (mk_key ''k'') ''3 0'' 0 (client_new sample_config, []) =
      Inr (Inl (1, True), k', p')"
    by (metis prod.collapse sum.collapse(2))
  have d: "itoa 3 @ '' '' @ to_string 0 = ''3 0''" by code_simp
  from t have "oneSet set_then_get int 3 (mk_key ''k'') 0 (client_new sample_config, []) = Some (Inr ((1, True), k', p'))"
    unfolding oneSet_def d by (subst oneSet_loop.simps) simp
  then have r: "oneClientSet set_then_get int 3 [mk_key ''k''] False [0] (client_new sample_config, []) =
      Some (Inr (\<lparr>nOK = 1, nMaybe = 0\<rparr>, k', p'))" by (simp add: oneClientSet_def)
  from oneClientSet_counts [OF r] r show ?thesis by (auto simp: sets_with_def)
qed

end
