(* ===== verification/DistLock.thy ===== *)
theory DistLock
  imports KvClient
begin

text \<open>
  \<open>src/lock/Lock.cpp\<close>: a lock on a key of the store. \<open>acquire\<close> creates the key with a random
  token, \<open>release\<close> moves its value from version 1 to version 2 and erases it. The first part is
  the code over the client of \<open>KvClient\<close>; the second part is the protocol of many clients on one
  store as a step relation, for the question whether two of them can hold the lock.
\<close>

section \<open>The operations\<close>

record Lock =
  lockKey :: kv_key
  lockValue :: kv_value

definition Lock_new :: "kv_key \<Rightarrow> Lock" where
  "Lock_new key = \<lparr>lockKey = key, lockValue = mk_value '''' 1000\<rparr>"

text \<open>\<open>dist\<close> gives the draws for the random token.\<close>

definition Lock_acquire :: "net \<Rightarrow> (nat \<Rightarrow> nat) \<Rightarrow> Lock \<Rightarrow> client \<Rightarrow> (Lock \<times> client) outcome option" where
  "Lock_acquire N dist l k =
     (let c = zdb_generate_random_alphanumeric_string 16 dist in
      Option.bind (waitSet N (lockKey l) (mk_value c 0) k) (\<lambda>r.
        Some (bind_outcome r (\<lambda>k'. Inr (l\<lparr>lockValue := mk_value c 1\<rparr>, k')))))"

partial_function (option) release_loop :: "net \<Rightarrow> kv_key \<Rightarrow> kv_value \<Rightarrow> client \<Rightarrow> client outcome option" where
  "release_loop N key v k =
     (case client_erase N key k of
        Inl x \<Rightarrow> Some (Inl x)
      | Inr (t, k1) \<Rightarrow>
          (case t of
             Inr _ \<Rightarrow> Some (Inr k1)
           | Inl e \<Rightarrow>
               Option.bind (waitNotFound N key k1) (\<lambda>g.
                 case g of
                   Inl x \<Rightarrow> Some (Inl x)
                 | Inr (notFound, k2) \<Rightarrow>
                     if notFound then Some (Inr k2)
                     else Option.bind (waitGet N key (mk_value (val_data v) 2) k2) (\<lambda>h.
                       case h of
                         Inl x \<Rightarrow> Some (Inl x)
                       | Inr (same, k3) \<Rightarrow> if \<not> same then Some (Inr k3) else release_loop N key v k3))))"

definition Lock_release :: "net \<Rightarrow> Lock \<Rightarrow> client \<Rightarrow> client outcome option" where
  "Lock_release N l k =
     Option.bind (waitGet_version N (lockKey l) 1 k) (\<lambda>g.
       case g of
         Inl x \<Rightarrow> Some (Inl x)
       | Inr (v, k1) \<Rightarrow>
           if \<not> Value_eq v (lockValue l) then Some (Inr k1)
           else Option.bind (waitSet N (lockKey l) v k1) (\<lambda>s.
             case s of
               Inl x \<Rightarrow> Some (Inl x)
             | Inr k2 \<Rightarrow> release_loop N (lockKey l) v k2))"

section \<open>Many clients\<close>

text \<open>
  Where a client is in \<open>acquire\<close> or \<open>release\<close>: in \<open>set\<close> or the \<open>waitGet\<close> after it
  (\<open>Setting\<close>, \<open>Checking\<close>); between the two functions (\<open>Held\<close>); in the \<open>waitGet\<close> at the start
  of \<open>release\<close> (\<open>Reading\<close>); in its \<open>set\<close> or the \<open>waitGet\<close> after it (\<open>Marking\<close>, with whether
  the set was accepted, \<open>MarkChecking\<close>); in \<open>erase\<close> before and after its execution
  (\<open>Erasing\<close>, \<open>Erased\<close>); in \<open>waitNotFound\<close> and the \<open>waitGet\<close> after it.
\<close>

datatype lock_pc =
    Out
  | Setting
  | Checking
  | Held
  | Reading
  | Marking bool
  | MarkChecking
  | Erasing
  | Erased
  | NotFoundChecking
  | ValueChecking

text \<open>
  \<open>sent0\<close> are the tokens of all sets of version 0 that were ever sent, \<open>taken\<close> those that were
  accepted, \<open>owner\<close> the one that created the key last. The last two are history; no step reads
  \<open>owner\<close>, and \<open>taken\<close> only tells which sets may report success.
\<close>

record lock_sys =
  store :: kv_map
  pcs :: "nat \<Rightarrow> lock_pc"
  toks :: "nat \<Rightarrow> string"
  sent0 :: "string set"
  taken :: "string set"
  owner :: "string option"

definition lock_init :: lock_sys where
  "lock_init = \<lparr>store = Map.empty, pcs = (\<lambda>_. Out), toks = (\<lambda>_. ''''), sent0 = {}, taken = {}, owner = None\<rparr>"

abbreviation goto :: "nat \<Rightarrow> lock_pc \<Rightarrow> lock_sys \<Rightarrow> lock_sys" where
  "goto i p s \<equiv> s\<lparr>pcs := (pcs s)(i := p)\<rparr>"

text \<open>
  The steps. A set of version 0 may be executed at any time after it was sent, any number of
  times (\<open>deliver\<close>). A \<open>get\<close> is one step at the moment it is executed. A set of version 1 is
  executed while its client is in that call, an erase exactly once while its client is in that
  call; with \<open>dup\<close>, an erase may be executed again before its call returns, as happens when
  the client sends it again because the first reply was lost.
\<close>

inductive lock_step :: "bool \<Rightarrow> kv_key \<Rightarrow> lock_sys \<Rightarrow> lock_sys \<Rightarrow> bool" for dup key where
  acquire: "pcs s i = Out \<Longrightarrow> c \<notin> sent0 s \<Longrightarrow>
    lock_step dup key s ((goto i Setting s)\<lparr>toks := (toks s)(i := c), sent0 := insert c (sent0 s)\<rparr>)"
| deliver: "c \<in> sent0 s \<Longrightarrow> cas_result (store s) key (mk_value c 0) = Inr () \<Longrightarrow>
    lock_step dup key s (s\<lparr>store := cas_set (store s) key (mk_value c 0), taken := insert c (taken s), owner := Some c\<rparr>)"
| set_ok: "pcs s i = Setting \<Longrightarrow> toks s i \<in> taken s \<Longrightarrow> lock_step dup key s (goto i Held s)"
| set_failed: "pcs s i = Setting \<Longrightarrow> lock_step dup key s (goto i Checking s)"
| check_ok: "pcs s i = Checking \<Longrightarrow> store s key = Some (mk_value (toks s i) 1) \<Longrightarrow> lock_step dup key s (goto i Held s)"
| check_no: "pcs s i = Checking \<Longrightarrow> store s key \<noteq> Some (mk_value (toks s i) 1) \<Longrightarrow> lock_step dup key s (goto i Setting s)"
| release: "pcs s i = Held \<Longrightarrow> lock_step dup key s (goto i Reading s)"
| read_own: "pcs s i = Reading \<Longrightarrow> store s key = Some (mk_value (toks s i) 1) \<Longrightarrow> lock_step dup key s (goto i (Marking False) s)"
| read_other: "pcs s i = Reading \<Longrightarrow> store s key = Some (mk_value d 1) \<Longrightarrow> d \<noteq> toks s i \<Longrightarrow> lock_step dup key s (goto i Out s)"
| mark: "pcs s i = Marking b \<Longrightarrow> cas_result (store s) key (mk_value (toks s i) 1) = Inr () \<Longrightarrow>
    lock_step dup key s ((goto i (Marking True) s)\<lparr>store := cas_set (store s) key (mk_value (toks s i) 1)\<rparr>)"
| mark_ok: "pcs s i = Marking True \<Longrightarrow> lock_step dup key s (goto i Erasing s)"
| mark_failed: "pcs s i = Marking b \<Longrightarrow> lock_step dup key s (goto i MarkChecking s)"
| mark_found: "pcs s i = MarkChecking \<Longrightarrow> store s key = Some (mk_value (toks s i) 2) \<Longrightarrow> lock_step dup key s (goto i Erasing s)"
| mark_retry: "pcs s i = MarkChecking \<Longrightarrow> store s key \<noteq> Some (mk_value (toks s i) 2) \<Longrightarrow> lock_step dup key s (goto i (Marking False) s)"
| erase: "pcs s i = Erasing \<Longrightarrow> lock_step dup key s ((goto i Erased s)\<lparr>store := (store s)(key := None), owner := None\<rparr>)"
| erase_again: "dup \<Longrightarrow> pcs s i = Erased \<Longrightarrow> lock_step dup key s (s\<lparr>store := (store s)(key := None), owner := None\<rparr>)"
| erase_ok: "pcs s i = Erased \<Longrightarrow> lock_step dup key s (goto i Out s)"
| erase_failed: "pcs s i = Erasing \<or> pcs s i = Erased \<Longrightarrow> lock_step dup key s (goto i NotFoundChecking s)"
| not_found: "pcs s i = NotFoundChecking \<Longrightarrow> store s key = None \<Longrightarrow> lock_step dup key s (goto i Out s)"
| still_found: "pcs s i = NotFoundChecking \<Longrightarrow> store s key \<noteq> None \<Longrightarrow> lock_step dup key s (goto i ValueChecking s)"
| not_mine: "pcs s i = ValueChecking \<Longrightarrow> store s key \<noteq> Some (mk_value (toks s i) 2) \<Longrightarrow> lock_step dup key s (goto i Out s)"
| still_mine: "pcs s i = ValueChecking \<Longrightarrow> store s key = Some (mk_value (toks s i) 2) \<Longrightarrow> lock_step dup key s (goto i Erasing s)"

inductive lock_reach :: "bool \<Rightarrow> kv_key \<Rightarrow> lock_sys \<Rightarrow> bool" for dup key where
  start: "lock_reach dup key lock_init"
| step: "lock_reach dup key s \<Longrightarrow> lock_step dup key s s' \<Longrightarrow> lock_reach dup key s'"

section \<open>Mutual exclusion\<close>

text \<open>The places at which a client relies on being the owner.\<close>

definition relies :: "lock_pc \<Rightarrow> bool" where
  "relies p \<longleftrightarrow> p \<in> {Held, Reading, Marking True, Marking False, MarkChecking, Erasing}"

definition lock_inv :: "kv_key \<Rightarrow> lock_sys \<Rightarrow> bool" where
  "lock_inv key s \<longleftrightarrow>
     (store s key = None \<longleftrightarrow> owner s = None) \<and>
     (\<forall>v. store s key = Some v \<longrightarrow> owner s = Some (val_data v) \<and> val_version v \<in> {1, 2}) \<and>
     taken s \<subseteq> sent0 s \<and>
     (\<forall>i. pcs s i \<noteq> Out \<longrightarrow> toks s i \<in> sent0 s) \<and>
     (\<forall>i j. pcs s i \<noteq> Out \<longrightarrow> pcs s j \<noteq> Out \<longrightarrow> toks s i = toks s j \<longrightarrow> i = j) \<and>
     (\<forall>i. relies (pcs s i) \<longrightarrow> owner s = Some (toks s i)) \<and>
     (\<forall>i. pcs s i \<in> {Setting, Checking} \<longrightarrow> toks s i \<in> taken s \<longrightarrow> owner s = Some (toks s i))"

lemma lock_inv_parts:
  assumes "lock_inv key s"
  shows "store s key = None \<longleftrightarrow> owner s = None"
    and "\<And>v. store s key = Some v \<Longrightarrow> owner s = Some (val_data v) \<and> val_version v \<in> {1, 2}"
    and "taken s \<subseteq> sent0 s" and "\<And>i. pcs s i \<noteq> Out \<Longrightarrow> toks s i \<in> sent0 s"
    and "\<And>i j. pcs s i \<noteq> Out \<Longrightarrow> pcs s j \<noteq> Out \<Longrightarrow> toks s i = toks s j \<Longrightarrow> i = j"
    and "\<And>i. relies (pcs s i) \<Longrightarrow> owner s = Some (toks s i)"
    and "\<And>i. pcs s i \<in> {Setting, Checking} \<Longrightarrow> toks s i \<in> taken s \<Longrightarrow> owner s = Some (toks s i)"
  using assms unfolding lock_inv_def by blast+

lemma lock_inv_goto:
  assumes "lock_inv key s" and "pcs s i \<noteq> Out" and "relies p \<Longrightarrow> owner s = Some (toks s i)"
    and "p \<in> {Setting, Checking} \<Longrightarrow> toks s i \<in> taken s \<Longrightarrow> owner s = Some (toks s i)"
  shows "lock_inv key (goto i p s)"
  using assms lock_inv_parts [OF assms(1)] unfolding lock_inv_def
  by (simp add: fun_upd_def) blast

text \<open>Two clients that rely on being the owner are the same.\<close>

lemma relies_unique:
  assumes "lock_inv key s" and "relies (pcs s i)" and "relies (pcs s j)"
  shows "i = j"
proof -
  have "Some (toks s i) = Some (toks s j)"
    using lock_inv_parts(6) [OF assms(1) assms(2)] lock_inv_parts(6) [OF assms(1) assms(3)] by simp
  then have "toks s i = toks s j" by simp
  moreover have "pcs s i \<noteq> Out" "pcs s j \<noteq> Out" using assms(2,3) by (auto simp: relies_def)
  ultimately show ?thesis using lock_inv_parts(5) [OF assms(1)] by blast
qed

lemma lock_inv_acquire:
  assumes "lock_inv key s" and "pcs s i = Out" and "c \<notin> sent0 s"
  shows "lock_inv key ((goto i Setting s)\<lparr>toks := (toks s)(i := c), sent0 := insert c (sent0 s)\<rparr>)"
proof -
  note I = lock_inv_parts [OF assms(1)]
  have "c \<notin> taken s" using I(3) assms(3) by blast
  moreover have "toks s j \<noteq> c" if "pcs s j \<noteq> Out" for j using I(4) [OF that] assms(3) by blast
  ultimately show ?thesis
    using I assms(2) unfolding lock_inv_def by (auto simp: relies_def)
qed

lemma cas_result_ok: "cas_result m k v = Inr () \<longleftrightarrow> current_version m k = val_version v"
  by (auto simp: cas_result_def split: option.splits)

lemma lock_inv_deliver:
  assumes "lock_inv key s" and "c \<in> sent0 s" and "cas_result (store s) key (mk_value c 0) = Inr ()"
  shows "lock_inv key (s\<lparr>store := cas_set (store s) key (mk_value c 0), taken := insert c (taken s), owner := Some c\<rparr>)"
proof -
  note I = lock_inv_parts [OF assms(1)]
  have "current_version (store s) key = 0" using assms(3) by (simp add: cas_result_ok mk_value_def)
  then have none: "store s key = None" "owner s = None"
    using I(1,2) by (force simp: current_version_def split: option.splits)+
  then have new: "cas_set (store s) key (mk_value c 0) = (store s)(key \<mapsto> mk_value c 1)"
    by (simp add: cas_set_def current_version_def mk_value_def)
  have "\<not> relies (pcs s j)" for j using I(6) [of j] none by auto
  moreover have "toks s j \<notin> taken s" if "pcs s j \<in> {Setting, Checking}" for j using I(7) [OF that] none by auto
  ultimately show ?thesis
    using I(3-5) assms(2) unfolding lock_inv_def new by (auto simp: mk_value_def)
qed

lemma lock_inv_store:
  "lock_inv key s \<Longrightarrow> owner s = Some d \<Longrightarrow> lock_inv key (s\<lparr>store := (store s)(key \<mapsto> mk_value d 2)\<rparr>)"
  unfolding lock_inv_def by (simp add: mk_value_def)

lemma lock_inv_mark:
  assumes "lock_inv key s" and "pcs s i = Marking b" and "cas_result (store s) key (mk_value (toks s i) 1) = Inr ()"
  shows "lock_inv key ((goto i (Marking True) s)\<lparr>store := cas_set (store s) key (mk_value (toks s i) 1)\<rparr>)"
proof -
  have r: "relies (pcs s i)" "pcs s i \<noteq> Out" using assms(2) by (cases b; simp add: relies_def)+
  have ow: "owner s = Some (toks s i)" by (rule lock_inv_parts(6) [OF assms(1) r(1)])
  have new: "cas_set (store s) key (mk_value (toks s i) 1) = (store s)(key \<mapsto> mk_value (toks s i) 2)"
    using assms(3) by (simp add: cas_result_ok cas_set_def mk_value_def)
  have "lock_inv key (goto i (Marking True) s)" by (rule lock_inv_goto [OF assms(1) r(2)]) (use ow in auto)
  from lock_inv_store [OF this, of "toks s i"] ow show ?thesis unfolding new by simp
qed

lemma lock_inv_erase:
  assumes "lock_inv key s" and "pcs s i = Erasing"
  shows "lock_inv key ((goto i Erased s)\<lparr>store := (store s)(key := None), owner := None\<rparr>)"
proof -
  note I = lock_inv_parts [OF assms(1)]
  have ri: "relies (pcs s i)" using assms(2) by (simp add: relies_def)
  have "\<not> relies (pcs s j)" if "j \<noteq> i" for j using relies_unique [OF assms(1) ri] that by blast
  moreover have "toks s j \<notin> taken s" if "pcs s j \<in> {Setting, Checking}" for j
  proof
    assume "toks s j \<in> taken s"
    with I(7) [OF that] I(6) [OF ri] have "toks s j = toks s i" by simp
    with I(5) [of j i] that assms(2) have "j = i" by auto
    with that assms(2) show False by simp
  qed
  ultimately show ?thesis
    using I(3-5) assms(2) unfolding lock_inv_def by (auto simp: relies_def)
qed

text \<open>A step of one client that does not touch the store.\<close>

lemma lock_inv_move:
  assumes "lock_inv key s" and "pcs s i \<noteq> Out"
    and "owner s = Some (toks s i) \<or> p \<in> {Out, NotFoundChecking, ValueChecking} \<or>
      pcs s i \<in> {Setting, Checking} \<and> p \<in> {Setting, Checking}"
  shows "lock_inv key (goto i p s)"
  using lock_inv_parts(7) [OF assms(1), of i] assms(3)
  by (intro lock_inv_goto [OF assms(1,2)]) (auto simp: relies_def)

lemma lock_inv_value:
  assumes "lock_inv key s" and "pcs s i \<noteq> Out" and "store s key = Some (mk_value (toks s i) n)"
  shows "lock_inv key (goto i p s)"
  using lock_inv_parts(2) [OF assms(1,3)] by (intro lock_inv_move [OF assms(1,2)]) (simp add: mk_value_def)

lemma lock_inv_relies:
  assumes "lock_inv key s" and "relies (pcs s i)"
  shows "lock_inv key (goto i p s)"
proof (rule lock_inv_move [OF assms(1)])
  show "pcs s i \<noteq> Out" using assms(2) by (auto simp: relies_def)
  show "owner s = Some (toks s i) \<or> p \<in> {Out, NotFoundChecking, ValueChecking} \<or>
      pcs s i \<in> {Setting, Checking} \<and> p \<in> {Setting, Checking}" using lock_inv_parts(6) [OF assms] by simp
qed

lemma relies_marking [simp]: "relies (Marking b)"
  by (cases b) (simp_all add: relies_def)

lemma lock_inv_step:
  assumes "lock_step False key s s'" and inv: "lock_inv key s"
  shows "lock_inv key s'"
  using assms(1)
proof cases
  case (acquire i c)
  show ?thesis unfolding acquire(1) by (rule lock_inv_acquire [OF inv acquire(2,3)])
next
  case (deliver c)
  show ?thesis unfolding deliver(1) by (rule lock_inv_deliver [OF inv deliver(2,3)])
next
  case (mark i b)
  show ?thesis unfolding mark(1) by (rule lock_inv_mark [OF inv mark(2,3)])
next
  case (erase i)
  show ?thesis unfolding erase(1) by (rule lock_inv_erase [OF inv erase(2)])
next
  case (set_ok i)
  show ?thesis unfolding set_ok(1)
    by (rule lock_inv_move [OF inv]) (use lock_inv_parts(7) [OF inv, of i] set_ok in auto)
next
  case (check_ok i)
  show ?thesis unfolding check_ok(1) by (rule lock_inv_value [OF inv _ check_ok(3)]) (simp add: check_ok(2))
next
  case (still_mine i)
  show ?thesis unfolding still_mine(1) by (rule lock_inv_value [OF inv _ still_mine(3)]) (simp add: still_mine(2))
next
  case (erase_failed i)
  show ?thesis unfolding erase_failed(1) by (rule lock_inv_move [OF inv]) (use erase_failed(2) in auto)
qed (simp_all add: lock_inv_relies [OF inv] lock_inv_move [OF inv] relies_def)

lemma lock_inv_reach: "lock_reach False key s \<Longrightarrow> lock_inv key s"
proof (induction rule: lock_reach.induct)
  case start
  then show ?case by (simp add: lock_inv_def lock_init_def relies_def)
qed (rule lock_inv_step)

text \<open>Runs of one client when nobody interferes.\<close>

lemma take_lock:
  assumes "lock_reach dup key s" and "pcs s i = Out" and "c \<notin> sent0 s" and "store s key = None"
  shows "\<exists>s'. lock_reach dup key s' \<and> pcs s' = (pcs s)(i := Held) \<and> toks s' = (toks s)(i := c) \<and>
    store s' key = Some (mk_value c 1) \<and> sent0 s' = insert c (sent0 s)"
proof -
  let ?s1 = "(goto i Setting s)\<lparr>toks := (toks s)(i := c), sent0 := insert c (sent0 s)\<rparr>"
  let ?s2 = "?s1\<lparr>store := cas_set (store ?s1) key (mk_value c 0), taken := insert c (taken ?s1), owner := Some c\<rparr>"
  let ?s3 = "goto i Held ?s2"
  have 1: "lock_reach dup key ?s1" by (rule lock_reach.step [OF assms(1) lock_step.acquire [OF assms(2,3)]])
  have 2: "lock_reach dup key ?s2"
    by (rule lock_reach.step [OF 1 lock_step.deliver])
      (use assms(4) in \<open>simp_all add: cas_result_ok current_version_def mk_value_def\<close>)
  have "lock_reach dup key ?s3" by (rule lock_reach.step [OF 2 lock_step.set_ok]) simp_all
  moreover have "store ?s3 key = Some (mk_value c 1)"
    using assms(4) by (simp add: cas_set_def current_version_def mk_value_def)
  moreover have "pcs ?s3 = (pcs s)(i := Held)" "toks ?s3 = (toks s)(i := c)" "sent0 ?s3 = insert c (sent0 s)" by simp_all
  ultimately show ?thesis by (intro exI [of _ ?s3] conjI)
qed

lemma give_lock:
  assumes "lock_reach dup key s" and "pcs s i = Held" and "store s key = Some (mk_value (toks s i) 1)"
  shows "\<exists>s'. lock_reach dup key s' \<and> pcs s' = (pcs s)(i := Erased) \<and> toks s' = toks s \<and> store s' key = None \<and>
    sent0 s' = sent0 s"
proof -
  let ?s1 = "goto i Reading s" and ?s2 = "goto i (Marking False) (goto i Reading s)"
  let ?s3 = "(goto i (Marking True) ?s2)\<lparr>store := cas_set (store ?s2) key (mk_value (toks ?s2 i) 1)\<rparr>"
  let ?s4 = "goto i Erasing ?s3"
  let ?s5 = "(goto i Erased ?s4)\<lparr>store := (store ?s4)(key := None), owner := None\<rparr>"
  have 1: "lock_reach dup key ?s1" by (rule lock_reach.step [OF assms(1) lock_step.release [OF assms(2)]])
  have 2: "lock_reach dup key ?s2"
    by (rule lock_reach.step [OF 1 lock_step.read_own]) (use assms(3) in simp_all)
  have 3: "lock_reach dup key ?s3"
    by (rule lock_reach.step [OF 2 lock_step.mark [where b = False]])
      (use assms(3) in \<open>simp_all add: cas_result_ok current_version_def mk_value_def\<close>)
  have 4: "lock_reach dup key ?s4" by (rule lock_reach.step [OF 3 lock_step.mark_ok]) simp
  have "lock_reach dup key ?s5" by (rule lock_reach.step [OF 4 lock_step.erase]) simp
  moreover have "pcs ?s5 = (pcs s)(i := Erased)" "toks ?s5 = toks s" "store ?s5 key = None" "sent0 ?s5 = sent0 s" by simp_all
  ultimately show ?thesis by (intro exI [of _ ?s5] conjI)
qed

lemma first_holder:
  "\<exists>s. lock_reach dup key s \<and> pcs s = (\<lambda>_. Out)(0 := Held) \<and> toks s 0 = ''a'' \<and> store s key = Some (mk_value ''a'' 1) \<and>
    sent0 s = {''a''}"
proof -
  have i: "pcs lock_init 0 = Out" "''a'' \<notin> sent0 lock_init" "store lock_init key = None" by (simp_all add: lock_init_def)
  from take_lock [OF lock_reach.start i] obtain s where s: "lock_reach dup key s" "pcs s = (pcs lock_init)(0 := Held)"
    "toks s = (toks lock_init)(0 := ''a'')" "store s key = Some (mk_value ''a'' 1)" "sent0 s = insert ''a'' (sent0 lock_init)"
    by blast
  show ?thesis by (rule exI [of _ s]) (simp add: s, simp add: lock_init_def)
qed

lemma first_release:
  "\<exists>s. lock_reach dup key s \<and> pcs s = (\<lambda>_. Out)(0 := Erased) \<and> store s key = None \<and> sent0 s = {''a''}"
proof -
  from first_holder [of dup key] obtain s where s: "lock_reach dup key s" "pcs s = (\<lambda>_. Out)(0 := Held)" "toks s 0 = ''a''"
    "store s key = Some (mk_value ''a'' 1)" "sent0 s = {''a''}" by blast
  have h: "pcs s 0 = Held" "store s key = Some (mk_value (toks s 0) 1)" by (simp_all add: s)
  from give_lock [OF s(1) h] obtain s' where "lock_reach dup key s'" "pcs s' = (pcs s)(0 := Erased)" "store s' key = None"
    "sent0 s' = sent0 s" by blast
  then show ?thesis by (intro exI [of _ s']) (simp add: s)
qed

section \<open>The properties\<close>



lemma erase_run:
  "case client_erase (sample_net (\<lambda>n. if n = 0 then mk_Status UNAVAILABLE ''connection lost'' else Status_OK)
       (\<lambda>_. RpErase \<lparr>pv_data = ''a'', pv_version = 2\<rparr>)) (mk_key ''k'') (client_new sample_config) of
     Inr (Inr _, k') \<Rightarrow> rpcs k' = 2
   | _ \<Rightarrow> False"
  by code_simp

text \<open>
  C35: a lock can be held twice. The client sends an erase again when its first reply is lost.
  If another client acquires the lock between the two executions, the second one erases the
  other client's lock, and a third client acquires it while the other still holds it.
\<close>

theorem resent_erase_breaks_lock:
  "(\<exists>r k'. client_erase (sample_net (\<lambda>n. if n = 0 then mk_Status UNAVAILABLE ''connection lost'' else Status_OK)
       (\<lambda>_. RpErase \<lparr>pv_data = ''a'', pv_version = 2\<rparr>)) (mk_key ''k'') (client_new sample_config) = Inr (Inr r, k') \<and> rpcs k' = 2)
   \<and> (\<exists>s. lock_reach True key s \<and> pcs s 1 = Held \<and> pcs s 2 = Held)"
proof
  show "\<exists>r k'. client_erase (sample_net (\<lambda>n. if n = 0 then mk_Status UNAVAILABLE ''connection lost'' else Status_OK)
       (\<lambda>_. RpErase \<lparr>pv_data = ''a'', pv_version = 2\<rparr>)) (mk_key ''k'') (client_new sample_config) = Inr (Inr r, k') \<and> rpcs k' = 2"
    using result_caseD' [OF erase_run] by blast
  from first_release [of True key] obtain s2 where
    s2: "lock_reach True key s2" "pcs s2 = (\<lambda>_. Out)(0 := Erased)" "store s2 key = None" "sent0 s2 = {''a''}" by blast
  have o2: "pcs s2 1 = Out" "''b'' \<notin> sent0 s2" by (simp_all add: s2)
  from take_lock [OF s2(1) o2 s2(3)] obtain s3 where s3: "lock_reach True key s3" "pcs s3 = (pcs s2)(1 := Held)"
    "sent0 s3 = insert ''b'' (sent0 s2)" by blast
  let ?s4 = "s3\<lparr>store := (store s3)(key := None), owner := None\<rparr>"
  have s4: "lock_reach True key ?s4" by (rule lock_reach.step [OF s3(1) lock_step.erase_again [of _ _ 0]]) (simp_all add: s3(2) s2(2))
  have o4: "pcs ?s4 2 = Out" "''c'' \<notin> sent0 ?s4" "store ?s4 key = None" by (simp_all add: s3 s2)
  from take_lock [OF s4 o4] obtain s5 where s5: "lock_reach True key s5" "pcs s5 = (pcs ?s4)(2 := Held)" by blast
  have "pcs s5 1 = Held" "pcs s5 2 = Held" by (simp_all add: s5(2) s3(2))
  with s5(1) show "\<exists>s. lock_reach True key s \<and> pcs s 1 = Held \<and> pcs s 2 = Held" by blast
qed

text \<open>A key that nobody will erase: a client whose token it holds is no longer in \<open>acquire\<close> or \<open>release\<close>.\<close>

definition abandoned :: "kv_key \<Rightarrow> lock_sys \<Rightarrow> bool" where
  "abandoned key s \<longleftrightarrow> taken s \<subseteq> sent0 s \<and>
     (\<exists>v. store s key = Some v \<and> val_version v \<noteq> 0 \<and> val_data v \<in> sent0 s \<and>
       (\<forall>i. pcs s i \<in> {Out, Setting, Checking} \<and> (pcs s i \<noteq> Out \<longrightarrow> toks s i \<noteq> val_data v \<and> toks s i \<notin> taken s)))"

lemma abandoned_step:
  assumes "lock_step False key s s'" and "abandoned key s"
  shows "abandoned key s' \<and> store s' = store s"
proof -
  from assms(2) obtain v where v: "taken s \<subseteq> sent0 s" "store s key = Some v" "val_version v \<noteq> 0" "val_data v \<in> sent0 s"
    and pcs: "\<And>i. pcs s i \<in> {Out, Setting, Checking}"
    and toks: "\<And>i. pcs s i \<noteq> Out \<Longrightarrow> toks s i \<noteq> val_data v \<and> toks s i \<notin> taken s"
    unfolding abandoned_def by blast
  have no: "pcs s i \<noteq> Held" "pcs s i \<noteq> Reading" "pcs s i \<noteq> Marking b" "pcs s i \<noteq> MarkChecking" "pcs s i \<noteq> Erasing"
    "pcs s i \<noteq> Erased" "pcs s i \<noteq> NotFoundChecking" "pcs s i \<noteq> ValueChecking" for i b
    using pcs [of i] by auto
  have move: "abandoned key (goto i p s)" if "pcs s i \<noteq> Out" "p \<in> {Setting, Checking}" for i p
    unfolding abandoned_def using v pcs toks that by (intro conjI exI [of _ v]) (auto simp: fun_upd_def)
  from assms(1) show ?thesis
  proof cases
    case (acquire i c)
    have "c \<noteq> val_data v" "c \<notin> taken s" using acquire(3) v(1,4) by auto
    with v pcs toks show ?thesis unfolding abandoned_def acquire(1) by (intro conjI exI [of _ v]) (auto simp: fun_upd_def)
  next
    case (deliver c)
    then show ?thesis using v(2,3) by (simp add: cas_result_ok current_version_def mk_value_def)
  next
    case (set_failed i)
    then show ?thesis using move by simp
  next
    case (check_no i)
    then show ?thesis using move by simp
  next
    case (set_ok i)
    then show ?thesis using toks [of i] by simp
  next
    case (check_ok i)
    then show ?thesis using toks [of i] v(2) by (simp add: mk_value_def)
  qed (simp_all add: no)
qed

lemma abandoned_steps:
  assumes "(lock_step False key)\<^sup>*\<^sup>* s s'" and "abandoned key s"
  shows "store s' key \<noteq> None \<and> (\<forall>i. pcs s' i \<noteq> Held)"
proof -
  from assms have "abandoned key s'" by (induction rule: rtranclp_induct) (blast dest: abandoned_step)+
  then obtain v where "store s' key = Some v" and o: "\<And>i. pcs s' i \<in> {Out, Setting, Checking}" unfolding abandoned_def by blast
  moreover have "pcs s' i \<noteq> Held" for i using o [of i] by auto
  ultimately show ?thesis by simp
qed

text \<open>
  A lock can be lost for good. A set of \<open>acquire\<close> that is repeated by the network after
  its client has released the lock creates the key again. From then on no client ever gets the
  lock, although nobody holds it.
\<close>

theorem late_set_blocks_lock:
  "\<exists>s. lock_reach False key s \<and> (\<forall>i. pcs s i = Out) \<and>
     {s'. (lock_step False key)\<^sup>*\<^sup>* s s'} \<subseteq> {s'. store s' key \<noteq> None \<and> (\<forall>i. pcs s' i \<noteq> Held)}"
proof -
  from first_release [of False key] obtain s2 where
    s2: "lock_reach False key s2" "pcs s2 = (\<lambda>_. Out)(0 := Erased)" "store s2 key = None" "sent0 s2 = {''a''}" by blast
  let ?s3 = "goto 0 Out s2"
  have 3: "lock_reach False key ?s3" by (rule lock_reach.step [OF s2(1) lock_step.erase_ok]) (simp add: s2(2))
  let ?s4 = "?s3\<lparr>store := cas_set (store ?s3) key (mk_value ''a'' 0), taken := insert ''a'' (taken ?s3), owner := Some ''a''\<rparr>"
  have 4: "lock_reach False key ?s4"
    by (rule lock_reach.step [OF 3 lock_step.deliver])
      (simp_all add: s2 cas_result_ok current_version_def mk_value_def)
  have st: "store ?s4 key = Some (mk_value ''a'' 1)" by (simp add: s2 cas_set_def current_version_def mk_value_def)
  have out: "\<forall>i. pcs ?s4 i = Out" by (simp add: s2)
  have "taken ?s4 \<subseteq> sent0 ?s4" using lock_inv_parts(3) [OF lock_inv_reach [OF 4]] .
  then have "abandoned key ?s4" unfolding abandoned_def using st out by (intro conjI exI [of _ "mk_value ''a'' 1"]) (simp_all add: s2 mk_value_def)
  then have "{s'. (lock_step False key)\<^sup>*\<^sup>* ?s4 s'} \<subseteq> {s'. store s' key \<noteq> None \<and> (\<forall>i. pcs s' i \<noteq> Held)}"
    by (intro Collect_mono impI) (rule abandoned_steps)
  with 4 out show ?thesis by (intro exI [of _ ?s4] conjI)
qed

end
