(* ===== verification/Runtime.thy ===== *)
theory Runtime
  imports Prelude
begin

text \<open>
  The objects that own a thread: the timer \<open>src/raft/AsyncTimer.cpp\<close>, which drives elections and
  heartbeats, and the gRPC server \<open>src/include/server/RPCServer.hpp\<close>.

  The timer is a system of two threads. The owner calls \<open>start\<close> and \<open>stop\<close>; the worker runs
  the loop of \<open>start\<close>. Each critical section of the mutex is one step. \<open>calls\<close> counts the
  callbacks that have returned.
\<close>

section \<open>The timer\<close>

text \<open>
  Where the worker is: before it locks the mutex, in \<open>wait_for\<close>, in the callback, or out of
  its loop.
\<close>

datatype worker = W_top | W_wait | W_call | W_done

record timer =
  running :: bool
  worker :: "worker option"
  calls :: nat

definition AsyncTimer_new :: timer where
  "AsyncTimer_new = \<lparr>running = False, worker = None, calls = 0\<rparr>"

text \<open>
  The next step of the worker, \<open>None\<close> if there is no worker or it has left its loop. A wait
  ends with the value of its predicate: it breaks when the timer was stopped, and goes on to the
  callback when the interval is over.
\<close>

definition timer_work :: "timer \<Rightarrow> timer option" where
  "timer_work t =
     (case worker t of
        Some W_top \<Rightarrow> Some (t\<lparr>worker := Some (if \<not> running t then W_done else W_wait)\<rparr>)
      | Some W_wait \<Rightarrow> Some (t\<lparr>worker := Some (if \<not> running t then W_done else W_call)\<rparr>)
      | Some W_call \<Rightarrow> Some (t\<lparr>worker := Some W_top, calls := calls t + 1\<rparr>)
      | Some W_done \<Rightarrow> None
      | None \<Rightarrow> None)"

text \<open>The sections of \<open>stop\<close> and \<open>start\<close>; \<open>join\<close> waits until the worker has left its loop.\<close>

definition timer_clear :: "timer \<Rightarrow> timer" where
  "timer_clear t = t\<lparr>running := False\<rparr>"

definition timer_join :: "timer \<Rightarrow> timer option" where
  "timer_join t =
     (case worker t of
        None \<Rightarrow> Some t
      | Some p \<Rightarrow> if p = W_done then Some (t\<lparr>worker := None\<rparr>) else None)"

definition timer_launch :: "timer \<Rightarrow> timer" where
  "timer_launch t = t\<lparr>running := True, worker := Some W_top\<rparr>"

text \<open>
  The owner: between calls, in \<open>stop\<close> before the join (with whether \<open>start\<close> has called it), or
  in \<open>start\<close> after its \<open>stop\<close>. The destructor is a \<open>stop\<close>.
\<close>

datatype owner = O_ready | O_join bool | O_launch

inductive timer_step :: "owner \<times> timer \<Rightarrow> owner \<times> timer \<Rightarrow> bool" where
  call_stop: "timer_step (O_ready, t) (O_join False, timer_clear t)"
| call_start: "timer_step (O_ready, t) (O_join True, timer_clear t)"
| joined: "timer_join t = Some t' \<Longrightarrow> timer_step (O_join b, t) (if b then O_launch else O_ready, t')"
| launch: "timer_step (O_launch, t) (O_ready, timer_launch t)"
| work: "timer_work t = Some t' \<Longrightarrow> timer_step (ow, t) (ow, t')"

inductive timer_reach :: "owner \<times> timer \<Rightarrow> bool" where
  reach_new: "timer_reach (O_ready, AsyncTimer_new)"
| reach_step: "timer_reach s \<Longrightarrow> timer_step s s' \<Longrightarrow> timer_reach s'"

inductive_cases timer_stepE: "timer_step (ow, t) s'"

definition timer_inv :: "owner \<times> timer \<Rightarrow> bool" where
  "timer_inv s \<longleftrightarrow>
     (case s of (ow, t) \<Rightarrow>
        (if running t then ow = O_ready \<and> worker t \<noteq> None \<and> worker t \<noteq> Some W_done
         else case ow of O_join b \<Rightarrow> True | _ \<Rightarrow> worker t = None))"

lemma timer_inv_step: "timer_inv s \<Longrightarrow> timer_step s s' \<Longrightarrow> timer_inv s'"
  by (cases s) (auto elim!: timer_stepE simp: timer_inv_def timer_clear_def timer_join_def timer_launch_def timer_work_def
      split: if_splits option.splits worker.splits owner.splits)

lemma timer_inv_reach: "timer_reach s \<Longrightarrow> timer_inv s"
proof (induction rule: timer_reach.induct)
  case reach_new
  show ?case by (simp add: timer_inv_def AsyncTimer_new_def)
qed (rule timer_inv_step)

text \<open>The worker runs on its own for at most n steps.\<close>

fun timer_run :: "nat \<Rightarrow> timer \<Rightarrow> timer" where
  "timer_run 0 t = t"
| "timer_run (Suc n) t = (case timer_work t of None \<Rightarrow> t | Some t' \<Rightarrow> timer_run n t')"

lemma stopped_worker_ends:
  assumes "\<not> running t"
  shows "timer_join (timer_run 2 t) \<noteq> None \<and> calls (timer_run 2 t) \<le> calls t + 1"
proof (cases "worker t")
  case (Some p)
  with assms show ?thesis
    by (cases p) (simp_all add: timer_work_def timer_join_def numeral_2_eq_2)
qed (simp add: timer_work_def timer_join_def numeral_2_eq_2)

text \<open>
  C30: a timer can be stopped. After \<open>stop\<close> has cleared the flag the worker leaves its loop
  within two steps, in which it finishes at most one callback, so the join returns. Once
  \<open>stop\<close> has returned no callback runs until the next \<open>start\<close>. A timer that is running
  always has a worker that goes on.
\<close>

theorem timer_stops:
  assumes "timer_reach (ow, t)"
  shows "(ow \<noteq> O_ready \<longrightarrow> timer_join (timer_run 2 t) \<noteq> None \<and> calls (timer_run 2 t) \<le> calls t + 1) \<and>
    (ow = O_ready \<longrightarrow> \<not> running t \<longrightarrow> (\<forall>n. timer_run n t = t)) \<and>
    (running t \<longrightarrow> timer_work t \<noteq> None)"
proof (intro conjI impI allI)
  note inv = timer_inv_reach [OF assms]
  show "timer_join (timer_run 2 t) \<noteq> None" "calls (timer_run 2 t) \<le> calls t + 1" if "ow \<noteq> O_ready"
    using stopped_worker_ends [of t] inv that by (auto simp: timer_inv_def split: if_splits)
  show "timer_run n t = t" if "ow = O_ready" "\<not> running t" for n
    using inv that by (cases n) (simp_all add: timer_inv_def timer_work_def)
  show "timer_work t \<noteq> None" if "running t"
    using inv that by (cases "worker t") (auto simp: timer_inv_def timer_work_def split: worker.splits)
qed

text \<open>A timer that was started, has called back once and is being stopped in its second callback.\<close>

theorem timer_stops_witness:
  "\<exists>t. timer_reach (O_join False, t) \<and> worker t = Some W_call \<and> calls t = 1 \<and>
     timer_join (timer_run 2 t) \<noteq> None \<and> calls (timer_run 2 t) \<le> 2"
proof -
  have 1: "timer_reach (O_join True, AsyncTimer_new)"
    using reach_step [OF reach_new call_start] by (simp add: timer_clear_def AsyncTimer_new_def)
  have 2: "timer_reach (O_launch, AsyncTimer_new)"
    using reach_step [OF 1 joined [of _ AsyncTimer_new True]] by (simp add: timer_join_def AsyncTimer_new_def)
  have w: "timer_reach (O_ready, t')" if "timer_reach (O_ready, t)" "timer_work t = Some t'" for t t'
    using reach_step [OF that(1) work [OF that(2)]] .
  have 3: "timer_reach (O_ready, \<lparr>running = True, worker = Some W_top, calls = 0\<rparr>)"
    using reach_step [OF 2 launch] by (simp add: timer_launch_def AsyncTimer_new_def)
  have 4: "timer_reach (O_ready, \<lparr>running = True, worker = Some W_wait, calls = 0\<rparr>)" by (rule w [OF 3]) (simp add: timer_work_def)
  have 5: "timer_reach (O_ready, \<lparr>running = True, worker = Some W_call, calls = 0\<rparr>)" by (rule w [OF 4]) (simp add: timer_work_def)
  have 6: "timer_reach (O_ready, \<lparr>running = True, worker = Some W_top, calls = 1\<rparr>)" by (rule w [OF 5]) (simp add: timer_work_def)
  have 7: "timer_reach (O_ready, \<lparr>running = True, worker = Some W_wait, calls = 1\<rparr>)" by (rule w [OF 6]) (simp add: timer_work_def)
  have 8: "timer_reach (O_ready, \<lparr>running = True, worker = Some W_call, calls = 1\<rparr>)" by (rule w [OF 7]) (simp add: timer_work_def)
  have 9: "timer_reach (O_join False, \<lparr>running = False, worker = Some W_call, calls = 1\<rparr>)"
    using reach_step [OF 8 call_stop] by (simp add: timer_clear_def)
  from timer_stops [OF 9] 9 show ?thesis
    by (intro exI [of _ "\<lparr>running = False, worker = Some W_call, calls = 1\<rparr>"]) simp
qed

section \<open>The gRPC server\<close>

text \<open>
  \<open>builds\<close> says whether \<open>BuildAndStart\<close> can listen on an address; otherwise it returns a null
  pointer. \<open>rs_serving\<close> says whether calls are accepted; the thread waits while they are.
\<close>

record rpc_server =
  rs_addr :: string
  rs_server :: bool
  rs_serving :: bool
  rs_thread :: bool

definition RPCServer_new :: "(string \<Rightarrow> bool) \<Rightarrow> string \<Rightarrow> rpc_server outcome" where
  "RPCServer_new builds address =
     (if \<not> builds address then Inl (RuntimeError (''Failed to start gRPC server on address: '' @ address))
      else Inr \<lparr>rs_addr = address, rs_server = True, rs_serving = True, rs_thread = True\<rparr>)"

definition RPCServer_shutdown :: "rpc_server \<Rightarrow> rpc_server" where
  "RPCServer_shutdown s =
     (let s1 = (if rs_server s then s\<lparr>rs_serving := False\<rparr> else s);
          s2 = (if rs_thread s1 then s1\<lparr>rs_thread := False\<rparr> else s1)
      in s2\<lparr>rs_server := False\<rparr>)"

text \<open>
  A server that was started serves until it is shut down. Shutting it down stops it and its
  thread, and doing so again, as the destructor does, changes nothing.
\<close>

lemma RPCServer_lifecycle:
  assumes "RPCServer_new builds address = Inr s"
  shows "rs_serving s \<and> \<not> rs_serving (RPCServer_shutdown s) \<and> \<not> rs_thread (RPCServer_shutdown s) \<and>
    RPCServer_shutdown (RPCServer_shutdown s) = RPCServer_shutdown s"
  using assms by (auto simp: RPCServer_new_def RPCServer_shutdown_def split: if_splits)

end
