(* ===== verification/Spec2Isabelle.thy ===== *)
theory Spec2Isabelle
  imports TestCluster TestHistory DistLock Runtime
begin

text \<open>
  \<^bold>\<open>zdb\<close>, a replicated key-value store. Paths are relative to \<open>src/\<close> of the repository.

  \<^bold>\<open>The program.\<close> A client (\<open>client/\<close>, \<open>lock/\<close>) calls a server over gRPC, retrying through a
  circuit breaker (\<open>common/\<close>). A server hands a command to its replicated state machine
  (\<open>raft/Rsm.cpp\<close>), which gives it to its Raft server (\<open>include/raft/RaftImpl.hpp\<close>) and waits
  for the answer. The Raft servers elect a leader, replicate the log and save their state
  through a persister; committed commands go through a one-place channel
  (\<open>include/raft/SyncChannel.hpp\<close>) to the key-value state machine
  (\<open>common/KVStateMachine.cpp\<close>), whose answer completes the pending request.

  \<^bold>\<open>The theories.\<close>
  \<^item> \<open>Prelude\<close>: machine integers, C++ exceptions as values, association lists for
    \<open>std::unordered_map\<close>, lemmas shared by the rest. \<open>Codec\<close>: byte codecs that satisfy the
    laws the code relies on of protocol buffers and gob.
  \<^item> \<open>Uuid\<close> (\<open>common/Util.cpp\<close>): request identifiers and random strings.
  \<^item> \<open>Errors\<close> (\<open>common/Error.cpp\<close>, \<open>common/ErrorConverter.cpp\<close>): error codes, which of them
    are retried, and the conversion to gRPC statuses and back.
  \<^item> \<open>KvTypes\<close> (\<open>common/Types.cpp\<close>), \<open>Commands\<close> (\<open>common/Command.cpp\<close>): values, answers and
    commands with their serialised forms; both directions are proved inverse where they are,
    and what is lost is stated where they are not.
  \<^item> \<open>Store\<close> (\<open>storage/InMemoryKVStore.cpp\<close>): the locale \<open>storage_engine\<close> says what an engine
    promises as operations on an abstract versioned map; the in-memory store interprets it.
    \<open>KvMachine\<close> (\<open>common/KVStateMachine.cpp\<close>): the state machine over any such engine refines
    the abstract map, so replicas that apply the same commands agree.
  \<^item> \<open>RaftLog\<close> (\<open>raft/Log.cpp\<close>): the log with its compaction point; merging, truncation and
    compaction keep it gap-free and do what Raft needs.
  \<^item> \<open>RaftTypes\<close> (\<open>raft/Types.cpp\<close>): the Raft messages and their wire forms.
  \<^item> \<open>Persist\<close> (\<open>storage/FilePersister.cpp\<close>, \<open>goRaft/cgo/GoPersister.cpp\<close>,
    \<open>goRaft/cgo_callbacks.go\<close>): the locale \<open>persister\<close> says what a Raft server relies on of
    its stable storage; the Go persister satisfies it for states with a cast vote that fit its
    buffer. The file persister satisfies it only for a server that is never restarted, which is
    the interpretation \<open>fp\<close> with no state that can be loaded again; the guarantees of the
    cluster therefore hold for C++ servers that do not restart.
  \<^item> \<open>Retry\<close> (\<open>common/Repeater.cpp\<close>, \<open>common/CircuitBreaker.cpp\<close> and their policies): a retried
    call returns after a bounded number of attempts.
  \<^item> \<open>RaftNode\<close> (\<open>include/raft/RaftImpl.hpp\<close>): the state of a server as a record and every
    critical section as a function; \<open>local_step\<close> collects them. \<open>RaftServer\<close>: what each handler
    does on every branch. \<open>RaftElection\<close>: a cluster as a step relation over a lossy network
    with crashes; no two servers win the same term.
  \<^item> \<open>RaftSpec\<close>: the Raft protocol itself, over abstract logs and any system of quorums (the
    locale \<open>quorums\<close>, interpreted on the majorities of a cluster), with the invariant that
    gives its guarantees. \<open>Replication\<close>: the cluster of \<open>RaftElection\<close> with the AppendEntries
    traffic, commits and the hand-over to the state machines; \<open>sim\<close> relates it to the
    protocol, one lemma for each kind of step shows that the protocol can follow.
    \<open>RaftSafety\<close>: what this gives for the code, namely log matching, leader completeness and
    state machine safety, and that replicas reach the same store; a run of two servers that
    elect, replicate, commit and apply is evaluated on the definitions.
  \<^item> \<open>SyncChan\<close> (\<open>include/raft/SyncChannel.hpp\<close>): the channel delivers in order, each value once;
    the locale \<open>channel\<close> is the contract and \<open>sync\<close> its interpretation.
  \<^item> \<open>Rsm\<close> (\<open>raft/PendingRequests.cpp\<close>, \<open>raft/Rsm.cpp\<close>): a registered request is answered with
    what the abstract map answers to its command.
  \<^item> \<open>KvService\<close> (\<open>server/KVStoreServiceImpl.cpp\<close>): the gRPC handlers over \<open>Rsm\<close>; what a client
    reads is what the abstract map answers. \<open>RaftService\<close> (\<open>raft/RaftServiceImpl.cpp\<close>): the gRPC
    handlers of Raft pass calls and replies on unchanged, but for the reply to a snapshot.
  \<^item> \<open>Rpc\<close> (\<open>include/common/RPCService.hpp\<close>): a connection and its calls. \<open>ClientConfig\<close>
    (\<open>client/Config.cpp\<close>): the choice of a server. \<open>KvClient\<close> (\<open>client/KVStoreClient.cpp\<close>): the
    operations of a client and its waiting loops; \<open>map_answer\<close> ties the replies of remote calls to
    the contents of the abstract map at the time they were executed, and the theorems say which
    of these contents a result speaks of.
  \<^item> \<open>DistLock\<close> (\<open>lock/Lock.cpp\<close>): the lock over the client, and its protocol with any number of
    clients as the step relation \<open>lock_step\<close>; mutual exclusion holds as long as no erase is sent
    twice.
  \<^item> \<open>Runtime\<close> (\<open>raft/AsyncTimer.cpp\<close>, \<open>include/server/RPCServer.hpp\<close>): the objects that own a
    thread; a timer can be stopped.
  \<^item> \<open>GoApply\<close> and \<open>GoRpc\<close> (\<open>goRaft/\<close>): the same Raft server and replicated state machine under
    the Go tests, with every buffer that crosses the border between the languages; calls between
    servers are transparent, and a submitted request is answered by one execution. \<open>GoApi\<close>
    (\<open>goRaft/cgo_raft.go\<close>, \<open>goRaft/cgo_rsm.go\<close>): the table of callbacks, the functions the Go
    tests call and the C++ objects they make and delete, with the reads of deleted objects as an
    error; making and killing a server restores the table, and a replicated state machine that is
    killed through its Raft object dangles.
  \<^item> \<open>LabRpc\<close> (\<open>6.5840/src/labrpc/labrpc.go\<close>): the network of the Go tests. It implements the
    three outcomes of a call that \<open>GoRpc\<close> assumes of it, never answers for a killed server and
    bounds its delays.
  \<^item> \<open>TestProxy\<close> (\<open>tst/KVTestFramework/ProxyService.hpp\<close>, \<open>tst/RaftTestFramework/ProxyRaftService.cpp\<close>):
    the proxies of the C++ tests implement the same three outcomes. \<open>TestHistory\<close>
    (\<open>tst/KVTestFramework/KVTestFramework.cpp\<close>, \<open>tst/KVTestFramework/porcupine/main.go\<close>): the
    clients of the tests, the history they record and the model it is checked against; histories
    of the abstract map are accepted. \<open>TestCluster\<close> (\<open>tst/RaftTestFramework/RaftTestFramework.cpp\<close>):
    what the checks for one leader and for agreement say of a cluster of \<open>Replication\<close>, and
    where they say less than their names.

  \<^bold>\<open>How the code is read.\<close> Classes are records or datatypes with the source's field names where
  Isabelle allows them, \<open>uint64_t\<close> and \<open>uint8_t\<close> are words of that width, a function that can
  throw returns \<open>cxx_exn + 'a\<close>. Code that holds a mutex is one atomic function; where it
  unlocks, the function is cut in two. Clock readings, random draws, uninitialised memory,
  what other threads do to a shared flag, and the answers of remote servers are arguments.
  gRPC, protocol buffers and gob are arguments, with their laws as hypotheses.

  \<^bold>\<open>Bounds.\<close> Every loop of the servers is structural or has a termination proof, so no definition
  takes fuel; an operation that waits for other threads is given the list of its wake-ups. The
  waiting loops of the client and the lock may run forever and are partial functions, in which
  \<open>None\<close> is a loop that does not return. The theorem on elections needs fewer than 256 servers,
  as the cluster size is an eight-bit integer; another theorem shows what happens at 256. In
  \<open>Replication\<close> a server takes a command only while its last index is below \<open>2 ^ 64 - 2\<close>, so
  that the next index does not wrap around, and no server compacts its log: the key-value server
  never calls \<open>Raft::snapshot\<close>, and with snapshots the guarantees fail, as
  \<open>stale_snapshot_loses_commits\<close> in \<open>RaftServer\<close> and the theorems on stale batches in
  \<open>RaftLog\<close> show.

  \<^bold>\<open>Not modelled.\<close> gRPC, protocol buffers and gob, which are arguments. \<open>main\<close>, which sets up
  logging and returns. Of the tests, the code that only starts threads, servers and processes (the
  constructor and \<open>start\<close> of \<open>RAFTTestFramework\<close>, \<open>spawnClientsAndWait\<close>, \<open>Porcupine::check\<close>),
  the search of the linearizability checker, which is a package, the unit tests, and the rest of
  the course code under \<open>6.5840/\<close>. Logging is left out everywhere. Thread scheduling is arbitrary
  interleaving of the atomic functions; data races, of which the heartbeat timer callback has one,
  are not.
\<close>

end
